(* ===== verification/Prelude.thy ===== *)
theory Prelude
  imports "HOL-Library.Word" "HOL-Library.Signed_Division" "HOL-Library.AList"
begin

text \<open>
  Shared vocabulary of the development: Go's machine integers, \<open>time.Time\<close> and
  \<open>time.Duration\<close>, byte slices, error values with \<open>errors.Is\<close> and \<open>errors.As\<close>,
  and the generic facts about them and about association lists that the component
  theories use.

  \<^item> \<open>duration\<close> is Go's \<open>time.Duration\<close>, a signed 64-bit count of nanoseconds held as
    an \<open>int\<close>. Arithmetic that can leave the range goes through \<open>wrap64\<close> (two's
    complement) or \<open>sat64\<close> (the saturation of \<open>Time.Sub\<close>).
  \<^item> \<open>instant\<close> is Go's \<open>time.Time\<close>: a point on one clock, in nanoseconds.
  \<^item> \<open>gerror\<close> is an error value: a sentinel, a wrapped error or a join. Only the constant
    part of a message is kept; formatted arguments are dropped.
\<close>

named_theorems op_defs "definitions of operations, unfolded in the component proofs"
named_theorems err_simps "evaluation of errors.Is and errors.As"
named_theorems time_simps "comparisons and arithmetic of instants, as integers"

lemma ex3I: "P a b c \<Longrightarrow> \<exists>x y z. P x y z"
  by blast

section \<open>Integers and slices\<close>

type_synonym u8 = "8 word"
type_synonym u64 = "64 word"

text \<open>A Go \<open>[]byte\<close>: nil is \<open>None\<close>, so nil and the non-nil empty slice differ.\<close>

type_synonym bytes = "u8 list option"

definition slice_len :: "bytes \<Rightarrow> nat" where
  "slice_len b = (case b of None \<Rightarrow> 0 | Some xs \<Rightarrow> length xs)"

lemma slice_len_simps [simp]: "slice_len None = 0" "slice_len (Some xs) = length xs"
  by (simp_all add: slice_len_def)

text \<open>A nil or empty slice becomes nil; any other slice is copied.\<close>

definition normalize_state :: "bytes \<Rightarrow> bytes" where
  "normalize_state b = (if slice_len b = 0 then None else b)"

lemma normalize_state_simps [simp]:
  "normalize_state None = None"
  "normalize_state (Some []) = None"
  "normalize_state (Some (x # xs)) = Some (x # xs)"
  "normalize_state (normalize_state b) = normalize_state b"
  by (simp_all add: normalize_state_def)

lemma normalize_state_not_empty [simp]: "normalize_state b \<noteq> Some []"
  by (auto simp: normalize_state_def)

type_synonym duration = int

definition wrap64 :: "int \<Rightarrow> int" where
  "wrap64 x = (x + 2 ^ 63) mod 2 ^ 64 - 2 ^ 63"

definition sat64 :: "int \<Rightarrow> int" where
  "sat64 x = max (- (2 ^ 63)) (min (2 ^ 63 - 1) x)"

definition is_int64 :: "int \<Rightarrow> bool" where
  "is_int64 x \<longleftrightarrow> - (2 ^ 63) \<le> x \<and> x < 2 ^ 63"

lemma wrap64_id: "is_int64 x \<Longrightarrow> wrap64 x = x"
  by (simp add: wrap64_def is_int64_def)

lemma wrap64_range: "is_int64 (wrap64 x)"
proof -
  have "0 \<le> (x + 2 ^ 63) mod 2 ^ 64" and "(x + 2 ^ 63) mod 2 ^ 64 < (2 :: int) ^ 64"
    by simp_all
  then show ?thesis by (simp add: wrap64_def is_int64_def)
qed

lemma sat64_less: "is_int64 d \<Longrightarrow> d < 2 ^ 63 - 1 \<Longrightarrow> d < sat64 x \<longleftrightarrow> d < x"
  by (auto simp: sat64_def is_int64_def)

lemma sat64_le_self: "d < sat64 x \<Longrightarrow> is_int64 d \<Longrightarrow> d < x"
  by (auto simp: sat64_def is_int64_def max_def min_def split: if_splits)

text \<open>\<open>strconv.Itoa\<close> of a non-negative number.\<close>

fun itoa :: "nat \<Rightarrow> string" where
  "itoa n = (if n < 10 then [char_of (48 + n)] else itoa (n div 10) @ [char_of (48 + n mod 10)])"

declare itoa.simps [simp del]

abbreviation microsecond :: duration where "microsecond \<equiv> 1000"
abbreviation millisecond :: duration where "millisecond \<equiv> 1000000"
abbreviation second :: duration where "second \<equiv> 1000000000"

section \<open>Instants\<close>

datatype instant = At (ns: int)

instantiation instant :: linorder
begin

definition less_eq_instant :: "instant \<Rightarrow> instant \<Rightarrow> bool" where
  "less_eq_instant t u \<longleftrightarrow> ns t \<le> ns u"

definition less_instant :: "instant \<Rightarrow> instant \<Rightarrow> bool" where
  "less_instant t u \<longleftrightarrow> ns t < ns u"

instance
  by standard (auto simp: less_eq_instant_def less_instant_def instant.expand)

end

definition time_add :: "instant \<Rightarrow> duration \<Rightarrow> instant" where
  "time_add t d = At (ns t + d)"

definition time_sub :: "instant \<Rightarrow> instant \<Rightarrow> duration" where
  "time_sub t u = sat64 (ns t - ns u)"

definition time_after :: "instant \<Rightarrow> instant \<Rightarrow> bool" where
  "time_after t u \<longleftrightarrow> u < t"

definition time_before :: "instant \<Rightarrow> instant \<Rightarrow> bool" where
  "time_before t u \<longleftrightarrow> t < u"

text \<open>The zero \<open>time.Time\<close> is January 1 of year 1, in nanoseconds from the Unix epoch.\<close>

definition zero_time :: instant where
  "zero_time = At (- 62135596800 * second)"

lemma ns_time_add [simp]: "ns (time_add t d) = ns t + d"
  by (simp add: time_add_def)

lemmas [time_simps] = less_eq_instant_def less_instant_def time_after_def time_before_def

text \<open>
  The readings of one clock taken during a call, in program order: reading \<open>k\<close> is the
  result of the \<open>k\<close>-th \<open>Now()\<close> of the call.
\<close>

type_synonym clock = "nat \<Rightarrow> instant"

lemma clock_mono: "mono (c :: clock) \<Longrightarrow> i \<le> j \<Longrightarrow> ns (c i) \<le> ns (c j)"
  by (drule monoD [of c i j]) (simp_all add: less_eq_instant_def)

lemma clock_mono_add: "mono (c :: clock) \<Longrightarrow> ns (c i) \<le> ns (c (i + k))"
  by (rule clock_mono) simp_all

section \<open>Error values\<close>

text \<open>
  \<open>Wrap\<close> is \<open>fmt.Errorf\<close> with one \<open>%w\<close>; \<open>Wraps\<close> is several \<open>%w\<close> or
  \<open>errors.Join\<close>; \<open>ConfigError\<close> is the \<open>configError\<close> type of each package, which
  unwraps to \<open>ErrConfigInvalid\<close>; \<open>PermErr\<close> is an error type with a \<open>Permanent\<close>
  method, with the value it returns and the error it unwraps to; \<open>ErrNew\<close> is any other
  error.
\<close>

datatype gerror =
    ErrFenced
  | ErrLeaseHeld
  | ErrLeaseExpired
  | ErrInvalidExitMode
  | ErrLeaseWindowExhausted
  | ErrConfigInvalid
  | ErrRetire
  | ErrAllSlotsDead
  | CtxCanceled
  | CtxDeadlineExceeded
  | SqlErrNoRows
  | ErrNew string
  | ConfigError string
  | Wrap string gerror
  | Wraps string "gerror list"
  | PermErr bool "gerror option"

text \<open>\<open>errors.Is\<close>: the error itself or one it unwraps to is the target.\<close>

fun errors_is :: "gerror \<Rightarrow> gerror \<Rightarrow> bool" where
  "errors_is (ConfigError m) t \<longleftrightarrow> ConfigError m = t \<or> ErrConfigInvalid = t"
| "errors_is (Wrap m e) t \<longleftrightarrow> Wrap m e = t \<or> errors_is e t"
| "errors_is (Wraps m es) t \<longleftrightarrow> Wraps m es = t \<or> list_ex (\<lambda>e. errors_is e t) es"
| "errors_is (PermErr p (Some e)) t \<longleftrightarrow> PermErr p (Some e) = t \<or> errors_is e t"
| "errors_is e t \<longleftrightarrow> e = t"

text \<open>
  \<open>errors.As\<close> for \<open>pool.PermanentError\<close>: the first error of the tree, depth first, that
  has a \<open>Permanent\<close> method, read as the value that method returns.
\<close>

fun errors_as_permanent :: "gerror \<Rightarrow> bool option"
  and errors_as_permanent_list :: "gerror list \<Rightarrow> bool option" where
  "errors_as_permanent (PermErr p c) = Some p"
| "errors_as_permanent (Wrap m e) = errors_as_permanent e"
| "errors_as_permanent (Wraps m es) = errors_as_permanent_list es"
| "errors_as_permanent e = None"
| "errors_as_permanent_list [] = None"
| "errors_as_permanent_list (e # es) =
     (case errors_as_permanent e of None \<Rightarrow> errors_as_permanent_list es | Some p \<Rightarrow> Some p)"

text \<open>The two values \<open>ctx.Err()\<close> has once a context is done.\<close>

definition ctx_error :: "gerror \<Rightarrow> bool" where
  "ctx_error e \<longleftrightarrow> e = CtxCanceled \<or> e = CtxDeadlineExceeded"

text \<open>\<open>errors.Is\<close> of a possibly nil error.\<close>

definition err_matches :: "gerror option \<Rightarrow> gerror \<Rightarrow> bool" where
  "err_matches r t \<longleftrightarrow> (case r of None \<Rightarrow> False | Some e \<Rightarrow> errors_is e t)"

lemma err_matches_simps [simp]:
  "err_matches None t = False"
  "err_matches (Some e) t = errors_is e t"
  by (simp_all add: err_matches_def)

lemma errors_is_refl [simp]: "errors_is e e"
  by (cases "(e, e)" rule: errors_is.cases) simp_all

section \<open>Association lists with distinct keys\<close>

lemma lookup_update [simp]: "map_of (AList.update k v xs) = (map_of xs)(k \<mapsto> v)"
  by (simp add: update_conv')

lemma lookup_delete [simp]: "map_of (AList.delete k xs) = (map_of xs)(k := None)"
  by (simp add: delete_conv')

lemma set_update_cases: "p \<in> set (AList.update k v xs) \<Longrightarrow> p = (k, v) \<or> p \<in> set xs"
  by (induction xs) (auto split: if_splits)

lemma map_of_filter_distinct:
  assumes "distinct (map fst rows)"
  shows "map_of (filter keep rows) w =
    (case map_of rows w of Some r \<Rightarrow> (if keep (w, r) then Some r else None) | None \<Rightarrow> None)"
  using assms
proof (induction rows)
  case (Cons p rows)
  then have "fst p \<notin> dom (map_of rows)" by (simp add: dom_map_of_conv_image_fst)
  with Cons show ?case
    by (cases p) (auto split: option.splits if_splits simp: domIff)
qed simp

lemma distinct_fst_filter: "distinct (map fst xs) \<Longrightarrow> distinct (map fst (filter P xs))"
  by (induction xs) auto

lemma card_dom_map_of: "distinct (map fst xs) \<Longrightarrow> card (dom (map_of xs)) = length xs"
  using distinct_card [of "map fst xs"] by (simp add: dom_map_of_conv_image_fst)

end
