(* ===== verification/Backend_Spec.thy ===== *)
theory Backend_Spec
  imports Prelude
begin

text \<open>
  Package \<open>backend\<close>: exit modes, checkpoints, lease records, sweep options and the
  \<open>Backend\<close> interface.

  The interface value is the record \<open>backend\<close> of its seven operations over a state
  \<open>'s\<close>. Each operation takes the error state of its context, the clock readings taken
  during the call, the state and the arguments, and returns the new state with the result.
  The contract that the Go doc comments promise is the locale \<open>lease_backend\<close>, in terms
  of the stored leases (\<open>view\<close>) and the highest fencing token ever issued (\<open>issued\<close>).
  What a client may conclude from the contract alone (fencing, exclusion, handoff) is proved
  inside the locale, once, for every backend.
\<close>

section \<open>Exit modes\<close>

type_synonym exit_mode = u8

definition ExitNone :: exit_mode where "ExitNone = 0"
definition ExitFinished :: exit_mode where "ExitFinished = 1"
definition ExitAbandoned :: exit_mode where "ExitAbandoned = 2"
definition ExitRetired :: exit_mode where "ExitRetired = 3"
definition ExitExpired :: exit_mode where "ExitExpired = 4"

lemmas exit_mode_defs =
  ExitNone_def ExitFinished_def ExitAbandoned_def ExitRetired_def ExitExpired_def

lemma exit_modes_distinct [simp]:
  "ExitNone \<noteq> ExitFinished" "ExitNone \<noteq> ExitAbandoned" "ExitNone \<noteq> ExitRetired"
  "ExitNone \<noteq> ExitExpired" "ExitFinished \<noteq> ExitNone" "ExitFinished \<noteq> ExitAbandoned"
  "ExitFinished \<noteq> ExitRetired" "ExitFinished \<noteq> ExitExpired" "ExitAbandoned \<noteq> ExitNone"
  "ExitAbandoned \<noteq> ExitFinished" "ExitAbandoned \<noteq> ExitRetired" "ExitAbandoned \<noteq> ExitExpired"
  "ExitRetired \<noteq> ExitNone" "ExitRetired \<noteq> ExitFinished" "ExitRetired \<noteq> ExitAbandoned"
  "ExitRetired \<noteq> ExitExpired" "ExitExpired \<noteq> ExitNone" "ExitExpired \<noteq> ExitFinished"
  "ExitExpired \<noteq> ExitAbandoned" "ExitExpired \<noteq> ExitRetired"
  by (simp_all add: exit_mode_defs)

definition exit_mode_string :: "exit_mode \<Rightarrow> string" where
  "exit_mode_string m =
     (if m = ExitNone then ''none''
      else if m = ExitFinished then ''finished''
      else if m = ExitAbandoned then ''abandoned''
      else if m = ExitRetired then ''retired''
      else if m = ExitExpired then ''expired''
      else ''ExitMode('' @ itoa (unat m) @ '')'')"

text \<open>The modes \<open>Release\<close> accepts.\<close>

definition declarable :: "exit_mode \<Rightarrow> bool" where
  "declarable m \<longleftrightarrow> \<not> (m \<noteq> ExitFinished \<and> m \<noteq> ExitAbandoned \<and> m \<noteq> ExitRetired)"

lemma declarable_iff: "declarable m \<longleftrightarrow> m \<in> {ExitFinished, ExitAbandoned, ExitRetired}"
  by (auto simp: declarable_def)

lemma declarable_not_none [simp]: "declarable m \<Longrightarrow> m \<noteq> ExitNone"
  by (auto simp: declarable_iff)

section \<open>The types of the interface\<close>

record checkpoint =
  cp_state :: bytes
  cp_prev_exit :: exit_mode
  cp_prev_holder :: string

definition zero_checkpoint :: checkpoint where
  "zero_checkpoint = \<lparr>cp_state = None, cp_prev_exit = ExitNone, cp_prev_holder = ''''\<rparr>"

record lease_record =
  lr_work :: string
  lr_holder :: string
  lr_token :: u64
  lr_expires :: instant

record sweep_options =
  so_retention :: duration
  so_include_expired :: bool

type_synonym ctx_err = "gerror option"

record 's backend =
  b_acquire :: "ctx_err \<Rightarrow> clock \<Rightarrow> 's \<Rightarrow> string \<Rightarrow> string \<Rightarrow> duration \<Rightarrow> 's \<times> (gerror + lease_record)"
  b_checkpoint :: "ctx_err \<Rightarrow> clock \<Rightarrow> 's \<Rightarrow> lease_record \<Rightarrow> bytes \<Rightarrow> duration \<Rightarrow> 's \<times> gerror option"
  b_renew :: "ctx_err \<Rightarrow> clock \<Rightarrow> 's \<Rightarrow> lease_record \<Rightarrow> duration \<Rightarrow> 's \<times> gerror option"
  b_release :: "ctx_err \<Rightarrow> clock \<Rightarrow> 's \<Rightarrow> lease_record \<Rightarrow> exit_mode \<Rightarrow> 's \<times> gerror option"
  b_read_checkpoint :: "ctx_err \<Rightarrow> clock \<Rightarrow> 's \<Rightarrow> lease_record \<Rightarrow> 's \<times> (gerror + checkpoint)"
  b_forget :: "ctx_err \<Rightarrow> clock \<Rightarrow> 's \<Rightarrow> lease_record \<Rightarrow> 's \<times> gerror option"
  b_sweep :: "ctx_err \<Rightarrow> clock \<Rightarrow> 's \<Rightarrow> sweep_options \<Rightarrow> 's \<times> int \<times> gerror option"

text \<open>
  The stored lease of a work ID. \<open>row_exit\<close> is the current holder's declared exit, with
  \<open>ExitNone\<close> for none declared.
\<close>

record row =
  row_holder :: string
  row_token :: u64
  row_expires :: instant
  row_checkpoint :: bytes
  row_exit :: exit_mode
  row_prev_exit :: exit_mode
  row_prev_holder :: string
  row_updated :: instant

definition held_by :: "row \<Rightarrow> lease_record \<Rightarrow> bool" where
  "held_by r rec \<longleftrightarrow> row_holder r = lr_holder rec \<and> row_token r = lr_token rec"

text \<open>
  What \<open>Acquire\<close> stores in place of the previous row: the checkpoint carries over, the
  declared exit (\<open>ExitExpired\<close> if none) and the holder become the previous ones, and the
  declared exit is cleared.
\<close>

definition successor_row :: "row option \<Rightarrow> string \<Rightarrow> u64 \<Rightarrow> instant \<Rightarrow> instant \<Rightarrow> row" where
  "successor_row prev h tok e u =
     \<lparr>row_holder = h, row_token = tok, row_expires = e,
      row_checkpoint = (case prev of None \<Rightarrow> None | Some r \<Rightarrow> row_checkpoint r),
      row_exit = ExitNone,
      row_prev_exit =
        (case prev of None \<Rightarrow> ExitNone
         | Some r \<Rightarrow> if row_exit r = ExitNone then ExitExpired else row_exit r),
      row_prev_holder = (case prev of None \<Rightarrow> '''' | Some r \<Rightarrow> row_holder r),
      row_updated = u\<rparr>"

lemma successor_row_sel [simp]:
  "row_holder (successor_row p h tok e u) = h"
  "row_token (successor_row p h tok e u) = tok"
  "row_expires (successor_row p h tok e u) = e"
  "row_exit (successor_row p h tok e u) = ExitNone"
  "row_updated (successor_row p h tok e u) = u"
  by (simp_all add: successor_row_def)

lemma successor_row_prev [simp]:
  "row_checkpoint (successor_row None h tok e u) = None"
  "row_prev_exit (successor_row None h tok e u) = ExitNone"
  "row_prev_holder (successor_row None h tok e u) = ''''"
  "row_checkpoint (successor_row (Some r) h tok e u) = row_checkpoint r"
  "row_prev_exit (successor_row (Some r) h tok e u) =
     (if row_exit r = ExitNone then ExitExpired else row_exit r)"
  "row_prev_holder (successor_row (Some r) h tok e u) = row_holder r"
  by (simp_all add: successor_row_def)

text \<open>
  \<open>t\<close> is \<open>d\<close> after a reading of the clock taken during the call, rounded up by less than
  a microsecond. No operation reads the clock more than three times.
\<close>

definition during :: "clock \<Rightarrow> duration \<Rightarrow> instant \<Rightarrow> bool" where
  "during clk d t \<longleftrightarrow> ns (clk 0) + d \<le> ns t \<and> ns t < ns (clk 2) + d + microsecond"

text \<open>Retention is compared to within two microseconds: PostgreSQL receives it as rounded text.\<close>

abbreviation sweep_slack :: duration where "sweep_slack \<equiv> 2000"

text \<open>A sweep may delete the row: not held, released as retired or (if asked) expired with
  no declared exit.\<close>

definition sweepable :: "instant \<Rightarrow> sweep_options \<Rightarrow> row \<Rightarrow> bool" where
  "sweepable now opts r \<longleftrightarrow>
     row_expires r < now \<and>
     (row_exit r = ExitRetired \<or> so_include_expired opts \<and> row_exit r = ExitNone)"

section \<open>The contract of a backend\<close>

text \<open>
  Every law holds for arbitrary clock readings. Only the bounds on the stored times need the
  readings of the call not to run backwards. \<open>token_limit\<close> keeps the token counters of the
  two backends (64-bit, wrapping, and PostgreSQL's \<open>BIGINT\<close> sequence) away from their ends.
\<close>

definition token_limit :: nat where
  "token_limit = 2 ^ 63 - 2"

locale lease_backend =
  fixes b :: "'s backend"
    and view :: "'s \<Rightarrow> string \<Rightarrow> row option"
    and inv :: "'s \<Rightarrow> bool"
    and issued :: "'s \<Rightarrow> nat"
  assumes finite_view: "inv s \<Longrightarrow> finite (dom (view s))"
    and token_issued: "inv s \<Longrightarrow> view s w = Some r \<Longrightarrow> unat (row_token r) \<le> issued s"
    and acquire_held:
      "inv s \<Longrightarrow> view s w = Some r \<Longrightarrow> clk 0 \<le> row_expires r \<Longrightarrow> issued s < token_limit \<Longrightarrow>
       \<exists>s'. b_acquire b None clk s w h ttl = (s', Inl ErrLeaseHeld) \<and> view s' = view s \<and> inv s' \<and>
         issued s \<le> issued s' \<and> issued s' \<le> issued s + 2"
    and acquire_free:
      "inv s \<Longrightarrow> (\<And>r. view s w = Some r \<Longrightarrow> row_expires r < clk 0) \<Longrightarrow> issued s < token_limit \<Longrightarrow>
       \<exists>s' tok e u. b_acquire b None clk s w h ttl =
           (s', Inr \<lparr>lr_work = w, lr_holder = h, lr_token = tok, lr_expires = e\<rparr>) \<and>
         view s' = (view s)(w \<mapsto> successor_row (view s w) h tok e u) \<and> inv s' \<and>
         issued s < unat tok \<and> issued s' = unat tok \<and> issued s' \<le> issued s + 2 \<and>
         (mono clk \<longrightarrow> during clk ttl e \<and> during clk 0 u)"
    and checkpoint_fenced:
      "inv s \<Longrightarrow> \<not> (\<exists>r. view s (lr_work rec) = Some r \<and> held_by r rec) \<Longrightarrow>
       b_checkpoint b None clk s rec st ttl = (s, Some ErrFenced)"
    and checkpoint_declared:
      "inv s \<Longrightarrow> view s (lr_work rec) = Some r \<Longrightarrow> held_by r rec \<Longrightarrow> row_exit r \<noteq> ExitNone \<Longrightarrow>
       b_checkpoint b None clk s rec st ttl = (s, Some ErrLeaseExpired)"
    and checkpoint_ok:
      "inv s \<Longrightarrow> view s (lr_work rec) = Some r \<Longrightarrow> held_by r rec \<Longrightarrow> row_exit r = ExitNone \<Longrightarrow>
       \<exists>s' e u. b_checkpoint b None clk s rec st ttl = (s', None) \<and>
         view s' = (view s)(lr_work rec \<mapsto>
           r\<lparr>row_checkpoint := normalize_state st, row_expires := e, row_updated := u\<rparr>) \<and>
         inv s' \<and> issued s' = issued s \<and> (mono clk \<longrightarrow> during clk ttl e \<and> during clk 0 u)"
    and renew_fenced:
      "inv s \<Longrightarrow> \<not> (\<exists>r. view s (lr_work rec) = Some r \<and> held_by r rec) \<Longrightarrow>
       b_renew b None clk s rec ttl = (s, Some ErrFenced)"
    and renew_expired:
      "inv s \<Longrightarrow> view s (lr_work rec) = Some r \<Longrightarrow> held_by r rec \<Longrightarrow> row_expires r \<le> clk 0 \<Longrightarrow>
       b_renew b None clk s rec ttl = (s, Some ErrLeaseExpired)"
    and renew_ok:
      "inv s \<Longrightarrow> view s (lr_work rec) = Some r \<Longrightarrow> held_by r rec \<Longrightarrow> clk 0 < row_expires r \<Longrightarrow>
       \<exists>s' e u. b_renew b None clk s rec ttl = (s', None) \<and>
         view s' = (view s)(lr_work rec \<mapsto> r\<lparr>row_expires := e, row_updated := u\<rparr>) \<and>
         inv s' \<and> issued s' = issued s \<and> (mono clk \<longrightarrow> during clk ttl e \<and> during clk 0 u)"
    and release_invalid:
      "\<not> declarable m \<Longrightarrow> b_release b c clk s rec m = (s, Some ErrInvalidExitMode)"
    and release_fenced:
      "inv s \<Longrightarrow> declarable m \<Longrightarrow> \<not> (\<exists>r. view s (lr_work rec) = Some r \<and> held_by r rec) \<Longrightarrow>
       b_release b None clk s rec m = (s, Some ErrFenced)"
    and release_expired:
      "inv s \<Longrightarrow> declarable m \<Longrightarrow> view s (lr_work rec) = Some r \<Longrightarrow> held_by r rec \<Longrightarrow>
       row_expires r \<le> clk 0 \<Longrightarrow> b_release b None clk s rec m = (s, Some ErrLeaseExpired)"
    and release_ok:
      "inv s \<Longrightarrow> declarable m \<Longrightarrow> view s (lr_work rec) = Some r \<Longrightarrow> held_by r rec \<Longrightarrow>
       clk 0 < row_expires r \<Longrightarrow>
       \<exists>s' e u. b_release b None clk s rec m = (s', None) \<and>
         view s' = (view s)(lr_work rec \<mapsto>
           r\<lparr>row_exit := m, row_expires := e, row_updated := u\<rparr>) \<and>
         inv s' \<and> issued s' = issued s \<and> (mono clk \<longrightarrow> e < clk 2 \<and> during clk 0 u)"
    and read_fenced:
      "inv s \<Longrightarrow> \<not> (\<exists>r. view s (lr_work rec) = Some r \<and> row_token r = lr_token rec) \<Longrightarrow>
       b_read_checkpoint b None clk s rec = (s, Inl ErrFenced)"
    and read_ok:
      "inv s \<Longrightarrow> view s (lr_work rec) = Some r \<Longrightarrow> row_token r = lr_token rec \<Longrightarrow>
       b_read_checkpoint b None clk s rec =
         (s, Inr \<lparr>cp_state = row_checkpoint r, cp_prev_exit = row_prev_exit r,
                  cp_prev_holder = row_prev_holder r\<rparr>)"
    and forget_fenced:
      "inv s \<Longrightarrow> \<not> (\<exists>r. view s (lr_work rec) = Some r \<and> held_by r rec) \<Longrightarrow>
       b_forget b None clk s rec = (s, Some ErrFenced)"
    and forget_ok:
      "inv s \<Longrightarrow> view s (lr_work rec) = Some r \<Longrightarrow> held_by r rec \<Longrightarrow>
       \<exists>s'. b_forget b None clk s rec = (s', None) \<and> view s' = (view s)(lr_work rec := None) \<and>
         inv s' \<and> issued s' = issued s"
    and sweep_ok:
      "inv s \<Longrightarrow> is_int64 (so_retention opts) \<Longrightarrow>
       \<exists>s' n. b_sweep b None clk s opts = (s', n, None) \<and> inv s' \<and> issued s' = issued s \<and>
         n = int (card (dom (view s) - dom (view s'))) \<and>
         (\<forall>w. view s' w = view s w \<or> view s' w = None) \<and>
         (\<forall>w r. view s w = Some r \<longrightarrow> view s' w = None \<longrightarrow>
            sweepable (clk 0) opts r \<and>
            so_retention opts - sweep_slack < ns (clk 0) - ns (row_updated r)) \<and>
         (\<forall>w r. view s w = Some r \<longrightarrow> sweepable (clk 0) opts r \<longrightarrow>
            so_retention opts + sweep_slack < ns (clk 0) - ns (row_updated r) \<longrightarrow>
            so_retention opts < 2 ^ 63 - 1 \<longrightarrow> view s' w = None)"
    and acquire_ctx:
      "\<exists>e'. b_acquire b (Some e) clk s w h ttl = (s, Inl e') \<and> (ctx_error e \<longrightarrow> errors_is e' e)"
    and checkpoint_ctx:
      "\<exists>e'. b_checkpoint b (Some e) clk s rec st ttl = (s, Some e') \<and> (ctx_error e \<longrightarrow> errors_is e' e)"
    and renew_ctx:
      "\<exists>e'. b_renew b (Some e) clk s rec ttl = (s, Some e') \<and> (ctx_error e \<longrightarrow> errors_is e' e)"
    and release_ctx:
      "declarable m \<Longrightarrow>
       \<exists>e'. b_release b (Some e) clk s rec m = (s, Some e') \<and> (ctx_error e \<longrightarrow> errors_is e' e)"
    and read_ctx:
      "\<exists>e'. b_read_checkpoint b (Some e) clk s rec = (s, Inl e') \<and> (ctx_error e \<longrightarrow> errors_is e' e)"
    and forget_ctx:
      "\<exists>e'. b_forget b (Some e) clk s rec = (s, Some e') \<and> (ctx_error e \<longrightarrow> errors_is e' e)"
    and sweep_ctx:
      "\<exists>e'. b_sweep b (Some e) clk s opts = (s, 0, Some e') \<and> (ctx_error e \<longrightarrow> errors_is e' e)"

section \<open>Runs of calls by any number of clients\<close>

datatype bcall =
    DoAcquire string string duration
  | DoCheckpoint lease_record bytes duration
  | DoRenew lease_record duration
  | DoRelease lease_record exit_mode
  | DoReadCheckpoint lease_record
  | DoForget lease_record
  | DoSweep sweep_options

fun b_call :: "'s backend \<Rightarrow> ctx_err \<Rightarrow> clock \<Rightarrow> bcall \<Rightarrow> 's \<Rightarrow> 's" where
  "b_call b c clk (DoAcquire w h ttl) s = fst (b_acquire b c clk s w h ttl)"
| "b_call b c clk (DoCheckpoint rec st ttl) s = fst (b_checkpoint b c clk s rec st ttl)"
| "b_call b c clk (DoRenew rec ttl) s = fst (b_renew b c clk s rec ttl)"
| "b_call b c clk (DoRelease rec m) s = fst (b_release b c clk s rec m)"
| "b_call b c clk (DoReadCheckpoint rec) s = fst (b_read_checkpoint b c clk s rec)"
| "b_call b c clk (DoForget rec) s = fst (b_forget b c clk s rec)"
| "b_call b c clk (DoSweep opts) s = fst (b_sweep b c clk s opts)"

text \<open>An interleaving: the calls of all clients in the order the backend serialises them.\<close>

type_synonym schedule = "(ctx_err \<times> clock \<times> bcall) list"

fun b_run :: "'s backend \<Rightarrow> schedule \<Rightarrow> 's \<Rightarrow> 's" where
  "b_run b [] s = s"
| "b_run b ((c, clk, call) # cs) s = b_run b cs (b_call b c clk call s)"

lemma b_run_append: "b_run b (xs @ ys) s = b_run b ys (b_run b xs s)"
  by (induction b xs s rule: b_run.induct) simp_all

text \<open>A call is foreign to a record when it is made with another record or none.\<close>

fun foreign :: "lease_record \<Rightarrow> bcall \<Rightarrow> bool" where
  "foreign rec (DoCheckpoint r st ttl) \<longleftrightarrow> (lr_holder r, lr_token r) \<noteq> (lr_holder rec, lr_token rec)"
| "foreign rec (DoRenew r ttl) \<longleftrightarrow> (lr_holder r, lr_token r) \<noteq> (lr_holder rec, lr_token rec)"
| "foreign rec (DoRelease r m) \<longleftrightarrow> (lr_holder r, lr_token r) \<noteq> (lr_holder rec, lr_token rec)"
| "foreign rec (DoForget r) \<longleftrightarrow> (lr_holder r, lr_token r) \<noteq> (lr_holder rec, lr_token rec)"
| "foreign rec call \<longleftrightarrow> True"

end
