(* ===== verification/Backend_Laws.thy ===== *)
theory Backend_Laws
  imports Backend_Spec
begin

text \<open>
  What every backend that meets the contract guarantees to its clients.

  \<open>row_step\<close> is the abstract specification: the life cycle of the row of one work ID, one
  rule per kind of call that may change it. Every call of a conforming backend is a step of it
  on every row (\<open>call_row_step\<close>). Fencing, exclusion, the finality of a declared exit and
  the handoff to a successor follow from the rules by inversion, and extend to any interleaving
  of calls by induction on the schedule.
\<close>

section \<open>The life cycle of a row\<close>

text \<open>
  \<open>row_step clk call w n ro ro'\<close>: a call made at \<open>clk\<close>, when \<open>n\<close> is the highest token
  issued, may change the row of \<open>w\<close> from \<open>ro\<close> to \<open>ro'\<close>.
\<close>

inductive row_step :: "clock \<Rightarrow> bcall \<Rightarrow> string \<Rightarrow> nat \<Rightarrow> row option \<Rightarrow> row option \<Rightarrow> bool" where
  kept: "row_step clk call w n ro ro"
| taken: "(\<And>r. ro = Some r \<Longrightarrow> row_expires r < clk 0) \<Longrightarrow> n < unat tok \<Longrightarrow>
     mono clk \<longrightarrow> during clk ttl e \<and> during clk 0 u \<Longrightarrow>
     row_step clk (DoAcquire w h ttl) w n ro (Some (successor_row ro h tok e u))"
| written: "held_by r rec \<Longrightarrow> lr_work rec = w \<Longrightarrow> row_exit r = ExitNone \<Longrightarrow>
     mono clk \<longrightarrow> during clk ttl e \<and> during clk 0 u \<Longrightarrow>
     row_step clk (DoCheckpoint rec st ttl) w n (Some r)
       (Some (r\<lparr>row_checkpoint := normalize_state st, row_expires := e, row_updated := u\<rparr>))"
| renewed: "held_by r rec \<Longrightarrow> lr_work rec = w \<Longrightarrow> clk 0 < row_expires r \<Longrightarrow>
     mono clk \<longrightarrow> during clk ttl e \<and> during clk 0 u \<Longrightarrow>
     row_step clk (DoRenew rec ttl) w n (Some r) (Some (r\<lparr>row_expires := e, row_updated := u\<rparr>))"
| declared: "held_by r rec \<Longrightarrow> lr_work rec = w \<Longrightarrow> declarable m \<Longrightarrow> clk 0 < row_expires r \<Longrightarrow>
     mono clk \<longrightarrow> e < clk 2 \<and> during clk 0 u \<Longrightarrow>
     row_step clk (DoRelease rec m) w n (Some r)
       (Some (r\<lparr>row_exit := m, row_expires := e, row_updated := u\<rparr>))"
| forgotten: "held_by r rec \<Longrightarrow> lr_work rec = w \<Longrightarrow> row_step clk (DoForget rec) w n (Some r) None"
| swept: "sweepable (clk 0) opts r \<Longrightarrow>
     so_retention opts - sweep_slack < ns (clk 0) - ns (row_updated r) \<Longrightarrow>
     row_step clk (DoSweep opts) w n (Some r) None"

inductive_simps row_step_acquire: "row_step clk (DoAcquire v h ttl) w n ro ro'"
inductive_simps row_step_checkpoint: "row_step clk (DoCheckpoint rec st ttl) w n ro ro'"
inductive_simps row_step_renew: "row_step clk (DoRenew rec ttl) w n ro ro'"
inductive_simps row_step_release: "row_step clk (DoRelease rec m) w n ro ro'"
inductive_simps row_step_read: "row_step clk (DoReadCheckpoint rec) w n ro ro'"
inductive_simps row_step_forget: "row_step clk (DoForget rec) w n ro ro'"
inductive_simps row_step_sweep: "row_step clk (DoSweep opts) w n ro ro'"
inductive_cases row_step_noneE: "row_step clk call w n None ro'"
inductive_cases row_step_someE: "row_step clk call w n (Some r) ro'"

lemmas row_step_simps =
  row_step_acquire row_step_checkpoint row_step_renew row_step_release row_step_read
  row_step_forget row_step_sweep

text \<open>A new row comes from \<open>Acquire\<close> with a fresh token; otherwise the token stays.\<close>

lemma row_step_token:
  assumes "row_step clk call w n ro (Some r')"
  obtains r where "ro = Some r" "row_token r' = row_token r" "row_holder r' = row_holder r"
    "row_prev_exit r' = row_prev_exit r" "row_prev_holder r' = row_prev_holder r"
  | "n < unat (row_token r')"
  using assms by cases auto

text \<open>
  A token that was issued and is not in the row of its work ID is superseded. It stays so.
\<close>

definition superseded :: "row option \<Rightarrow> nat \<Rightarrow> lease_record \<Rightarrow> bool" where
  "superseded ro n rec \<longleftrightarrow>
     unat (lr_token rec) \<le> n \<and> (\<forall>r. ro = Some r \<longrightarrow> row_token r \<noteq> lr_token rec)"

lemma superseded_step:
  assumes "superseded ro n rec" and "row_step clk call w n ro ro'" and "n \<le> n'"
  shows "superseded ro' n' rec"
proof (cases ro')
  case (Some r')
  with assms(2) have "row_step clk call w n ro (Some r')" by simp
  then show ?thesis
    using assms(1,3) Some by (cases rule: row_step_token) (auto simp: superseded_def)
qed (use assms in \<open>auto simp: superseded_def\<close>)

text \<open>While a lease has not expired, no call made with another record touches its row.\<close>

lemma foreign_step:
  assumes "row_step clk call w n (Some r) ro'" and "held_by r rec" and "foreign rec call"
    and "clk 0 \<le> row_expires r"
  shows "ro' = Some r"
  using assms by cases (auto simp: held_by_def sweepable_def)

text \<open>Once an exit is declared and its time has passed, the row changes only by losing its token.\<close>

lemma declared_step:
  assumes "row_step clk call w n (Some r) ro'" and "row_exit r \<noteq> ExitNone"
    and "row_expires r < clk 0" and "unat (row_token r) \<le> n" and "n \<le> n'"
    and "row_token r = lr_token rec"
  shows "ro' = Some r \<or> superseded ro' n' rec"
  using assms by cases (auto simp: superseded_def)

text \<open>The same lease: what \<open>Acquire\<close> fixed in the row and no later call of the lease changes.\<close>

definition same_lease :: "row \<Rightarrow> row \<Rightarrow> bool" where
  "same_lease r r' \<longleftrightarrow> row_token r' = row_token r \<and> row_holder r' = row_holder r \<and>
     row_prev_exit r' = row_prev_exit r \<and> row_prev_holder r' = row_prev_holder r"

lemma same_lease_refl [simp]: "same_lease r r"
  by (simp add: same_lease_def)

lemma same_lease_trans: "same_lease r r' \<Longrightarrow> same_lease r' r'' \<Longrightarrow> same_lease r r''"
  by (simp add: same_lease_def)

lemma lease_step:
  assumes "row_step clk call w n (Some r) ro'" and "unat (row_token r) \<le> n" and "n \<le> n'"
    and "row_token r = lr_token rec"
  shows "(\<exists>r'. ro' = Some r' \<and> same_lease r r') \<or> superseded ro' n' rec"
  using assms by cases (auto simp: superseded_def same_lease_def)

text \<open>What the next holder reads: the state left behind and how the previous holder left.\<close>

definition inherited :: "row option \<Rightarrow> checkpoint" where
  "inherited ro =
     (case ro of
        None \<Rightarrow> zero_checkpoint
      | Some r \<Rightarrow> \<lparr>cp_state = row_checkpoint r,
                   cp_prev_exit = (if row_exit r = ExitNone then ExitExpired else row_exit r),
                   cp_prev_holder = row_holder r\<rparr>)"

section \<open>Timed schedules\<close>

text \<open>The calls of a schedule happen one after the other on the backend's clock.\<close>

fun timed :: "instant \<Rightarrow> schedule \<Rightarrow> bool" where
  "timed t [] \<longleftrightarrow> True"
| "timed t ((c, clk, call) # cs) \<longleftrightarrow> mono clk \<and> t \<le> clk 0 \<and> timed (clk 2) cs"

lemma timed_mono: "timed t cs \<Longrightarrow> t' \<le> t \<Longrightarrow> timed t' cs"
  by (induction t cs rule: timed.induct) auto

text \<open>Sweep options hold a Go duration, so their retention is a signed 64-bit value.\<close>

fun call_ok :: "bcall \<Rightarrow> bool" where
  "call_ok (DoSweep opts) \<longleftrightarrow> is_int64 (so_retention opts)"
| "call_ok _ \<longleftrightarrow> True"

definition schedule_ok :: "schedule \<Rightarrow> bool" where
  "schedule_ok cs \<longleftrightarrow> list_all (\<lambda>(c, clk, call). call_ok call) cs"

lemma schedule_ok_simps [simp]:
  "schedule_ok []"
  "schedule_ok ((c, clk, call) # cs) \<longleftrightarrow> call_ok call \<and> schedule_ok cs"
  by (simp_all add: schedule_ok_def)

section \<open>Consequences of the contract\<close>

context lease_backend
begin

lemma acquire_total:
  assumes "inv s" and "issued s < token_limit"
  shows "(\<exists>r s'. view s w = Some r \<and> clk 0 \<le> row_expires r \<and>
       b_acquire b None clk s w h ttl = (s', Inl ErrLeaseHeld) \<and> view s' = view s \<and> inv s' \<and>
       issued s \<le> issued s' \<and> issued s' \<le> issued s + 2) \<or>
    (\<exists>s' tok e u. (\<forall>r. view s w = Some r \<longrightarrow> row_expires r < clk 0) \<and>
       b_acquire b None clk s w h ttl =
         (s', Inr \<lparr>lr_work = w, lr_holder = h, lr_token = tok, lr_expires = e\<rparr>) \<and>
       view s' = (view s)(w \<mapsto> successor_row (view s w) h tok e u) \<and> inv s' \<and>
       issued s < unat tok \<and> issued s' = unat tok \<and> issued s' \<le> issued s + 2 \<and>
       (mono clk \<longrightarrow> during clk ttl e \<and> during clk 0 u))"
proof (cases "\<exists>r. view s w = Some r \<and> clk 0 \<le> row_expires r")
  case True
  then show ?thesis using acquire_held [OF assms(1) _ _ assms(2)] by blast
next
  case False
  then have free: "\<forall>r. view s w = Some r \<longrightarrow> row_expires r < clk 0"
    by (auto simp: not_le)
  then show ?thesis
    using acquire_free [of s w clk h ttl] assms by blast
qed

lemma checkpoint_total:
  assumes "inv s"
  shows "b_checkpoint b None clk s rec st ttl = (s, Some ErrFenced) \<or>
    b_checkpoint b None clk s rec st ttl = (s, Some ErrLeaseExpired) \<or>
    (\<exists>r s' e u. view s (lr_work rec) = Some r \<and> held_by r rec \<and> row_exit r = ExitNone \<and>
       b_checkpoint b None clk s rec st ttl = (s', None) \<and>
       view s' = (view s)(lr_work rec \<mapsto>
         r\<lparr>row_checkpoint := normalize_state st, row_expires := e, row_updated := u\<rparr>) \<and>
       inv s' \<and> issued s' = issued s \<and> (mono clk \<longrightarrow> during clk ttl e \<and> during clk 0 u))"
  using checkpoint_fenced [OF assms] checkpoint_declared [OF assms] checkpoint_ok [OF assms]
  by meson

lemma renew_total:
  assumes "inv s"
  shows "b_renew b None clk s rec ttl = (s, Some ErrFenced) \<or>
    b_renew b None clk s rec ttl = (s, Some ErrLeaseExpired) \<or>
    (\<exists>r s' e u. view s (lr_work rec) = Some r \<and> held_by r rec \<and> clk 0 < row_expires r \<and>
       b_renew b None clk s rec ttl = (s', None) \<and>
       view s' = (view s)(lr_work rec \<mapsto> r\<lparr>row_expires := e, row_updated := u\<rparr>) \<and>
       inv s' \<and> issued s' = issued s \<and> (mono clk \<longrightarrow> during clk ttl e \<and> during clk 0 u))"
  using renew_fenced [OF assms] renew_expired [OF assms] renew_ok [OF assms]
  by (meson not_le)

lemma release_total:
  assumes "inv s"
  shows "b_release b None clk s rec m = (s, Some ErrInvalidExitMode) \<or>
    b_release b None clk s rec m = (s, Some ErrFenced) \<or>
    b_release b None clk s rec m = (s, Some ErrLeaseExpired) \<or>
    (\<exists>r s' e u. view s (lr_work rec) = Some r \<and> held_by r rec \<and> declarable m \<and>
       clk 0 < row_expires r \<and> b_release b None clk s rec m = (s', None) \<and>
       view s' = (view s)(lr_work rec \<mapsto> r\<lparr>row_exit := m, row_expires := e, row_updated := u\<rparr>) \<and>
       inv s' \<and> issued s' = issued s \<and> (mono clk \<longrightarrow> e < clk 2 \<and> during clk 0 u))"
proof (cases "declarable m")
  case True
  show ?thesis
    using release_fenced [OF assms True] release_expired [OF assms True]
      release_ok [OF assms True] True
    by (meson not_le)
qed (simp add: release_invalid)

lemma read_total:
  assumes "inv s"
  shows "b_read_checkpoint b None clk s rec = (s, Inl ErrFenced) \<or>
    (\<exists>r. view s (lr_work rec) = Some r \<and> row_token r = lr_token rec \<and>
       b_read_checkpoint b None clk s rec =
         (s, Inr \<lparr>cp_state = row_checkpoint r, cp_prev_exit = row_prev_exit r,
                  cp_prev_holder = row_prev_holder r\<rparr>))"
  using read_fenced [OF assms] read_ok [OF assms] by blast

lemma forget_total:
  assumes "inv s"
  shows "b_forget b None clk s rec = (s, Some ErrFenced) \<or>
    (\<exists>r s'. view s (lr_work rec) = Some r \<and> held_by r rec \<and>
       b_forget b None clk s rec = (s', None) \<and> view s' = (view s)(lr_work rec := None) \<and>
       inv s' \<and> issued s' = issued s)"
  using forget_fenced [OF assms] forget_ok [OF assms] by blast

text \<open>A call whose context is done changes nothing.\<close>

lemma call_ctx_done: "b_call b (Some e) clk call s = s"
proof (cases call)
  case (DoRelease rec m)
  then show ?thesis
    using release_ctx [of m e clk s rec] release_invalid [of m "Some e" clk s rec]
    by (cases "declarable m") auto
qed (use acquire_ctx [of e clk s] checkpoint_ctx [of e clk s] renew_ctx [of e clk s]
       read_ctx [of e clk s] forget_ctx [of e clk s] sweep_ctx [of e clk s] in
     \<open>metis b_call.simps fst_conv\<close>)+

text \<open>Every call is a step of the life cycle of every row, and keeps the invariant.\<close>

lemma call_step_live:
  assumes "inv s" and "issued s < token_limit" and "call_ok call"
  shows "inv (b_call b None clk call s) \<and> issued s \<le> issued (b_call b None clk call s) \<and>
    issued (b_call b None clk call s) \<le> issued s + 2 \<and>
    row_step clk call w (issued s) (view s w) (view (b_call b None clk call s) w)"
proof (cases call)
  case (DoAcquire v h ttl)
  then show ?thesis
    using acquire_total [OF assms(1,2), of v clk h ttl] assms(1)
    by (cases "w = v") (auto intro: row_step.kept intro!: row_step.taken)
next
  case (DoCheckpoint rec st ttl)
  then show ?thesis
    using checkpoint_total [OF assms(1), of clk rec st ttl] assms(1)
    by (auto intro: row_step.intros)
next
  case (DoRenew rec ttl)
  then show ?thesis
    using renew_total [OF assms(1), of clk rec ttl] assms(1) by (auto intro: row_step.intros)
next
  case (DoRelease rec m)
  then show ?thesis
    using release_total [OF assms(1), of clk rec m] assms(1) by (auto intro: row_step.intros)
next
  case (DoReadCheckpoint rec)
  then show ?thesis
    using read_total [OF assms(1), of clk rec] assms(1) by (auto intro: row_step.kept)
next
  case (DoForget rec)
  then show ?thesis
    using forget_total [OF assms(1), of clk rec] assms(1) by (auto intro: row_step.intros)
next
  case (DoSweep opts)
  with assms(3) have ret: "is_int64 (so_retention opts)" by simp
  obtain s' n where sw: "b_sweep b None clk s opts = (s', n, None)" "inv s'" "issued s' = issued s"
    "view s' w = view s w \<or> view s' w = None"
    "\<And>r. view s w = Some r \<Longrightarrow> view s' w = None \<Longrightarrow> sweepable (clk 0) opts r \<and>
       so_retention opts - sweep_slack < ns (clk 0) - ns (row_updated r)"
    using sweep_ok [OF assms(1) ret, of clk] by blast
  then show ?thesis
    using DoSweep by (cases "view s w") (auto intro: row_step.kept row_step.swept)
qed

lemma call_step:
  assumes "inv s" and "issued s < token_limit" and "call_ok call"
  shows "inv (b_call b c clk call s)" and "issued s \<le> issued (b_call b c clk call s)"
    and "issued (b_call b c clk call s) \<le> issued s + 2"
    and "row_step clk call w (issued s) (view s w) (view (b_call b c clk call s) w)"
  using assms call_step_live [OF assms] row_step.kept
  by (cases c; simp add: call_ctx_done)+

text \<open>Each call issues at most two tokens, so a schedule has room when its length does.\<close>

definition room :: "'s \<Rightarrow> schedule \<Rightarrow> bool" where
  "room s cs \<longleftrightarrow> issued s + 2 * length cs < token_limit"

lemma room_Cons:
  assumes "inv s" and "room s ((c, clk, call) # cs)" and "schedule_ok ((c, clk, call) # cs)"
  shows "issued s < token_limit" and "call_ok call" and "schedule_ok cs"
    and "inv (b_call b c clk call s)" and "room (b_call b c clk call s) cs"
  using assms call_step(1,3) [of s call c clk] by (auto simp: room_def)

lemma run_inv:
  "inv s \<Longrightarrow> room s cs \<Longrightarrow> schedule_ok cs \<Longrightarrow>
   inv (b_run b cs s) \<and> issued s \<le> issued (b_run b cs s) \<and>
   issued (b_run b cs s) \<le> issued s + 2 * length cs"
proof (induction cs arbitrary: s)
  case (Cons e cs)
  obtain c clk call where e: "e = (c, clk, call)" by (cases e)
  note st = room_Cons [OF Cons.prems(1) Cons.prems(2,3) [unfolded e]]
  show ?case
    using Cons.IH [OF st(4,5,3)] call_step(2,3) [OF Cons.prems(1) st(1,2), of c clk] e by auto
qed simp

lemma run_superseded:
  "inv s \<Longrightarrow> room s cs \<Longrightarrow> schedule_ok cs \<Longrightarrow>
   superseded (view s (lr_work rec)) (issued s) rec \<Longrightarrow>
   superseded (view (b_run b cs s) (lr_work rec)) (issued (b_run b cs s)) rec"
proof (induction cs arbitrary: s)
  case (Cons e cs)
  obtain c clk call where e: "e = (c, clk, call)" by (cases e)
  note st = room_Cons [OF Cons.prems(1) Cons.prems(2,3) [unfolded e]]
  have "superseded (view (b_call b c clk call s) (lr_work rec))
      (issued (b_call b c clk call s)) rec"
    using superseded_step Cons.prems(4) call_step(2,4) [OF Cons.prems(1) st(1,2), where c = c and clk = clk] by blast
  then show ?case using Cons.IH [OF st(4,5,3)] e by simp
qed simp

text \<open>A superseded record is fenced by every operation, and nothing is written.\<close>

lemma superseded_not_held: "superseded (view s w) n rec \<Longrightarrow> \<not> (\<exists>r. view s w = Some r \<and> held_by r rec)"
  by (auto simp: superseded_def held_by_def)

lemma superseded_fenced:
  assumes "inv s" and "superseded (view s (lr_work rec)) (issued s) rec"
  shows "b_checkpoint b None clk s rec st ttl = (s, Some ErrFenced)"
    and "b_renew b None clk s rec ttl = (s, Some ErrFenced)"
    and "declarable m \<Longrightarrow> b_release b None clk s rec m = (s, Some ErrFenced)"
    and "b_forget b None clk s rec = (s, Some ErrFenced)"
    and "b_read_checkpoint b None clk s rec = (s, Inl ErrFenced)"
proof -
  note stale = superseded_not_held [OF assms(2)]
  show "b_checkpoint b None clk s rec st ttl = (s, Some ErrFenced)"
    by (rule checkpoint_fenced [OF assms(1) stale])
  show "b_renew b None clk s rec ttl = (s, Some ErrFenced)"
    by (rule renew_fenced [OF assms(1) stale])
  show "declarable m \<Longrightarrow> b_release b None clk s rec m = (s, Some ErrFenced)"
    by (rule release_fenced [OF assms(1) _ stale])
  show "b_forget b None clk s rec = (s, Some ErrFenced)"
    by (rule forget_fenced [OF assms(1) stale])
  show "b_read_checkpoint b None clk s rec = (s, Inl ErrFenced)"
    using assms by (intro read_fenced) (auto simp: superseded_def)
qed

text \<open>A successful \<open>Acquire\<close> supersedes every other record issued for the work ID.\<close>

lemma acquire_supersedes:
  assumes "inv s" and "issued s < token_limit"
    and "b_acquire b c clk s w h ttl = (s', Inr rec')"
    and "lr_work rec = w" and "unat (lr_token rec) \<le> issued s"
  shows "superseded (view s' w) (issued s') rec" and "inv s'" and "issued s < unat (lr_token rec')"
    and "issued s' = unat (lr_token rec')" and "issued s' \<le> issued s + 2"
    and "lr_work rec' = w" and "lr_holder rec' = h"
proof -
  have "c = None"
  proof (cases c)
    case (Some e)
    then show ?thesis using assms(3) acquire_ctx [of e clk s w h ttl] by auto
  qed simp
  with assms acquire_total [OF assms(1,2), of w clk h ttl]
  show "superseded (view s' w) (issued s') rec" and "inv s'"
    and "issued s < unat (lr_token rec')" and "issued s' = unat (lr_token rec')"
    and "issued s' \<le> issued s + 2" and "lr_work rec' = w" and "lr_holder rec' = h"
    by (auto simp: superseded_def)
qed

text \<open>
  Fencing. \<open>rec\<close> was issued before a state \<open>s1\<close>; another \<open>Acquire\<close> of its work ID
  succeeds at \<open>s1\<close>; after any further calls by anyone, \<open>rec\<close> is fenced everywhere.
\<close>

lemma zombie_fenced:
  assumes "inv s1" and "issued s1 < token_limit" and "unat (lr_token rec) \<le> issued s1"
    and "b_acquire b c clk s1 (lr_work rec) h ttl = (s2, Inr rec')"
    and "room s2 cs" and "schedule_ok cs" and "declarable m"
  defines "s \<equiv> b_run b cs s2"
  shows "b_checkpoint b None clk' s rec st d = (s, Some ErrFenced) \<and>
    b_renew b None clk' s rec d = (s, Some ErrFenced) \<and>
    b_release b None clk' s rec m = (s, Some ErrFenced) \<and>
    b_forget b None clk' s rec = (s, Some ErrFenced) \<and>
    b_read_checkpoint b None clk' s rec = (s, Inl ErrFenced)"
proof -
  note acq = acquire_supersedes [OF assms(1,2,4) refl assms(3)]
  have sup: "superseded (view s (lr_work rec)) (issued s) rec"
    unfolding s_def by (rule run_superseded [OF acq(2) assms(5,6) acq(1)])
  have "inv s" unfolding s_def using run_inv [OF acq(2) assms(5,6)] by blast
  then show ?thesis using superseded_fenced [OF _ sup] assms(7) by blast
qed

text \<open>Exclusion: before the expiry, calls made without the record leave the lease as it is.\<close>

lemma run_foreign:
  assumes "inv s" and "room s cs" and "schedule_ok cs"
    and "view s w = Some r" and "held_by r rec"
    and "\<And>c clk call. (c, clk, call) \<in> set cs \<Longrightarrow> foreign rec call \<and> clk 0 \<le> row_expires r"
  shows "view (b_run b cs s) w = Some r"
  using assms
proof (induction cs arbitrary: s)
  case (Cons e cs)
  obtain c clk call where e: "e = (c, clk, call)" by (cases e)
  note st = room_Cons [OF Cons.prems(1) Cons.prems(2,3) [unfolded e]]
  have "row_step clk call w (issued s) (Some r) (view (b_call b c clk call s) w)"
    using call_step(4) [OF Cons.prems(1) st(1,2), where c = c and clk = clk and w = w]
      Cons.prems(4) by simp
  then have "view (b_call b c clk call s) w = Some r"
    by (rule foreign_step) (use Cons.prems(5,6) e in auto)
  then show ?case using Cons.IH [OF st(4,5,3) _ Cons.prems(5)] Cons.prems(6) e by auto
qed simp

lemma exclusive:
  assumes "inv s" and "room s cs" and "schedule_ok cs"
    and "view s w = Some r" and "held_by r rec"
    and "\<And>c clk call. (c, clk, call) \<in> set cs \<Longrightarrow> foreign rec call \<and> clk 0 \<le> row_expires r"
    and "clk' 0 \<le> row_expires r"
  shows "view (b_run b cs s) w = Some r \<and>
    snd (b_acquire b None clk' (b_run b cs s) w h ttl) = Inl ErrLeaseHeld"
proof -
  have r: "view (b_run b cs s) w = Some r"
    by (rule run_foreign [OF assms(1-5)]) (use assms(6) in blast)
  have "inv (b_run b cs s)" and "issued (b_run b cs s) < token_limit"
    using run_inv [OF assms(1-3)] assms(2) by (auto simp: room_def)
  then show ?thesis using acquire_held [of _ w r clk' h ttl] r assms(7) by fastforce
qed

text \<open>A declared exit is final: later calls can only replace or remove the whole lease.\<close>

lemma run_declared:
  assumes "inv s" and "room s cs" and "schedule_ok cs" and "timed t cs"
    and "view s (lr_work rec) = Some r" and "row_token r = lr_token rec"
    and "row_exit r \<noteq> ExitNone" and "row_expires r < t"
  shows "view (b_run b cs s) (lr_work rec) = Some r \<or>
    superseded (view (b_run b cs s) (lr_work rec)) (issued (b_run b cs s)) rec"
  using assms
proof (induction cs arbitrary: s t)
  case (Cons e cs)
  obtain c clk call where e: "e = (c, clk, call)" by (cases e)
  note st = room_Cons [OF Cons.prems(1) Cons.prems(2,3) [unfolded e]]
  let ?s = "b_call b c clk call s"
  have tm: "timed (clk 2) cs" "row_expires r < clk 0" "clk 0 \<le> clk 2"
    using Cons.prems(4,8) e by (auto dest: monoD [of clk 0 2])
  have "view ?s (lr_work rec) = Some r \<or> superseded (view ?s (lr_work rec)) (issued ?s) rec"
    by (rule declared_step [OF call_step(4) [OF Cons.prems(1) st(1,2), where c = c and clk = clk and
          w = "lr_work rec", unfolded Cons.prems(5)]])
       (use call_step(2) [OF Cons.prems(1) st(1,2), where c = c and clk = clk] Cons.prems(5-7) tm(2)
          token_issued [OF Cons.prems(1,5)] in auto)
  then show ?case
  proof
    assume "view ?s (lr_work rec) = Some r"
    then show ?thesis
      using Cons.IH [OF st(4,5,3) tm(1) _ Cons.prems(6,7)] tm(2,3) e by auto
  next
    assume "superseded (view ?s (lr_work rec)) (issued ?s) rec"
    then show ?thesis using run_superseded [OF st(4,5,3)] e by simp
  qed
qed simp

text \<open>The previous exit and holder are fixed for the life of a lease.\<close>

lemma run_lease:
  assumes "inv s" and "room s cs" and "schedule_ok cs"
    and "view s (lr_work rec) = Some r" and "row_token r = lr_token rec"
  shows "(\<exists>r'. view (b_run b cs s) (lr_work rec) = Some r' \<and> same_lease r r') \<or>
    superseded (view (b_run b cs s) (lr_work rec)) (issued (b_run b cs s)) rec"
  using assms
proof (induction cs arbitrary: s r)
  case (Cons e cs)
  obtain c clk call where e: "e = (c, clk, call)" by (cases e)
  note st = room_Cons [OF Cons.prems(1) Cons.prems(2,3) [unfolded e]]
  let ?s = "b_call b c clk call s"
  have "(\<exists>r'. view ?s (lr_work rec) = Some r' \<and> same_lease r r') \<or>
      superseded (view ?s (lr_work rec)) (issued ?s) rec"
    by (rule lease_step [OF call_step(4) [OF Cons.prems(1) st(1,2), where c = c and clk = clk and
          w = "lr_work rec", unfolded Cons.prems(4)]])
       (use call_step(2) [OF Cons.prems(1) st(1,2), where c = c and clk = clk] Cons.prems(4,5)
          token_issued [OF Cons.prems(1,4)] in auto)
  then show ?case
  proof
    assume "\<exists>r'. view ?s (lr_work rec) = Some r' \<and> same_lease r r'"
    then obtain r' where r': "view ?s (lr_work rec) = Some r'" "same_lease r r'" by blast
    with Cons.prems(5) have "row_token r' = lr_token rec" by (simp add: same_lease_def)
    then show ?thesis
      using Cons.IH [OF st(4,5,3) r'(1)] r'(2) e by (auto intro: same_lease_trans)
  next
    assume "superseded (view ?s (lr_work rec)) (issued ?s) rec"
    then show ?thesis using run_superseded [OF st(4,5,3)] e by simp
  qed
qed simp

text \<open>The holder that acquires reads what the row it replaced says.\<close>

lemma acquire_inherits:
  assumes "inv s" and "issued s < token_limit"
    and "\<And>r. view s w = Some r \<Longrightarrow> row_expires r < clk 0"
  shows "\<exists>s' rec. b_acquire b None clk s w h ttl = (s', Inr rec) \<and> lr_work rec = w \<and>
    lr_holder rec = h \<and> issued s < unat (lr_token rec) \<and> inv s' \<and>
    b_read_checkpoint b None clk' s' rec = (s', Inr (inherited (view s w)))"
proof -
  obtain s' tok e u where acq: "b_acquire b None clk s w h ttl =
      (s', Inr \<lparr>lr_work = w, lr_holder = h, lr_token = tok, lr_expires = e\<rparr>)"
    "view s' = (view s)(w \<mapsto> successor_row (view s w) h tok e u)" "inv s'" "issued s < unat tok"
    using acquire_free [OF assms(1) _ assms(2), of w clk h ttl] assms(3) by blast
  then show ?thesis
    using read_ok [OF acq(3), of "\<lparr>lr_work = w, lr_holder = h, lr_token = tok, lr_expires = e\<rparr>"
      _ clk']
    by (cases "view s w") (auto simp: inherited_def zero_checkpoint_def)
qed

text \<open>
  Handoff. After a successful \<open>Release\<close>, and whatever is called next, the first successor can
  acquire at once and reads the declared mode, the releasing holder and its last checkpoint.
\<close>

lemma handoff:
  assumes "inv s" and "mono clk" and "view s (lr_work rec) = Some r" and "row_expires r > clk 0"
    and rel: "b_release b None clk s rec m = (s1, None)"
    and "room s1 cs" and "schedule_ok cs" and "timed (clk 2) cs"
    and last: "\<exists>r'. view (b_run b cs s1) (lr_work rec) = Some r' \<and> row_token r' = lr_token rec"
    and "clk 2 \<le> clk' 0"
  shows "\<exists>s3 rec'. b_acquire b None clk' (b_run b cs s1) (lr_work rec) h ttl = (s3, Inr rec') \<and>
    unat (lr_token rec) < unat (lr_token rec') \<and>
    b_read_checkpoint b None clk'' s3 rec' =
      (s3, Inr \<lparr>cp_state = row_checkpoint r, cp_prev_exit = m, cp_prev_holder = lr_holder rec\<rparr>)"
proof -
  let ?s2 = "b_run b cs s1"
  obtain e u where held: "held_by r rec" "declarable m" and e: "e < clk 2" and s1: "inv s1"
    "view s1 = (view s)(lr_work rec \<mapsto> r\<lparr>row_exit := m, row_expires := e, row_updated := u\<rparr>)"
    using release_total [OF assms(1), of clk rec m] rel assms(2,3) by auto
  let ?r = "r\<lparr>row_exit := m, row_expires := e, row_updated := u\<rparr>"
  have "view s1 (lr_work rec) = Some ?r" using s1 by simp
  then have r2: "view ?s2 (lr_work rec) = Some ?r"
    using run_declared [OF s1(1) assms(6-8), of rec ?r] last held e
    by (auto simp: superseded_def held_by_def)
  have s2: "inv ?s2" "issued ?s2 < token_limit"
    using run_inv [OF s1(1) assms(6,7)] assms(6) by (auto simp: room_def)
  have "unat (lr_token rec) \<le> issued ?s2"
    using token_issued [OF s2(1) r2] held(1) by (simp add: held_by_def)
  moreover have "row_expires r' < clk' 0" if "view ?s2 (lr_work rec) = Some r'" for r'
    using that r2 e assms(10) by auto
  ultimately show ?thesis
    using acquire_inherits [OF s2, of "lr_work rec" clk' h ttl clk''] r2 held
    by (fastforce simp: inherited_def held_by_def)
qed

end

end
