(* ===== verification/Memory.thy ===== *)
theory Memory
  imports Backend_Laws
begin

text \<open>
  \<open>backend/memory/memory.go\<close>: the in-memory backend.

  The Go map \<open>records\<close> is an association list with distinct keys, whose order stands for
  the unspecified order in which \<open>range\<close> visits a map; \<open>seq\<close> is the 64-bit wrapping
  fencing counter. Every method holds the mutex from its first read to its return, so a call
  is one atomic step. \<open>clk k\<close> is the result of the \<open>k\<close>-th \<open>clock.Now()\<close> of the call,
  and \<open>c\<close> the result of \<open>ctx.Err()\<close> at its start.
\<close>

type_synonym mem_records = "(string \<times> row) list"

record memory_backend =
  records :: mem_records
  seq :: u64

definition memory_new :: memory_backend where
  "memory_new = \<lparr>records = [], seq = 0\<rparr>"

definition releaseGracePeriod :: duration where
  "releaseGracePeriod = - millisecond"

definition mem_acquire ::
  "ctx_err \<Rightarrow> clock \<Rightarrow> memory_backend \<Rightarrow> string \<Rightarrow> string \<Rightarrow> duration \<Rightarrow>
   memory_backend \<times> (gerror + lease_record)" where
  "mem_acquire c clk mb workID holderID ttl =
     (case c of
        Some e \<Rightarrow> (mb, Inl (Wrap ''memory: Acquire'' e))
      | None \<Rightarrow>
          let prev = map_of (records mb) workID;
              held = (case prev of None \<Rightarrow> False | Some r \<Rightarrow> \<not> time_after (clk 0) (row_expires r));
              k = (if prev = None then 0 else 1)
          in if held then (mb, Inl ErrLeaseHeld)
             else
               let newToken = seq mb + 1;
                   prevCheckpoint = (case prev of None \<Rightarrow> None | Some r \<Rightarrow> row_checkpoint r);
                   prevExit = (case prev of None \<Rightarrow> ExitNone
                               | Some r \<Rightarrow> if row_exit r = ExitNone then ExitExpired else row_exit r);
                   prevHolderID = (case prev of None \<Rightarrow> '''' | Some r \<Rightarrow> row_holder r);
                   newRecord = \<lparr>row_holder = holderID, row_token = newToken,
                     row_expires = time_add (clk k) ttl, row_checkpoint = prevCheckpoint,
                     row_exit = ExitNone, row_prev_exit = prevExit,
                     row_prev_holder = prevHolderID, row_updated = clk (k + 1)\<rparr>
               in (mb\<lparr>records := AList.update workID newRecord (records mb), seq := newToken\<rparr>,
                   Inr \<lparr>lr_work = workID, lr_holder = holderID, lr_token = newToken,
                        lr_expires = row_expires newRecord\<rparr>))"

definition mem_checkpoint ::
  "ctx_err \<Rightarrow> clock \<Rightarrow> memory_backend \<Rightarrow> lease_record \<Rightarrow> bytes \<Rightarrow> duration \<Rightarrow>
   memory_backend \<times> gerror option" where
  "mem_checkpoint c clk mb rec state ttl =
     (case c of
        Some e \<Rightarrow> (mb, Some (Wrap ''memory: Checkpoint'' e))
      | None \<Rightarrow>
          (case map_of (records mb) (lr_work rec) of
             None \<Rightarrow> (mb, Some ErrFenced)
           | Some r \<Rightarrow>
               if \<not> held_by r rec then (mb, Some ErrFenced)
               else if row_exit r \<noteq> ExitNone then (mb, Some ErrLeaseExpired)
               else
                 let r' = r\<lparr>row_checkpoint := (if slice_len state = 0 then None else state),
                            row_expires := time_add (clk 0) ttl, row_updated := clk 1\<rparr>
                 in (mb\<lparr>records := AList.update (lr_work rec) r' (records mb)\<rparr>, None)))"

definition mem_renew ::
  "ctx_err \<Rightarrow> clock \<Rightarrow> memory_backend \<Rightarrow> lease_record \<Rightarrow> duration \<Rightarrow>
   memory_backend \<times> gerror option" where
  "mem_renew c clk mb rec ttl =
     (case c of
        Some e \<Rightarrow> (mb, Some (Wrap ''memory: Renew'' e))
      | None \<Rightarrow>
          (case map_of (records mb) (lr_work rec) of
             None \<Rightarrow> (mb, Some ErrFenced)
           | Some r \<Rightarrow>
               if \<not> held_by r rec then (mb, Some ErrFenced)
               else if \<not> time_before (clk 0) (row_expires r) then (mb, Some ErrLeaseExpired)
               else
                 let r' = r\<lparr>row_expires := time_add (clk 1) ttl, row_updated := clk 2\<rparr>
                 in (mb\<lparr>records := AList.update (lr_work rec) r' (records mb)\<rparr>, None)))"

definition mem_release ::
  "ctx_err \<Rightarrow> clock \<Rightarrow> memory_backend \<Rightarrow> lease_record \<Rightarrow> exit_mode \<Rightarrow>
   memory_backend \<times> gerror option" where
  "mem_release c clk mb rec mode =
     (if mode \<noteq> ExitFinished \<and> mode \<noteq> ExitAbandoned \<and> mode \<noteq> ExitRetired
      then (mb, Some ErrInvalidExitMode)
      else
        (case c of
           Some e \<Rightarrow> (mb, Some (Wrap ''memory: Release'' e))
         | None \<Rightarrow>
             (case map_of (records mb) (lr_work rec) of
                None \<Rightarrow> (mb, Some ErrFenced)
              | Some r \<Rightarrow>
                  if \<not> held_by r rec then (mb, Some ErrFenced)
                  else if \<not> time_after (row_expires r) (clk 0) then (mb, Some ErrLeaseExpired)
                  else
                    let r' = r\<lparr>row_exit := mode, row_expires := time_add (clk 1) releaseGracePeriod,
                               row_updated := clk 2\<rparr>
                    in (mb\<lparr>records := AList.update (lr_work rec) r' (records mb)\<rparr>, None))))"

definition mem_read_checkpoint ::
  "ctx_err \<Rightarrow> clock \<Rightarrow> memory_backend \<Rightarrow> lease_record \<Rightarrow>
   memory_backend \<times> (gerror + checkpoint)" where
  "mem_read_checkpoint c clk mb rec =
     (case c of
        Some e \<Rightarrow> (mb, Inl (Wrap ''memory: ReadCheckpoint'' e))
      | None \<Rightarrow>
          (case map_of (records mb) (lr_work rec) of
             None \<Rightarrow> (mb, Inl ErrFenced)
           | Some r \<Rightarrow>
               if row_token r \<noteq> lr_token rec then (mb, Inl ErrFenced)
               else if row_checkpoint r = None then
                 (mb, Inr \<lparr>cp_state = None, cp_prev_exit = row_prev_exit r,
                           cp_prev_holder = row_prev_holder r\<rparr>)
               else
                 (mb, Inr \<lparr>cp_state = row_checkpoint r, cp_prev_exit = row_prev_exit r,
                           cp_prev_holder = row_prev_holder r\<rparr>)))"

definition mem_forget ::
  "ctx_err \<Rightarrow> clock \<Rightarrow> memory_backend \<Rightarrow> lease_record \<Rightarrow> memory_backend \<times> gerror option" where
  "mem_forget c clk mb rec =
     (case c of
        Some e \<Rightarrow> (mb, Some (Wrap ''memory: Forget'' e))
      | None \<Rightarrow>
          (case map_of (records mb) (lr_work rec) of
             None \<Rightarrow> (mb, Some ErrFenced)
           | Some r \<Rightarrow>
               if \<not> held_by r rec then (mb, Some ErrFenced)
               else (mb\<lparr>records := AList.delete (lr_work rec) (records mb)\<rparr>, None)))"

text \<open>The loop of \<open>Sweep\<close> over the map: the rows it keeps and the number it deletes.\<close>

fun sweep_loop :: "instant \<Rightarrow> sweep_options \<Rightarrow> mem_records \<Rightarrow> mem_records \<times> int" where
  "sweep_loop now opts [] = ([], 0)"
| "sweep_loop now opts ((workID, r) # rest) =
     (let (kept, deleted) = sweep_loop now opts rest
      in if time_sub now (row_updated r) \<le> so_retention opts then ((workID, r) # kept, deleted)
         else if \<not> time_after now (row_expires r) then ((workID, r) # kept, deleted)
         else if row_exit r \<noteq> ExitRetired \<and> \<not> (so_include_expired opts \<and> row_exit r = ExitNone)
         then ((workID, r) # kept, deleted)
         else (kept, deleted + 1))"

definition mem_sweep ::
  "ctx_err \<Rightarrow> clock \<Rightarrow> memory_backend \<Rightarrow> sweep_options \<Rightarrow>
   memory_backend \<times> int \<times> gerror option" where
  "mem_sweep c clk mb opts =
     (case c of
        Some e \<Rightarrow> (mb, 0, Some (Wrap ''memory: Sweep'' e))
      | None \<Rightarrow>
          let (kept, deleted) = sweep_loop (clk 0) opts (records mb)
          in (mb\<lparr>records := kept\<rparr>, deleted, None))"

definition memory :: "memory_backend backend" where
  "memory =
     \<lparr>b_acquire = mem_acquire, b_checkpoint = mem_checkpoint, b_renew = mem_renew,
      b_release = mem_release, b_read_checkpoint = mem_read_checkpoint,
      b_forget = mem_forget, b_sweep = mem_sweep\<rparr>"

lemma memory_sel [simp]:
  "b_acquire memory = mem_acquire" "b_checkpoint memory = mem_checkpoint"
  "b_renew memory = mem_renew" "b_release memory = mem_release"
  "b_read_checkpoint memory = mem_read_checkpoint" "b_forget memory = mem_forget"
  "b_sweep memory = mem_sweep"
  by (simp_all add: memory_def)

section \<open>Well-formedness\<close>

text \<open>
  Keys are distinct, every stored token was issued by the counter, and no stored checkpoint
  is a non-nil empty slice.
\<close>

definition mem_view :: "memory_backend \<Rightarrow> string \<Rightarrow> row option" where
  "mem_view mb = map_of (records mb)"

definition mem_inv :: "memory_backend \<Rightarrow> bool" where
  "mem_inv mb \<longleftrightarrow> distinct (map fst (records mb)) \<and>
     list_all (\<lambda>(w, r). row_token r \<le> seq mb \<and> row_checkpoint r \<noteq> Some []) (records mb)"

definition mem_issued :: "memory_backend \<Rightarrow> nat" where
  "mem_issued mb = unat (seq mb)"

lemma mem_inv_new: "mem_inv memory_new"
  by (simp add: mem_inv_def memory_new_def)

lemma mem_inv_lookup:
  "mem_inv mb \<Longrightarrow> map_of (records mb) w = Some r \<Longrightarrow>
   row_token r \<le> seq mb \<and> row_checkpoint r \<noteq> Some []"
  by (auto simp: mem_inv_def list_all_iff dest!: map_of_SomeD)

text \<open>Storing a row keeps the invariant when its token is issued and its state normalised.\<close>

lemma mem_inv_update:
  assumes "mem_inv mb" and "seq mb \<le> q" and "row_token r \<le> q" and "row_checkpoint r \<noteq> Some []"
  shows "mem_inv (mb\<lparr>records := AList.update w r (records mb), seq := q\<rparr>)"
  using assms
  by (auto simp: mem_inv_def list_all_iff distinct_update dest!: set_update_cases intro: order.trans)

lemma mem_inv_update_records:
  "mem_inv mb \<Longrightarrow> row_token r \<le> seq mb \<Longrightarrow> row_checkpoint r \<noteq> Some [] \<Longrightarrow>
   mem_inv (mb\<lparr>records := AList.update w r (records mb)\<rparr>)"
  using mem_inv_update [of mb "seq mb" r w] by simp

lemma mem_inv_delete: "mem_inv mb \<Longrightarrow> mem_inv (mb\<lparr>records := AList.delete w (records mb)\<rparr>)"
  by (auto simp: mem_inv_def list_all_iff AList.delete_eq intro!: distinct_fst_filter)

text \<open>The rows \<open>Sweep\<close> deletes; its loop is a filter and a count.\<close>

definition mem_swept :: "instant \<Rightarrow> sweep_options \<Rightarrow> row \<Rightarrow> bool" where
  "mem_swept now opts r \<longleftrightarrow>
     so_retention opts < time_sub now (row_updated r) \<and> sweepable now opts r"

lemma sweep_loop_filter:
  "sweep_loop now opts rs =
     (filter (\<lambda>(w, r). \<not> mem_swept now opts r) rs,
      int (length (filter (\<lambda>(w, r). mem_swept now opts r) rs)))"
  by (induction now opts rs rule: sweep_loop.induct)
     (auto simp: mem_swept_def sweepable_def time_after_def not_less split: prod.splits)

lemma mem_inv_filter: "mem_inv mb \<Longrightarrow> mem_inv (mb\<lparr>records := filter P (records mb)\<rparr>)"
  by (auto simp: mem_inv_def list_all_iff intro: distinct_fst_filter)

section \<open>The memory backend meets the contract\<close>

lemmas mem_op_defs =
  mem_acquire_def mem_checkpoint_def mem_renew_def mem_release_def mem_read_checkpoint_def
  mem_forget_def mem_sweep_def

lemma mem_view_update [simp]:
  "mem_view (mb\<lparr>records := AList.update w r (records mb)\<rparr>) = (mem_view mb)(w \<mapsto> r)"
  "mem_view (mb\<lparr>records := AList.update w r (records mb), seq := q\<rparr>) = (mem_view mb)(w \<mapsto> r)"
  "mem_view (mb\<lparr>records := AList.delete w (records mb)\<rparr>) = (mem_view mb)(w := None)"
  by (simp_all add: mem_view_def)

lemma mem_issued_update [simp]: "mem_issued (mb\<lparr>records := rs\<rparr>) = mem_issued mb"
  by (simp add: mem_issued_def)

lemma mem_acquire_next:
  assumes "mem_issued mb < token_limit"
  shows "unat (seq mb + 1) = mem_issued mb + 1" and "seq mb \<le> seq mb + 1"
proof -
  show step: "unat (seq mb + 1) = mem_issued mb + 1"
    using assms by (simp add: mem_issued_def token_limit_def unat_word_ariths)
  then show "seq mb \<le> seq mb + 1"
    by (simp add: word_le_nat_alt mem_issued_def)
qed

lemma mem_acquire_free:
  assumes inv: "mem_inv mb"
    and free: "\<And>r. mem_view mb w = Some r \<Longrightarrow> row_expires r < clk 0"
    and room: "mem_issued mb < token_limit"
  shows "\<exists>s' tok e u. mem_acquire None clk mb w h ttl =
           (s', Inr \<lparr>lr_work = w, lr_holder = h, lr_token = tok, lr_expires = e\<rparr>) \<and>
         mem_view s' = (mem_view mb)(w \<mapsto> successor_row (mem_view mb w) h tok e u) \<and> mem_inv s' \<and>
         mem_issued mb < unat tok \<and> mem_issued s' = unat tok \<and> mem_issued s' \<le> mem_issued mb + 2 \<and>
         (mono clk \<longrightarrow> during clk ttl e \<and> during clk 0 u)"
proof -
  let ?k = "if mem_view mb w = None then 0 else 1"
  let ?row = "successor_row (mem_view mb w) h (seq mb + 1) (time_add (clk ?k) ttl) (clk (?k + 1))"
  have "row_checkpoint ?row \<noteq> Some []"
    using inv by (auto simp: successor_row_def mem_view_def dest: mem_inv_lookup split: option.split)
  then have inv': "mem_inv (mb\<lparr>records := AList.update w ?row (records mb), seq := seq mb + 1\<rparr>)"
    using inv mem_acquire_next(2) [OF room] by (intro mem_inv_update) simp_all
  have acq: "mem_acquire None clk mb w h ttl =
      (mb\<lparr>records := AList.update w ?row (records mb), seq := seq mb + 1\<rparr>,
       Inr \<lparr>lr_work = w, lr_holder = h, lr_token = seq mb + 1, lr_expires = time_add (clk ?k) ttl\<rparr>)"
    using free
    by (auto simp: mem_acquire_def mem_view_def successor_row_def Let_def time_simps
        split: option.split)
  have bounds: "during clk ttl (time_add (clk ?k) ttl) \<and> during clk 0 (clk (?k + 1))" if "mono clk"
    using clock_mono [OF that, of 0 ?k] clock_mono [OF that, of 0 "?k + 1"]
      clock_mono [OF that, of ?k 2] clock_mono [OF that, of "?k + 1" 2]
    by (auto simp: during_def numeral_2_eq_2)
  show ?thesis
    using acq inv' bounds mem_acquire_next [OF room] by (auto simp: mem_issued_def)
qed

lemma mem_sweep_view:
  assumes "mem_inv mb"
  shows "mem_view (mb\<lparr>records := filter (\<lambda>(w, r). \<not> P r) (records mb)\<rparr>) w =
    (case mem_view mb w of None \<Rightarrow> None | Some r \<Rightarrow> if P r then None else Some r)"
  using assms by (auto simp: mem_view_def mem_inv_def map_of_filter_distinct split: option.split)

lemma mem_sweep_count:
  fixes P :: "row \<Rightarrow> bool"
  assumes "mem_inv mb" and mb'_def: "mb' = mb\<lparr>records := filter (\<lambda>(w, r). \<not> P r) (records mb)\<rparr>"
  shows "length (filter (\<lambda>(w, r). P r) (records mb)) = card (dom (mem_view mb) - dom (mem_view mb'))"
proof -
  have "dom (mem_view mb) - dom (mem_view mb') = dom (map_of (filter (\<lambda>(w, r). P r) (records mb)))"
    using assms mem_sweep_view [OF assms(1), of P]
    by (auto simp: mb'_def mem_view_def mem_inv_def map_of_filter_distinct domIff
        split: option.splits if_splits)
  moreover have "distinct (map fst (filter (\<lambda>(w, r). P r) (records mb)))"
    using assms(1) by (auto simp: mem_inv_def intro: distinct_fst_filter)
  ultimately show ?thesis by (simp add: card_dom_map_of)
qed

lemma mem_row_ok: "mem_inv mb \<Longrightarrow> mem_view mb w = Some r \<Longrightarrow>
    row_token r \<le> seq mb \<and> row_checkpoint r \<noteq> Some []"
  by (simp add: mem_view_def mem_inv_lookup)

lemma during_call:
  "mono clk \<Longrightarrow> i \<le> 2 \<Longrightarrow> during clk d (time_add (clk i) d)"
  "mono clk \<Longrightarrow> i \<le> 2 \<Longrightarrow> during clk 0 (clk i)"
  using clock_mono [of clk 0 i] clock_mono [of clk i 2] by (auto simp: during_def)

lemma mem_checkpoint_ok:
  assumes "mem_inv mb" "mem_view mb (lr_work rec) = Some r" "held_by r rec" "row_exit r = ExitNone"
  shows "\<exists>s' e u. mem_checkpoint None clk mb rec st ttl = (s', None) \<and>
     mem_view s' = (mem_view mb)(lr_work rec \<mapsto>
       r\<lparr>row_checkpoint := normalize_state st, row_expires := e, row_updated := u\<rparr>) \<and>
     mem_inv s' \<and> mem_issued s' = mem_issued mb \<and>
     (mono clk \<longrightarrow> during clk ttl e \<and> during clk 0 u)"
proof -
  let ?r = "r\<lparr>row_checkpoint := normalize_state st, row_expires := time_add (clk 0) ttl,
    row_updated := clk 1\<rparr>"
  have "mem_checkpoint None clk mb rec st ttl =
      (mb\<lparr>records := AList.update (lr_work rec) ?r (records mb)\<rparr>, None)"
    using assms by (simp add: mem_checkpoint_def mem_view_def normalize_state_def)
  moreover have "mem_inv (mb\<lparr>records := AList.update (lr_work rec) ?r (records mb)\<rparr>)"
    using assms mem_row_ok [OF assms(1,2)] by (intro mem_inv_update_records) simp_all
  ultimately show ?thesis
    using during_call(1) [of clk 0 ttl] during_call(2) [of clk 1]
    by (intro ex3I [where b = "time_add (clk 0) ttl" and c = "clk 1"]) auto
qed

lemma mem_renew_ok:
  assumes "mem_inv mb" "mem_view mb (lr_work rec) = Some r" "held_by r rec" "clk 0 < row_expires r"
  shows "\<exists>s' e u. mem_renew None clk mb rec ttl = (s', None) \<and>
     mem_view s' = (mem_view mb)(lr_work rec \<mapsto> r\<lparr>row_expires := e, row_updated := u\<rparr>) \<and>
     mem_inv s' \<and> mem_issued s' = mem_issued mb \<and>
     (mono clk \<longrightarrow> during clk ttl e \<and> during clk 0 u)"
proof -
  let ?r = "r\<lparr>row_expires := time_add (clk 1) ttl, row_updated := clk 2\<rparr>"
  have "mem_renew None clk mb rec ttl =
      (mb\<lparr>records := AList.update (lr_work rec) ?r (records mb)\<rparr>, None)"
    using assms by (simp add: mem_renew_def mem_view_def time_before_def)
  moreover have "mem_inv (mb\<lparr>records := AList.update (lr_work rec) ?r (records mb)\<rparr>)"
    using assms mem_row_ok [OF assms(1,2)] by (intro mem_inv_update_records) simp_all
  ultimately show ?thesis
    using during_call(1) [of clk 1 ttl] during_call(2) [of clk 2]
    by (intro ex3I [where b = "time_add (clk 1) ttl" and c = "clk 2"]) auto
qed

lemma mem_release_ok:
  assumes "mem_inv mb" "declarable m" "mem_view mb (lr_work rec) = Some r" "held_by r rec"
    "clk 0 < row_expires r"
  shows "\<exists>s' e u. mem_release None clk mb rec m = (s', None) \<and>
     mem_view s' = (mem_view mb)(lr_work rec \<mapsto>
       r\<lparr>row_exit := m, row_expires := e, row_updated := u\<rparr>) \<and>
     mem_inv s' \<and> mem_issued s' = mem_issued mb \<and>
     (mono clk \<longrightarrow> e < clk 2 \<and> during clk 0 u)"
proof -
  let ?r = "r\<lparr>row_exit := m, row_expires := time_add (clk 1) releaseGracePeriod, row_updated := clk 2\<rparr>"
  have "mem_release None clk mb rec m =
      (mb\<lparr>records := AList.update (lr_work rec) ?r (records mb)\<rparr>, None)"
    using assms by (auto simp: mem_release_def mem_view_def time_after_def declarable_def)
  moreover have "mem_inv (mb\<lparr>records := AList.update (lr_work rec) ?r (records mb)\<rparr>)"
    using assms mem_row_ok [OF assms(1,3)] by (intro mem_inv_update_records) simp_all
  moreover have "mono clk \<longrightarrow> time_add (clk 1) releaseGracePeriod < clk 2"
    using clock_mono [of clk 1 2] by (auto simp: releaseGracePeriod_def time_simps)
  ultimately show ?thesis
    using during_call(2) [of clk 2]
    by (intro ex3I [where b = "time_add (clk 1) releaseGracePeriod" and c = "clk 2"]) auto
qed

lemma mem_sweep_ok:
  assumes inv: "mem_inv mb" and ret: "is_int64 (so_retention opts)"
  shows "\<exists>s' n. mem_sweep None clk mb opts = (s', n, None) \<and> mem_inv s' \<and>
     mem_issued s' = mem_issued mb \<and> n = int (card (dom (mem_view mb) - dom (mem_view s'))) \<and>
     (\<forall>w. mem_view s' w = mem_view mb w \<or> mem_view s' w = None) \<and>
     (\<forall>w r. mem_view mb w = Some r \<longrightarrow> mem_view s' w = None \<longrightarrow>
        sweepable (clk 0) opts r \<and>
        so_retention opts - sweep_slack < ns (clk 0) - ns (row_updated r)) \<and>
     (\<forall>w r. mem_view mb w = Some r \<longrightarrow> sweepable (clk 0) opts r \<longrightarrow>
        so_retention opts + sweep_slack < ns (clk 0) - ns (row_updated r) \<longrightarrow>
        so_retention opts < 2 ^ 63 - 1 \<longrightarrow> mem_view s' w = None)"
proof -
  let ?P = "mem_swept (clk 0) opts"
  let ?s = "mb\<lparr>records := filter (\<lambda>(w, r). \<not> ?P r) (records mb)\<rparr>"
  have "mem_sweep None clk mb opts = (?s, int (card (dom (mem_view mb) - dom (mem_view ?s))), None)"
    using mem_sweep_count [OF inv refl, of ?P] by (simp add: mem_sweep_def sweep_loop_filter)
  moreover have "?P r \<Longrightarrow> so_retention opts < ns (clk 0) - ns (row_updated r)" for r
    using ret by (auto simp: mem_swept_def time_sub_def dest: sat64_le_self)
  moreover have "sweepable (clk 0) opts r \<Longrightarrow> so_retention opts < ns (clk 0) - ns (row_updated r) \<Longrightarrow>
      so_retention opts < 2 ^ 63 - 1 \<Longrightarrow> ?P r" for r
    using ret by (auto simp: mem_swept_def time_sub_def sat64_less)
  ultimately show ?thesis
    using mem_inv_filter [OF inv, of "\<lambda>(w, r). \<not> ?P r"] mem_sweep_view [OF inv, of ?P]
    by (force simp: mem_swept_def split: option.splits)
qed

interpretation mem: lease_backend memory mem_view mem_inv mem_issued
proof (unfold_locales, unfold memory_sel, goal_cases)
  case (1 s) then show ?case by (simp add: mem_view_def finite_dom_map_of)
next
  case (2 s w r) then show ?case
    using mem_row_ok by (fastforce simp: mem_issued_def word_le_nat_alt)
next
  case (3 s w r clk h ttl) then show ?case
    by (auto simp: mem_acquire_def mem_view_def time_after_def not_less)
next
  case (4 s w clk h ttl) then show ?case by (intro mem_acquire_free)
next
  case (7 s rec r clk st ttl) then show ?case by (intro mem_checkpoint_ok)
next
  case (10 s rec r clk ttl) then show ?case by (intro mem_renew_ok)
next
  case (14 s m rec r clk) then show ?case by (intro mem_release_ok)
next
  case (19 s opts clk) then show ?case by (intro mem_sweep_ok)
qed (auto simp: mem_op_defs mem_view_def time_simps declarable_def held_by_def mem_inv_delete
       dest: mem_inv_lookup split: option.splits)

section \<open>Properties\<close>

lemmas mem_room_def = mem.room_def

lemma mem_room_split:
  "mem_issued s + 2 * (length cs + 1) < token_limit \<Longrightarrow> mem_issued s < token_limit"
  "mem_issued s + 2 * (length cs + 1) < token_limit \<Longrightarrow> mem_issued s' \<le> mem_issued s + 2 \<Longrightarrow>
   mem.room s' cs"
  by (auto simp: mem_room_def)

text \<open>
  C1. Fencing. \<open>rec\<close> is any record whose token was issued before \<open>s1\<close>. Once another
  \<open>Acquire\<close> of its work ID succeeds, then after any further calls \<open>cs\<close> of any clients in
  any order, every operation made with \<open>rec\<close> returns \<open>ErrFenced\<close> and writes nothing.
\<close>

theorem mem_fencing:
  assumes "mem_inv s1" and "mem_issued s1 + 2 * (length cs + 1) < token_limit"
    and "unat (lr_token rec) \<le> mem_issued s1"
    and "mem_acquire c clk s1 (lr_work rec) h ttl = (s2, Inr rec')"
    and "schedule_ok cs" and "declarable m" and "s = b_run memory cs s2"
  shows "mem_checkpoint None clk' s rec st d = (s, Some ErrFenced) \<and>
    mem_renew None clk' s rec d = (s, Some ErrFenced) \<and>
    mem_release None clk' s rec m = (s, Some ErrFenced) \<and>
    mem_forget None clk' s rec = (s, Some ErrFenced) \<and>
    mem_read_checkpoint None clk' s rec = (s, Inl ErrFenced)"
proof -
  have acq: "b_acquire memory c clk s1 (lr_work rec) h ttl = (s2, Inr rec')"
    using assms(4) by simp
  have room: "mem.room s2 cs"
    by (rule mem_room_split(2) [OF assms(2)
          mem.acquire_supersedes(5) [OF assms(1) mem_room_split(1) [OF assms(2)] acq refl assms(3)]])
  show ?thesis
    using mem.zombie_fenced [OF assms(1) mem_room_split(1) [OF assms(2)] assms(3) acq room
        assms(5,6), of clk' st d] assms(7) by simp
qed

text \<open>The states and records of the witnesses: one work ID, times in nanoseconds.\<close>

definition ex_row :: "string \<Rightarrow> u64 \<Rightarrow> int \<Rightarrow> row" where
  "ex_row h t e = successor_row None h t (At e) (At 0)"

definition ex_mem :: "row \<Rightarrow> memory_backend" where
  "ex_mem r = \<lparr>records = [(''w'', r)], seq = row_token r\<rparr>"

definition ex_rec :: "string \<Rightarrow> u64 \<Rightarrow> int \<Rightarrow> lease_record" where
  "ex_rec h t e = \<lparr>lr_work = ''w'', lr_holder = h, lr_token = t, lr_expires = At e\<rparr>"

definition ex_clock :: "int \<Rightarrow> clock" where
  "ex_clock t = (\<lambda>k. At (t + int k))"

lemma ex_clock_simps [simp]: "ex_clock t k = At (t + int k)" "mono (ex_clock t)"
  by (simp_all add: ex_clock_def mono_def less_eq_instant_def)

lemmas ex_simps =
  ex_row_def ex_mem_def ex_rec_def mem_inv_def mem_issued_def mem_view_def token_limit_def
  time_simps time_add_def held_by_def successor_row_def Let_def

theorem mem_fencing_witness:
  "let rec = ex_rec ''a'' 1 10;
       s2 = fst (mem_acquire None (ex_clock 20) (ex_mem (ex_row ''a'' 1 10)) ''w'' ''b'' 50);
       s = b_run memory [(None, ex_clock 30, DoCheckpoint (ex_rec ''b'' 2 70) (Some [7]) 50)] s2
   in mem_renew None (ex_clock 40) s rec 50 = (s, Some ErrFenced)"
  using mem_fencing [of "ex_mem (ex_row ''a'' 1 10)"
      "[(None, ex_clock 30, DoCheckpoint (ex_rec ''b'' 2 70) (Some [7]) 50)]" "ex_rec ''a'' 1 10"
      None "ex_clock 20" "''b''" 50
      "fst (mem_acquire None (ex_clock 20) (ex_mem (ex_row ''a'' 1 10)) ''w'' ''b'' 50)"
      "ex_rec ''b'' 2 71" ExitFinished _ "ex_clock 40" None 50]
  by (simp add: ex_simps mem_acquire_def declarable_def)

text \<open>
  C5. Refinement. From any well-formed state, every call, with a live or a done context, keeps
  the state well-formed, issues at most two tokens and never takes one back, and moves the row of
  every work ID by a step of the life cycle \<open>row_step\<close>.
\<close>

theorem mem_refines_life_cycle:
  assumes "mem_inv s" and "mem_issued s < token_limit" and "call_ok call"
    and "s' = b_call memory c clk call s"
  shows "mem_inv s' \<and> mem_issued s \<le> mem_issued s' \<and> mem_issued s' \<le> mem_issued s + 2 \<and>
    row_step clk call w (mem_issued s) (mem_view s w) (mem_view s' w)"
  using mem.call_step(1-3) [OF assms(1-3), of c clk]
    mem.call_step(4) [OF assms(1-3), where c = c and clk = clk and w = w] assms(4) by simp

theorem mem_refines_life_cycle_witness:
  "let s = ex_mem (ex_row ''a'' 1 10); call = DoAcquire ''w'' ''b'' 50;
       s' = b_call memory None (ex_clock 20) call s
   in mem_issued s' = 2 \<and> row_step (ex_clock 20) call ''w'' 1 (mem_view s ''w'') (mem_view s' ''w'')"
  using mem_refines_life_cycle [of "ex_mem (ex_row ''a'' 1 10)" "DoAcquire ''w'' ''b'' 50" _
      None "ex_clock 20" "''w''", OF _ _ _ refl]
  by (simp add: ex_simps mem_acquire_def)

text \<open>
  Exclusion. While a lease has not expired, whatever other clients call (acquire, sweep,
  any operation with any other record), its row is exactly as it was and every
  \<open>Acquire\<close> of its work ID, its holder's own included, returns \<open>ErrLeaseHeld\<close>.
\<close>

theorem mem_exclusion:
  assumes "mem_inv s" and "mem_issued s + 2 * length cs < token_limit" and "schedule_ok cs"
    and "mem_view s w = Some r" and "held_by r rec"
    and "\<And>c clk call. (c, clk, call) \<in> set cs \<Longrightarrow> foreign rec call \<and> clk 0 \<le> row_expires r"
    and "clk' 0 \<le> row_expires r"
  shows "mem_view (b_run memory cs s) w = Some r \<and>
    snd (mem_acquire None clk' (b_run memory cs s) w h ttl) = Inl ErrLeaseHeld"
proof -
  have "mem.room s cs" using assms(2) by (simp add: mem_room_def)
  from mem.exclusive [OF assms(1) this assms(3-5), of clk' h ttl] assms(6,7) show ?thesis by simp
qed

theorem mem_exclusion_witness:
  "let s = b_run memory [(None, ex_clock 5, DoRenew (ex_rec ''b'' 9 10) 50),
             (None, ex_clock 6, DoAcquire ''w'' ''b'' 50)] (ex_mem (ex_row ''a'' 1 10))
   in mem_view s ''w'' = Some (ex_row ''a'' 1 10) \<and>
      snd (mem_acquire None (ex_clock 10) s ''w'' ''a'' 50) = Inl ErrLeaseHeld"
  using mem_exclusion [of "ex_mem (ex_row ''a'' 1 10)"
      "[(None, ex_clock 5, DoRenew (ex_rec ''b'' 9 10) 50), (None, ex_clock 6, DoAcquire ''w'' ''b'' 50)]"
      "''w''" "ex_row ''a'' 1 10" "ex_rec ''a'' 1 10" "ex_clock 10" "''a''" 50]
  by (force simp: ex_simps)

text \<open>
  C11. Handoff. After a successful \<open>Release\<close> and any further calls that leave the released lease
  in place, the next \<open>Acquire\<close> succeeds at once, with a larger token, and its holder reads the
  released checkpoint, the declared mode and the holder that declared it. The time to live of the
  released lease plays no part.
\<close>

theorem mem_release_handoff:
  assumes "mem_inv s" and "mono clk" and "mem_view s (lr_work rec) = Some r"
    and "clk 0 < row_expires r" and "mem_release None clk s rec m = (s1, None)"
    and "mem_issued s1 + 2 * length cs < token_limit" and "schedule_ok cs" and "timed (clk 2) cs"
    and "mem_view (b_run memory cs s1) (lr_work rec) = Some r'" and "row_token r' = lr_token rec"
    and "clk 2 \<le> clk' 0"
  shows "\<exists>s3 rec'. mem_acquire None clk' (b_run memory cs s1) (lr_work rec) h ttl = (s3, Inr rec') \<and>
    unat (lr_token rec) < unat (lr_token rec') \<and>
    mem_read_checkpoint None clk'' s3 rec' =
      (s3, Inr \<lparr>cp_state = row_checkpoint r, cp_prev_exit = m, cp_prev_holder = lr_holder rec\<rparr>)"
proof -
  have "\<exists>r'. mem_view (b_run memory cs s1) (lr_work rec) = Some r' \<and> row_token r' = lr_token rec"
    using assms(9,10) by blast
  with mem.handoff [OF assms(1-4), of m s1 cs clk' h ttl clk''] assms show ?thesis
    by (simp add: mem_room_def)
qed

theorem mem_release_handoff_witness:
  "let s1 = fst (mem_release None (ex_clock 5) (ex_mem (ex_row ''a'' 1 10)) (ex_rec ''a'' 1 10) ExitRetired)
   in \<exists>s3 rec'. mem_acquire None (ex_clock 40) (b_run memory [(None, ex_clock 30,
          DoCheckpoint (ex_rec ''a'' 1 10) (Some [7]) 50)] s1) ''w'' ''b'' 50 = (s3, Inr rec') \<and>
        1 < unat (lr_token rec') \<and> mem_read_checkpoint None (ex_clock 50) s3 rec' =
          (s3, Inr \<lparr>cp_state = None, cp_prev_exit = ExitRetired, cp_prev_holder = ''a''\<rparr>)"
  using mem_release_handoff [of "ex_mem (ex_row ''a'' 1 10)" "ex_clock 5" "ex_rec ''a'' 1 10"
      "ex_row ''a'' 1 10" ExitRetired
      "fst (mem_release None (ex_clock 5) (ex_mem (ex_row ''a'' 1 10)) (ex_rec ''a'' 1 10) ExitRetired)"
      "[(None, ex_clock 30, DoCheckpoint (ex_rec ''a'' 1 10) (Some [7]) 50)]"
      "(ex_row ''a'' 1 10)\<lparr>row_exit := ExitRetired, row_expires := At (- 999994), row_updated := At 7\<rparr>"
      "ex_clock 40" "''b''" 50 "ex_clock 50"]
  by (simp add: ex_simps mem_release_def mem_checkpoint_def releaseGracePeriod_def)

text \<open>
  Crash handoff. When a lease has lapsed, or there is none, \<open>Acquire\<close> succeeds and its
  holder reads the last checkpoint, \<open>ExitExpired\<close> if the previous holder declared nothing (its
  declared mode otherwise), and the previous holder's ID; for new work it reads the zero checkpoint.
\<close>

theorem mem_crash_handoff:
  assumes "mem_inv s" and "mem_issued s < token_limit"
    and "\<And>r. mem_view s w = Some r \<Longrightarrow> row_expires r < clk 0"
  shows "\<exists>s' rec. mem_acquire None clk s w h ttl = (s', Inr rec) \<and> lr_work rec = w \<and>
    lr_holder rec = h \<and> mem_issued s < unat (lr_token rec) \<and>
    mem_read_checkpoint None clk' s' rec = (s', Inr (inherited (mem_view s w)))"
  using mem.acquire_inherits [OF assms(1,2), of w clk h ttl clk'] assms(3) by auto

theorem mem_crash_handoff_witness:
  "\<exists>s' rec. mem_acquire None (ex_clock 11) (ex_mem (ex_row ''a'' 1 10)) ''w'' ''b'' 50 = (s', Inr rec) \<and>
     lr_work rec = ''w'' \<and> lr_holder rec = ''b'' \<and> 1 < unat (lr_token rec) \<and>
     mem_read_checkpoint None (ex_clock 12) s' rec =
       (s', Inr \<lparr>cp_state = None, cp_prev_exit = ExitExpired, cp_prev_holder = ''a''\<rparr>)"
  using mem_crash_handoff [of "ex_mem (ex_row ''a'' 1 10)" "''w''" "ex_clock 11" "''b''" 50 "ex_clock 12"]
  by (simp add: ex_simps inherited_def)

text \<open>
  Sweep. One call deletes only rows that are not held and were released as retired or, when
  asked, lapsed with no declared exit, all of them older than the retention; it deletes every such
  row; and it reports how many rows it deleted.
\<close>

theorem mem_sweep_exact:
  assumes "mem_inv s" and "is_int64 (so_retention opts)" and "so_retention opts < 2 ^ 63 - 1"
    and "mem_sweep None clk s opts = (s', n, e)"
  shows "e = None \<and> n = int (card (dom (mem_view s) - dom (mem_view s'))) \<and>
    (\<forall>w. mem_view s' w =
       (case mem_view s w of
          None \<Rightarrow> None
        | Some r \<Rightarrow>
            if sweepable (clk 0) opts r \<and> so_retention opts < ns (clk 0) - ns (row_updated r)
            then None else Some r))"
proof -
  let ?P = "mem_swept (clk 0) opts"
  have s': "s' = s\<lparr>records := filter (\<lambda>(w, r). \<not> ?P r) (records s)\<rparr>" and e: "e = None"
    and n: "n = int (length (filter (\<lambda>(w, r). ?P r) (records s)))"
    using assms(4) by (auto simp: mem_sweep_def sweep_loop_filter)
  have P: "?P r \<longleftrightarrow> sweepable (clk 0) opts r \<and> so_retention opts < ns (clk 0) - ns (row_updated r)" for r
    using assms(2,3) by (auto simp: mem_swept_def time_sub_def sat64_less)
  show ?thesis
    using e n mem_sweep_count [OF assms(1) s'] mem_sweep_view [OF assms(1), of ?P] s' P
    by (simp cong: option.case_cong)
qed

theorem mem_sweep_exact_witness:
  "let s = ex_mem ((ex_row ''a'' 1 10)\<lparr>row_exit := ExitRetired\<rparr>); s' = memory_new\<lparr>seq := 1\<rparr>
   in mem_sweep None (ex_clock 90) s \<lparr>so_retention = 40, so_include_expired = False\<rparr> = (s', 1, None) \<and>
      card (dom (mem_view s) - dom (mem_view s')) = 1"
proof -
  let ?s = "ex_mem ((ex_row ''a'' 1 10)\<lparr>row_exit := ExitRetired\<rparr>)"
  let ?o = "\<lparr>so_retention = 40, so_include_expired = False\<rparr>"
  have run: "mem_sweep None (ex_clock 90) ?s ?o = (memory_new\<lparr>seq := 1\<rparr>, 1, None)"
    by (simp add: ex_simps mem_sweep_def time_sub_def sat64_def memory_new_def)
  show ?thesis
    using mem_sweep_exact [OF _ _ _ run] run by (simp add: ex_simps is_int64_def)
qed

end
