(* ===== verification/Floats.thy ===== *)
theory Floats
  imports Prelude
begin

text \<open>
  Go's \<open>float64\<close> arithmetic as far as the library uses it: \<open>Duration.Seconds\<close>, the format
  \<open>%.6f\<close>, and the products of the jitter computations.

  A non-negative double is held as an integer count of \<open>2 ^ -100\<close>, and every operation
  rounds its exact result \<open>n / d\<close> to 53 significant bits, ties to even (\<open>fl n d\<close>). The
  values that occur lie between \<open>2 ^ -47\<close> and \<open>2 ^ 64\<close>, so neither subnormal numbers nor
  overflow arise, and no result needs more than 100 bits after the point.
\<close>

text \<open>The number of binary digits.\<close>

function bits :: "int \<Rightarrow> nat" where
  "bits n = (if n \<le> 0 then 0 else Suc (bits (n div 2)))"
  by pat_completeness auto
termination
  by (relation "measure nat") auto

declare bits.simps [simp del]

lemma bits_0 [simp]: "bits 0 = 0"
  by (simp add: bits.simps [of 0])

lemma bits_bounds: "0 < n \<Longrightarrow> 2 ^ (bits n - 1) \<le> n \<and> n < 2 ^ bits n \<and> 0 < bits n"
proof (induction n rule: bits.induct)
  case (1 n)
  show ?case
  proof (cases "n div 2 = 0")
    case True
    with "1.prems" show ?thesis by (simp add: bits.simps [of n])
  next
    case False
    then have IH: "2 ^ (bits (n div 2) - 1) \<le> n div 2" "n div 2 < 2 ^ bits (n div 2)"
      "0 < bits (n div 2)"
      using 1 by auto
    define p where "p = (2 :: int) ^ (bits (n div 2) - 1)"
    have p: "(2 :: int) ^ bits (n div 2) = 2 * p"
      using IH(3) by (simp add: p_def flip: power_Suc)
    have "2 * p \<le> n \<and> n < 2 * (2 * p)" using IH(1,2) p unfolding p_def [symmetric] by linarith
    then show ?thesis
      using "1.prems" p by (simp add: bits.simps [of n])
  qed
qed

text \<open>\<open>n / d\<close> rounded to an integer, ties to even.\<close>

definition rne :: "int \<Rightarrow> int \<Rightarrow> int" where
  "rne n d =
     (let q = n div d; r = n mod d
      in if 2 * r < d then q else if d < 2 * r then q + 1 else if even q then q else q + 1)"

lemma rne_error: "0 < d \<Longrightarrow> 2 * \<bar>rne n d * d - n\<bar> \<le> d"
proof -
  assume d: "0 < d"
  have r: "0 \<le> n mod d" "n mod d < d" using d by simp_all
  have lo: "n div d * d - n = - (n mod d)" using minus_mult_div_eq_mod [of n d] by (simp add: mult.commute)
  then have hi: "(n div d + 1) * d - n = d - n mod d" by (simp add: distrib_right)
  have "rne n d = n div d \<and> 2 * (n mod d) \<le> d \<or> rne n d = n div d + 1 \<and> d \<le> 2 * (n mod d)"
    by (auto simp: rne_def Let_def)
  then show ?thesis using r lo hi by (elim disjE conjE) simp_all
qed

lemma rne_nonneg: "0 < d \<Longrightarrow> 0 \<le> n \<Longrightarrow> 0 \<le> rne n d"
  by (auto simp: rne_def Let_def pos_imp_zdiv_nonneg_iff intro: add_nonneg_nonneg)

text \<open>\<open>n / d\<close> rounded to 53 significant bits.\<close>

definition fl :: "int \<Rightarrow> int \<Rightarrow> int" where
  "fl n d = (let k = bits (n div d) - 53 in rne n (d * 2 ^ k) * 2 ^ k)"

abbreviation fl_unit :: int where "fl_unit \<equiv> 2 ^ 100"

lemma fl_nonneg: "0 < d \<Longrightarrow> 0 \<le> n \<Longrightarrow> 0 \<le> fl n d"
  by (simp add: fl_def Let_def rne_nonneg)

text \<open>The relative error is at most \<open>2 ^ -53\<close>; exact below \<open>2 ^ 53\<close> units, up to a unit.\<close>

lemma fl_error:
  assumes "0 < d" and "0 \<le> n"
  shows "2 ^ 53 * \<bar>fl n d * d - n\<bar> \<le> n + 2 ^ 52 * d"
proof -
  define k where "k = bits (n div d) - 53"
  have "2 * \<bar>rne n (d * 2 ^ k) * (d * 2 ^ k) - n\<bar> \<le> d * 2 ^ k"
    using assms by (intro rne_error) simp
  then have err: "2 * \<bar>fl n d * d - n\<bar> \<le> d * 2 ^ k"
    by (simp add: fl_def k_def Let_def algebra_simps)
  have "d * 2 ^ k * 2 ^ 52 \<le> n + 2 ^ 52 * d"
  proof (cases "k = 0")
    case False
    let ?q = "n div d"
    have b: "bits ?q - 1 = k + 52" "bits ?q \<noteq> 0" using False k_def by simp_all
    then have "0 < ?q" using bits.simps [of ?q] by (cases "?q \<le> 0") simp_all
    then have "2 ^ (k + 52) \<le> n div d" using bits_bounds [of ?q] b(1) by simp
    then have "d * 2 ^ (k + 52) \<le> d * (n div d)" using assms(1) by simp
    also have "\<dots> \<le> n" using assms(1) by (simp add: minus_mod_eq_mult_div [symmetric])
    finally show ?thesis using assms by (simp add: power_add algebra_simps)
  qed (use assms in simp)
  moreover have "2 ^ 53 * \<bar>fl n d * d - n\<bar> = 2 ^ 52 * (2 * \<bar>fl n d * d - n\<bar>)" by simp
  moreover have "2 ^ 52 * (2 * \<bar>fl n d * d - n\<bar>) \<le> 2 ^ 52 * (d * 2 ^ k)"
    using err by (intro mult_left_mono) simp_all
  ultimately show ?thesis by (simp add: mult.commute)
qed

section \<open>Formatting a duration in seconds\<close>

text \<open>
  \<open>Duration.Seconds\<close>: the whole seconds plus the nanoseconds divided by \<open>1e9\<close>, both
  truncated towards zero, so the result is odd in the duration.
\<close>

definition seconds_abs :: "int \<Rightarrow> int" where
  "seconds_abs d = fl (d div second * fl_unit + fl (d mod second * fl_unit) second) 1"

text \<open>The microseconds in \<open>fmt.Sprintf("%.6f", d.Seconds())\<close>.\<close>

definition seconds_us :: "duration \<Rightarrow> int" where
  "seconds_us d = sgn d * rne (seconds_abs \<bar>d\<bar> * 1000000) fl_unit"

lemma seconds_abs_error:
  assumes "0 \<le> d" and "d \<le> 2 ^ 63"
  shows "\<bar>seconds_abs d * second - d * fl_unit\<bar> * 1000000 \<le> 1100 * fl_unit * 1000000"
proof -
  define f where "f = fl (d mod second * fl_unit) second"
  define n where "n = d div second * fl_unit + f"
  define x where "x = f * second - d mod second * fl_unit"
  have "2 ^ 53 * \<bar>x\<bar> \<le> d mod second * fl_unit + 2 ^ 52 * second"
    unfolding x_def f_def by (rule fl_error) simp_all
  moreover have "d mod second \<le> second" by simp
  ultimately have x_err: "2 ^ 53 * \<bar>x\<bar> \<le> second * fl_unit + 2 ^ 52 * second"
    by simp
  have "d * fl_unit = (d div second * second + d mod second) * fl_unit" by simp
  then have n_eq: "n * second = d * fl_unit + x"
    unfolding n_def x_def by (simp only: distrib_right)
  have n_pos: "0 \<le> n" unfolding n_def f_def using assms by (simp add: fl_nonneg pos_imp_zdiv_nonneg_iff)
  have s: "seconds_abs d = fl n 1" by (simp add: seconds_abs_def n_def f_def)
  define y where "y = seconds_abs d - n"
  have "2 ^ 53 * \<bar>y\<bar> \<le> n + 2 ^ 52"
    using fl_error [of 1 n] n_pos by (simp add: s y_def)
  then have y_err: "2 ^ 53 * \<bar>y\<bar> * second \<le> d * fl_unit + x + 2 ^ 52 * second"
    using n_eq by simp
  have "seconds_abs d * second - d * fl_unit = y * second + x"
    using n_eq by (simp add: y_def left_diff_distrib)
  then show ?thesis using x_err y_err assms(2) by simp
qed

lemma seconds_us_error:
  assumes "is_int64 d"
  shows "\<bar>seconds_us d * microsecond - d\<bar> < 2000"
proof -
  define s where "s = seconds_abs \<bar>d\<bar>"
  define u where "u = rne (s * 1000000) fl_unit"
  have "\<bar>d\<bar> \<le> 2 ^ 63" using assms by (auto simp: is_int64_def)
  then have s: "\<bar>s * second - \<bar>d\<bar> * fl_unit\<bar> \<le> 1100 * fl_unit"
    using seconds_abs_error [of "\<bar>d\<bar>"] by (simp add: s_def)
  have "2 * \<bar>u * fl_unit - s * 1000000\<bar> \<le> fl_unit"
    unfolding u_def by (rule rne_error) simp
  then have "\<bar>u * microsecond - \<bar>d\<bar>\<bar> < 2000" using s by simp
  then show ?thesis
    by (cases d "0 :: int" rule: linorder_cases) (auto simp: seconds_us_def u_def s_def)
qed

section \<open>Jitter\<close>

text \<open>The product of two doubles.\<close>

definition fmul :: "int \<Rightarrow> int \<Rightarrow> int" where
  "fmul x y = fl (x * y) fl_unit"

lemma fl_upper:
  assumes "0 < d" and "0 \<le> n"
  shows "2 ^ 53 * (fl n d * d) \<le> n * (2 ^ 53 + 1) + 2 ^ 52 * d"
proof -
  have "2 ^ 53 * (fl n d * d - n) \<le> 2 ^ 53 * \<bar>fl n d * d - n\<bar>"
    by (intro mult_left_mono) simp_all
  then show ?thesis using fl_error [OF assms] by (simp add: algebra_simps)
qed

lemma fmul_upper:
  assumes "0 \<le> x" and "0 \<le> y" and "y \<le> fl_unit"
  shows "2 ^ 53 * fmul x y \<le> x * (2 ^ 53 + 1) + 2 ^ 52" and "0 \<le> fmul x y"
proof -
  have "2 ^ 53 * (fmul x y * fl_unit) \<le> x * y * (2 ^ 53 + 1) + 2 ^ 52 * fl_unit"
    unfolding fmul_def using assms by (intro fl_upper) simp_all
  moreover have "x * y \<le> x * fl_unit" using assms by (intro mult_left_mono)
  ultimately show "2 ^ 53 * fmul x y \<le> x * (2 ^ 53 + 1) + 2 ^ 52" by simp
  show "0 \<le> fmul x y" unfolding fmul_def using assms by (intro fl_nonneg) simp_all
qed

lemma fmul_commute: "fmul x y = fmul y x"
  by (simp add: fmul_def mult.commute)

lemma jitter_range:
  assumes "0 \<le> base" and "base \<le> 2 ^ 50" and "0 \<le> j" and "j \<le> fl_unit" and "0 \<le> draw" and "draw < fl_unit"
  shows "0 \<le> fmul (fmul j (fl (base * fl_unit) 1)) draw div fl_unit"
    and "fmul (fmul j (fl (base * fl_unit) 1)) draw div fl_unit \<le> base"
proof -
  let ?a = "fl (base * fl_unit) 1"
  let ?p = "fmul j ?a"
  have a: "0 \<le> ?a" "2 ^ 53 * ?a \<le> base * fl_unit * (2 ^ 53 + 1) + 2 ^ 52"
    using assms(1) fl_nonneg [of 1 "base * fl_unit"] fl_upper [of 1 "base * fl_unit"] by simp_all
  have p: "0 \<le> ?p" "2 ^ 53 * ?p \<le> ?a * (2 ^ 53 + 1) + 2 ^ 52"
    using fmul_upper [OF a(1) assms(3,4)] by (simp_all add: fmul_commute)
  have q: "0 \<le> fmul ?p draw" "2 ^ 53 * fmul ?p draw \<le> ?p * (2 ^ 53 + 1) + 2 ^ 52"
    using fmul_upper [OF p(1) assms(5)] assms(6) by simp_all
  show "0 \<le> fmul ?p draw div fl_unit" using q(1) by (simp add: pos_imp_zdiv_nonneg_iff)
  have "fmul ?p draw < (base + 1) * fl_unit"
    using a p q assms(1,2) by simp
  then have "fmul ?p draw div fl_unit < base + 1" by (simp add: div_less_iff_less_mult)
  then show "fmul ?p draw div fl_unit \<le> base" by simp
qed

text \<open>The double nearest to 0.20, the jitter fraction of the library's constants.\<close>

definition double_0_20 :: int where "double_0_20 = fl fl_unit 5"

lemma double_0_20_range: "0 \<le> double_0_20" "5 * double_0_20 \<le> fl_unit + 2 ^ 48"
proof -
  show "0 \<le> double_0_20" unfolding double_0_20_def by (rule fl_nonneg) simp_all
  have "2 ^ 53 * (double_0_20 * 5) \<le> fl_unit * (2 ^ 53 + 1) + 2 ^ 52 * 5"
    unfolding double_0_20_def by (rule fl_upper) simp_all
  then show "5 * double_0_20 \<le> fl_unit + 2 ^ 48" by simp
qed

lemma fifth_jitter_range:
  assumes "0 \<le> base" and "base \<le> 2 ^ 49" and "0 \<le> draw" and "draw < fl_unit"
  shows "0 \<le> fmul (fmul double_0_20 (fl (base * fl_unit) 1)) draw div fl_unit"
    and "5 * (fmul (fmul double_0_20 (fl (base * fl_unit) 1)) draw div fl_unit) \<le> base"
proof -
  let ?j = double_0_20 and ?a = "fl (base * fl_unit) 1"
  let ?p = "fmul ?j ?a"
  have a: "0 \<le> ?a" "2 ^ 53 * ?a \<le> base * fl_unit * (2 ^ 53 + 1) + 2 ^ 52"
    using assms(1) fl_nonneg [of 1 "base * fl_unit"] fl_upper [of 1 "base * fl_unit"] by simp_all
  have "2 ^ 53 * (?p * fl_unit) \<le> ?j * ?a * (2 ^ 53 + 1) + 2 ^ 52 * fl_unit"
    unfolding fmul_def using a(1) double_0_20_range(1) by (intro fl_upper) simp_all
  moreover have "5 * ?j * ?a \<le> (fl_unit + 2 ^ 48) * ?a"
    using double_0_20_range(2) a(1) by (intro mult_right_mono)
  ultimately have p: "2 ^ 53 * (5 * ?p * fl_unit) \<le> (fl_unit + 2 ^ 48) * ?a * (2 ^ 53 + 1) + 5 * 2 ^ 52 * fl_unit"
    by (simp add: algebra_simps)
  have p0: "0 \<le> ?p" unfolding fmul_def using a(1) double_0_20_range(1) by (intro fl_nonneg) simp_all
  have q: "0 \<le> fmul ?p draw" "2 ^ 53 * fmul ?p draw \<le> ?p * (2 ^ 53 + 1) + 2 ^ 52"
    using fmul_upper [OF p0 assms(3)] assms(4) by simp_all
  show "0 \<le> fmul ?p draw div fl_unit" using q(1) by (simp add: pos_imp_zdiv_nonneg_iff)
  have "5 * fmul ?p draw < (base + 1) * fl_unit"
    using a p q assms(1,2) by simp
  then have "fmul ?p draw * 5 < (base + 1) * fl_unit" by simp
  moreover have "(fmul ?p draw div fl_unit) * fl_unit \<le> fmul ?p draw"
    by (simp add: minus_mod_eq_div_mult [symmetric])
  ultimately have "(5 * (fmul ?p draw div fl_unit)) * fl_unit < (base + 1) * fl_unit" by linarith
  then have "5 * (fmul ?p draw div fl_unit) < base + 1" by simp
  then show "5 * (fmul ?p draw div fl_unit) \<le> base" by simp
qed

text \<open>The same with the draw multiplied by the fraction first.\<close>

lemma fifth_jitter_range_left:
  assumes "0 \<le> base" and "base \<le> 2 ^ 49" and "0 \<le> draw" and "draw < fl_unit"
  shows "0 \<le> fmul (fmul draw double_0_20) (fl (base * fl_unit) 1) div fl_unit"
    and "5 * (fmul (fmul draw double_0_20) (fl (base * fl_unit) 1) div fl_unit) \<le> base"
proof -
  let ?j = double_0_20 and ?a = "fl (base * fl_unit) 1"
  let ?y = "fmul draw ?j"
  let ?x = "fmul ?y ?a"
  have a: "0 \<le> ?a" "2 ^ 53 * ?a \<le> base * fl_unit * (2 ^ 53 + 1) + 2 ^ 52"
    using assms(1) fl_nonneg [of 1 "base * fl_unit"] fl_upper [of 1 "base * fl_unit"] by simp_all
  have "2 ^ 53 * ?y \<le> ?j * (2 ^ 53 + 1) + 2 ^ 52" and y0: "0 \<le> ?y"
    using fmul_upper [of ?j draw] double_0_20_range(1) assms(3,4) by (simp_all add: fmul_commute)
  then have y: "5 * ?y \<le> fl_unit + 2 ^ 49"
    using double_0_20_range(2) by simp
  have "2 ^ 53 * (?x * fl_unit) \<le> ?y * ?a * (2 ^ 53 + 1) + 2 ^ 52 * fl_unit"
    unfolding fmul_def [of ?y ?a] using a(1) y0 by (intro fl_upper) simp_all
  moreover have "5 * ?y * ?a \<le> (fl_unit + 2 ^ 49) * ?a" using y a(1) by (intro mult_right_mono)
  ultimately have x: "2 ^ 53 * (5 * ?x * fl_unit) \<le> (fl_unit + 2 ^ 49) * ?a * (2 ^ 53 + 1) + 5 * 2 ^ 52 * fl_unit"
    by (simp add: algebra_simps)
  have "0 \<le> ?x" unfolding fmul_def [of ?y ?a] using a(1) y0 by (intro fl_nonneg) simp_all
  then show "0 \<le> ?x div fl_unit" by (simp add: pos_imp_zdiv_nonneg_iff)
  have "5 * ?x < (base + 1) * fl_unit" using a x assms(1,2) by simp
  moreover have "(?x div fl_unit) * fl_unit \<le> ?x" by (simp add: minus_mod_eq_div_mult [symmetric])
  ultimately have "(5 * (?x div fl_unit)) * fl_unit < (base + 1) * fl_unit" by linarith
  then have "5 * (?x div fl_unit) < base + 1" by simp
  then show "5 * (?x div fl_unit) \<le> base" by simp
qed

end
