(* ===== verification/Postgres.thy ===== *)
theory Postgres
  imports Backend_Laws Floats
begin

text \<open>
  \<open>backend/postgres/postgres.go\<close>: the PostgreSQL backend.

  The table \<open>worklease_leases\<close> is an association list keyed by \<open>work_id\<close> (its primary
  key) of rows with the columns of \<open>schema.sql\<close>, SQL \<open>NULL\<close> being \<open>None\<close>;
  \<open>worklease_fencing_seq\<close> is the last value the sequence gave out. One function per SQL
  statement gives its effect at a given \<open>NOW()\<close>. A Go method runs its statements one after
  the other: each is atomic, but other sessions may commit between two of them
  (\<open>env_between\<close>), and each may fail at the driver, before or after taking effect
  (\<open>env_fault\<close>).

  \<open>pg_view\<close> reads a table row as a stored lease of the contract; the refinement to the
  contract is the interpretation \<open>pg\<close> at the end, for calls whose statements run
  undisturbed.
\<close>

section \<open>The table\<close>

record pg_row =
  pg_holder_id :: string
  pg_fencing_token :: int
  pg_expires_at :: instant
  pg_checkpoint :: bytes
  pg_exit_mode :: "string option"
  pg_prev_exit_mode :: string
  pg_prev_holder_id :: "string option"
  pg_acquired_at :: instant
  pg_updated_at :: instant

record pg_db =
  pg_rows :: "(string \<times> pg_row) list"
  pg_seq :: int

definition pg_empty :: pg_db where
  "pg_empty = \<lparr>pg_rows = [], pg_seq = 0\<rparr>"

text \<open>\<open>nextval\<close> on a \<open>BIGINT\<close> sequence fails at its maximum.\<close>

definition nextval :: "int \<Rightarrow> int option" where
  "nextval q = (if q < 2 ^ 63 - 1 then Some (q + 1) else None)"

definition ErrSequence :: gerror where
  "ErrSequence = ErrNew ''nextval: reached maximum value of sequence''"

section \<open>The statements\<close>

text \<open>Intervals are in microseconds.\<close>

definition interval :: "int \<Rightarrow> duration" where
  "interval us = us * microsecond"

text \<open>
  \<open>queryAcquire\<close>. The \<open>VALUES\<close> row draws a token first; when the work ID is taken the
  \<open>DO UPDATE\<close> applies only to an expired row and draws a second one; a held row returns no
  row, with the first token discarded.
\<close>

definition sql_acquire ::
  "instant \<Rightarrow> string \<Rightarrow> string \<Rightarrow> int \<Rightarrow> pg_db \<Rightarrow> pg_db \<times> (gerror + (int \<times> instant) option)" where
  "sql_acquire now workID holderID us db =
     (case nextval (pg_seq db) of
        None \<Rightarrow> (db, Inl ErrSequence)
      | Some tok \<Rightarrow>
          (case map_of (pg_rows db) workID of
             None \<Rightarrow>
               let r = \<lparr>pg_holder_id = holderID, pg_fencing_token = tok,
                        pg_expires_at = time_add now (interval us), pg_checkpoint = None,
                        pg_exit_mode = None, pg_prev_exit_mode = ''none'',
                        pg_prev_holder_id = None, pg_acquired_at = now, pg_updated_at = now\<rparr>
               in (\<lparr>pg_rows = AList.update workID r (pg_rows db), pg_seq = tok\<rparr>,
                   Inr (Some (tok, pg_expires_at r)))
           | Some old \<Rightarrow>
               if pg_expires_at old < now then
                 (case nextval tok of
                    None \<Rightarrow> (db\<lparr>pg_seq := tok\<rparr>, Inl ErrSequence)
                  | Some tok' \<Rightarrow>
                      let r = \<lparr>pg_holder_id = holderID, pg_fencing_token = tok',
                               pg_expires_at = time_add now (interval us),
                               pg_checkpoint = pg_checkpoint old, pg_exit_mode = None,
                               pg_prev_exit_mode =
                                 (case pg_exit_mode old of None \<Rightarrow> ''expired'' | Some m \<Rightarrow> m),
                               pg_prev_holder_id = Some (pg_holder_id old),
                               pg_acquired_at = now, pg_updated_at = now\<rparr>
                      in (\<lparr>pg_rows = AList.update workID r (pg_rows db), pg_seq = tok'\<rparr>,
                          Inr (Some (tok', pg_expires_at r))))
               else (db\<lparr>pg_seq := tok\<rparr>, Inr None)))"

text \<open>The condition on work ID, holder and token that the writing statements share.\<close>

definition pg_held_by :: "pg_row \<Rightarrow> lease_record \<Rightarrow> bool" where
  "pg_held_by r rec \<longleftrightarrow>
     pg_holder_id r = lr_holder rec \<and> pg_fencing_token r = uint (lr_token rec)"

text \<open>An \<open>UPDATE\<close> of the row of a work ID where a condition holds, with the rows affected.\<close>

definition sql_update ::
  "string \<Rightarrow> (pg_row \<Rightarrow> bool) \<Rightarrow> (pg_row \<Rightarrow> pg_row) \<Rightarrow> pg_db \<Rightarrow> pg_db \<times> nat" where
  "sql_update workID cond f db =
     (case map_of (pg_rows db) workID of
        None \<Rightarrow> (db, 0)
      | Some r \<Rightarrow>
          if cond r then (db\<lparr>pg_rows := AList.update workID (f r) (pg_rows db)\<rparr>, 1) else (db, 0))"

definition sql_checkpoint ::
  "instant \<Rightarrow> bytes \<Rightarrow> int \<Rightarrow> lease_record \<Rightarrow> pg_db \<Rightarrow> pg_db \<times> nat" where
  "sql_checkpoint now state us rec =
     sql_update (lr_work rec)
       (\<lambda>r. pg_held_by r rec \<and> pg_exit_mode r = None)
       (\<lambda>r. r\<lparr>pg_checkpoint := state, pg_expires_at := time_add now (interval us),
              pg_updated_at := now\<rparr>)"

definition sql_renew :: "instant \<Rightarrow> int \<Rightarrow> lease_record \<Rightarrow> pg_db \<Rightarrow> pg_db \<times> nat" where
  "sql_renew now us rec =
     sql_update (lr_work rec)
       (\<lambda>r. pg_held_by r rec \<and> now < pg_expires_at r)
       (\<lambda>r. r\<lparr>pg_expires_at := time_add now (interval us), pg_updated_at := now\<rparr>)"

definition sql_release :: "instant \<Rightarrow> string \<Rightarrow> lease_record \<Rightarrow> pg_db \<Rightarrow> pg_db \<times> nat" where
  "sql_release now mode rec =
     sql_update (lr_work rec)
       (\<lambda>r. pg_held_by r rec \<and> now < pg_expires_at r)
       (\<lambda>r. r\<lparr>pg_exit_mode := Some mode, pg_expires_at := time_add now (- millisecond),
              pg_updated_at := now\<rparr>)"

text \<open>\<open>queryRenewCheck\<close> and \<open>queryHolderCheck\<close>: the row, if the record still matches.\<close>

definition sql_holder_check :: "lease_record \<Rightarrow> pg_db \<Rightarrow> pg_row option" where
  "sql_holder_check rec db =
     (case map_of (pg_rows db) (lr_work rec) of
        None \<Rightarrow> None
      | Some r \<Rightarrow> if pg_held_by r rec then Some r else None)"

definition sql_read_checkpoint :: "string \<Rightarrow> pg_db \<Rightarrow> pg_row option" where
  "sql_read_checkpoint workID db = map_of (pg_rows db) workID"

definition sql_forget :: "lease_record \<Rightarrow> pg_db \<Rightarrow> pg_db \<times> nat" where
  "sql_forget rec db =
     (case map_of (pg_rows db) (lr_work rec) of
        None \<Rightarrow> (db, 0)
      | Some r \<Rightarrow>
          if pg_held_by r rec
          then (db\<lparr>pg_rows := AList.delete (lr_work rec) (pg_rows db)\<rparr>, 1) else (db, 0))"

definition sql_swept :: "instant \<Rightarrow> int \<Rightarrow> bool \<Rightarrow> pg_row \<Rightarrow> bool" where
  "sql_swept now us include_expired r \<longleftrightarrow>
     pg_updated_at r < time_add now (- interval us) \<and> pg_expires_at r < now \<and>
     (pg_exit_mode r = Some ''retired'' \<or> include_expired \<and> pg_exit_mode r = None)"

definition sql_sweep :: "instant \<Rightarrow> int \<Rightarrow> bool \<Rightarrow> pg_db \<Rightarrow> pg_db \<times> nat" where
  "sql_sweep now us include_expired db =
     (db\<lparr>pg_rows := filter (\<lambda>(w, r). \<not> sql_swept now us include_expired r) (pg_rows db)\<rparr>,
      length (filter (\<lambda>(w, r). sql_swept now us include_expired r) (pg_rows db)))"

section \<open>The Go methods\<close>

text \<open>\<open>formatInterval\<close>: whole microseconds, a positive remainder rounded up.\<close>

definition interval_us :: "duration \<Rightarrow> int" where
  "interval_us d =
     (let us = d sdiv microsecond
      in if 0 < d smod microsecond then us + 1 else us)"

definition show_int :: "int \<Rightarrow> string" where
  "show_int i = (if i < 0 then ''-'' @ itoa (nat (- i)) else itoa (nat i))"

definition formatInterval :: "duration \<Rightarrow> string" where
  "formatInterval d = show_int (interval_us d) @ '' microseconds''"

definition withCtxErr :: "ctx_err \<Rightarrow> gerror \<Rightarrow> gerror" where
  "withCtxErr c err =
     (case c of None \<Rightarrow> err | Some ctxErr \<Rightarrow> Wraps ''driver error (context error)'' [err, ctxErr])"

text \<open>
  What surrounds one method call: \<open>env_now k\<close> is \<open>NOW()\<close> in its \<open>k\<close>-th statement,
  \<open>env_fault k\<close> the error the driver reports for that statement, if any, with whether the
  statement took effect all the same, \<open>env_ctx k\<close> is \<open>ctx.Err()\<close> when that error is
  handled, and \<open>env_between\<close> what other sessions commit between the two statements.
\<close>

record pg_env =
  env_now :: "nat \<Rightarrow> instant"
  env_fault :: "nat \<Rightarrow> (gerror \<times> bool) option"
  env_ctx :: "nat \<Rightarrow> ctx_err"
  env_between :: "pg_db \<Rightarrow> pg_db"

definition pg_stmt ::
  "(gerror \<times> bool) option \<Rightarrow> (pg_db \<Rightarrow> pg_db \<times> 'r) \<Rightarrow> pg_db \<Rightarrow> pg_db \<times> (gerror + 'r)" where
  "pg_stmt fault q db =
     (case fault of
        None \<Rightarrow> (fst (q db), Inr (snd (q db)))
      | Some (e, applied) \<Rightarrow> (if applied then fst (q db) else db, Inl e))"

text \<open>\<open>QueryRow(...).Scan(...)\<close>: no row is the error \<open>sql.ErrNoRows\<close>.\<close>

definition scan :: "gerror + 'r option \<Rightarrow> gerror + 'r" where
  "scan r = (case r of Inl e \<Rightarrow> Inl e | Inr None \<Rightarrow> Inl SqlErrNoRows | Inr (Some x) \<Rightarrow> Inr x)"

definition pg_acquire ::
  "pg_env \<Rightarrow> pg_db \<Rightarrow> string \<Rightarrow> string \<Rightarrow> duration \<Rightarrow> pg_db \<times> (gerror + lease_record)" where
  "pg_acquire env db workID holderID ttl =
     (let (db', r) = pg_stmt (env_fault env 0)
            (sql_acquire (env_now env 0) workID holderID (interval_us ttl)) db
      in (db',
          case scan (case r of Inl e \<Rightarrow> Inl e | Inr x \<Rightarrow> x) of
            Inl e \<Rightarrow>
              if errors_is e SqlErrNoRows then Inl ErrLeaseHeld
              else Inl (Wrap ''postgres: Acquire: exec failed'' (withCtxErr (env_ctx env 0) e))
          | Inr (fencingToken, expiresAt) \<Rightarrow>
              Inr \<lparr>lr_work = workID, lr_holder = holderID,
                   lr_token = word_of_int fencingToken, lr_expires = expiresAt\<rparr>))"

text \<open>The zero-row classification shared by \<open>Checkpoint\<close>, \<open>Renew\<close> and \<open>Release\<close>.\<close>

definition pg_classify :: "pg_env \<Rightarrow> string \<Rightarrow> lease_record \<Rightarrow> pg_db \<Rightarrow> pg_db \<times> gerror option" where
  "pg_classify env msg rec db =
     (let (db', r) = pg_stmt (env_fault env 1) (\<lambda>d. (d, sql_holder_check rec d)) (env_between env db)
      in (db',
          case scan r of
            Inl e \<Rightarrow>
              if errors_is e SqlErrNoRows then Some ErrFenced
              else Some (Wrap msg (withCtxErr (env_ctx env 1) e))
          | Inr row \<Rightarrow> Some ErrLeaseExpired))"

definition pg_checkpoint_op ::
  "pg_env \<Rightarrow> pg_db \<Rightarrow> lease_record \<Rightarrow> bytes \<Rightarrow> duration \<Rightarrow> pg_db \<times> gerror option" where
  "pg_checkpoint_op env db rec state ttl =
     (let stateArg = (if 0 < slice_len state then state else None);
          (db', r) = pg_stmt (env_fault env 0)
            (sql_checkpoint (env_now env 0) stateArg (interval_us ttl) rec) db
      in case r of
           Inl e \<Rightarrow> (db', Some (Wrap ''postgres: Checkpoint'' (withCtxErr (env_ctx env 0) e)))
         | Inr n \<Rightarrow> if 0 < n then (db', None) else pg_classify env ''postgres: Checkpoint'' rec db')"

definition pg_renew ::
  "pg_env \<Rightarrow> pg_db \<Rightarrow> lease_record \<Rightarrow> duration \<Rightarrow> pg_db \<times> gerror option" where
  "pg_renew env db rec ttl =
     (let (db', r) = pg_stmt (env_fault env 0) (sql_renew (env_now env 0) (interval_us ttl) rec) db
      in case r of
           Inl e \<Rightarrow> (db', Some (Wrap ''postgres: Renew'' (withCtxErr (env_ctx env 0) e)))
         | Inr n \<Rightarrow> if n = 0 then pg_classify env ''postgres: Renew'' rec db' else (db', None))"

definition pg_release ::
  "pg_env \<Rightarrow> pg_db \<Rightarrow> lease_record \<Rightarrow> exit_mode \<Rightarrow> pg_db \<times> gerror option" where
  "pg_release env db rec mode =
     (if mode \<noteq> ExitFinished \<and> mode \<noteq> ExitAbandoned \<and> mode \<noteq> ExitRetired
      then (db, Some ErrInvalidExitMode)
      else
        let (db', r) = pg_stmt (env_fault env 0)
              (sql_release (env_now env 0) (exit_mode_string mode) rec) db
        in case r of
             Inl e \<Rightarrow> (db', Some (Wrap ''postgres: Release'' (withCtxErr (env_ctx env 0) e)))
           | Inr n \<Rightarrow> if 0 < n then (db', None) else pg_classify env ''postgres: Release'' rec db')"

text \<open>Unknown texts map to \<open>ExitExpired\<close>.\<close>

definition exitModeFromSQL :: "string \<Rightarrow> exit_mode" where
  "exitModeFromSQL s =
     (if s = exit_mode_string ExitNone then ExitNone
      else if s = exit_mode_string ExitFinished then ExitFinished
      else if s = exit_mode_string ExitAbandoned then ExitAbandoned
      else if s = exit_mode_string ExitRetired then ExitRetired
      else ExitExpired)"

definition pg_read_checkpoint ::
  "pg_env \<Rightarrow> pg_db \<Rightarrow> lease_record \<Rightarrow> pg_db \<times> (gerror + checkpoint)" where
  "pg_read_checkpoint env db rec =
     (let (db', r) = pg_stmt (env_fault env 0) (\<lambda>d. (d, sql_read_checkpoint (lr_work rec) d)) db
      in (db',
          case scan r of
            Inl e \<Rightarrow>
              if errors_is e SqlErrNoRows then Inl ErrFenced
              else Inl (Wrap ''postgres: ReadCheckpoint'' (withCtxErr (env_ctx env 0) e))
          | Inr row \<Rightarrow>
              if pg_fencing_token row \<noteq> uint (lr_token rec) then Inl ErrFenced
              else Inr \<lparr>cp_state = (if slice_len (pg_checkpoint row) = 0 then None
                                     else pg_checkpoint row),
                        cp_prev_exit = exitModeFromSQL (pg_prev_exit_mode row),
                        cp_prev_holder =
                          (case pg_prev_holder_id row of None \<Rightarrow> '''' | Some h \<Rightarrow> h)\<rparr>))"

definition pg_forget :: "pg_env \<Rightarrow> pg_db \<Rightarrow> lease_record \<Rightarrow> pg_db \<times> gerror option" where
  "pg_forget env db rec =
     (let (db', r) = pg_stmt (env_fault env 0) (sql_forget rec) db
      in (db',
          case r of
            Inl e \<Rightarrow> Some (Wrap ''postgres: Forget'' (withCtxErr (env_ctx env 0) e))
          | Inr n \<Rightarrow> if n = 0 then Some ErrFenced else None))"

definition pg_sweep :: "pg_env \<Rightarrow> pg_db \<Rightarrow> sweep_options \<Rightarrow> pg_db \<times> int \<times> gerror option" where
  "pg_sweep env db opts =
     (let (db', r) = pg_stmt (env_fault env 0)
            (sql_sweep (env_now env 0) (seconds_us (so_retention opts)) (so_include_expired opts)) db
      in case r of
           Inl e \<Rightarrow> (db', 0, Some (Wrap ''postgres: Sweep'' (withCtxErr (env_ctx env 0) e)))
         | Inr n \<Rightarrow> (db', int n, None))"

text \<open>
  The interface value: the statements of a call run undisturbed, and \<open>database/sql\<close> refuses
  a statement, with the context's error, when the context is done before it starts.
\<close>

definition pg_quiet :: "ctx_err \<Rightarrow> clock \<Rightarrow> pg_env" where
  "pg_quiet c clk =
     \<lparr>env_now = clk, env_fault = (\<lambda>_. map_option (\<lambda>e. (e, False)) c), env_ctx = (\<lambda>_. c),
      env_between = (\<lambda>db. db)\<rparr>"

definition postgres :: "pg_db backend" where
  "postgres =
     \<lparr>b_acquire = (\<lambda>c clk. pg_acquire (pg_quiet c clk)),
      b_checkpoint = (\<lambda>c clk. pg_checkpoint_op (pg_quiet c clk)),
      b_renew = (\<lambda>c clk. pg_renew (pg_quiet c clk)),
      b_release = (\<lambda>c clk. pg_release (pg_quiet c clk)),
      b_read_checkpoint = (\<lambda>c clk. pg_read_checkpoint (pg_quiet c clk)),
      b_forget = (\<lambda>c clk. pg_forget (pg_quiet c clk)),
      b_sweep = (\<lambda>c clk. pg_sweep (pg_quiet c clk))\<rparr>"

definition postgres_new :: "'d option \<Rightarrow> gerror + pg_db backend" where
  "postgres_new db = (case db of None \<Rightarrow> Inl (ErrNew ''postgres: db is required'') | Some d \<Rightarrow> Inr postgres)"

lemma postgres_sel [simp]:
  "b_acquire postgres c clk = pg_acquire (pg_quiet c clk)"
  "b_checkpoint postgres c clk = pg_checkpoint_op (pg_quiet c clk)"
  "b_renew postgres c clk = pg_renew (pg_quiet c clk)"
  "b_release postgres c clk = pg_release (pg_quiet c clk)"
  "b_read_checkpoint postgres c clk = pg_read_checkpoint (pg_quiet c clk)"
  "b_forget postgres c clk = pg_forget (pg_quiet c clk)"
  "b_sweep postgres c clk = pg_sweep (pg_quiet c clk)"
  by (simp_all add: postgres_def)

text \<open>
  The same methods in any surroundings: \<open>E\<close> gives, for the context and the clock of a call, the
  faults of its statements and what others commit between them. \<open>postgres\<close> is the case in which a
  statement fails only when its context is done, before it starts.
\<close>

definition postgres_in :: "(ctx_err \<Rightarrow> clock \<Rightarrow> pg_env) \<Rightarrow> pg_db backend" where
  "postgres_in E =
     \<lparr>b_acquire = (\<lambda>c clk. pg_acquire (E c clk)),
      b_checkpoint = (\<lambda>c clk. pg_checkpoint_op (E c clk)),
      b_renew = (\<lambda>c clk. pg_renew (E c clk)),
      b_release = (\<lambda>c clk. pg_release (E c clk)),
      b_read_checkpoint = (\<lambda>c clk. pg_read_checkpoint (E c clk)),
      b_forget = (\<lambda>c clk. pg_forget (E c clk)),
      b_sweep = (\<lambda>c clk. pg_sweep (E c clk))\<rparr>"

lemma postgres_in_sel [simp]:
  "b_acquire (postgres_in E) c clk = pg_acquire (E c clk)"
  "b_checkpoint (postgres_in E) c clk = pg_checkpoint_op (E c clk)"
  "b_renew (postgres_in E) c clk = pg_renew (E c clk)"
  "b_release (postgres_in E) c clk = pg_release (E c clk)"
  "b_read_checkpoint (postgres_in E) c clk = pg_read_checkpoint (E c clk)"
  "b_forget (postgres_in E) c clk = pg_forget (E c clk)"
  "b_sweep (postgres_in E) c clk = pg_sweep (E c clk)"
  by (simp_all add: postgres_in_def)

lemma postgres_quiet: "postgres = postgres_in pg_quiet"
  by (simp add: postgres_def postgres_in_def)

section \<open>Intervals and exit mode texts\<close>

lemma smod_microsecond: "- microsecond < d smod microsecond" "d smod microsecond < microsecond"
  using smod_int_range [of microsecond d] by auto

lemma interval_us_bounds: "d \<le> interval (interval_us d) \<and> interval (interval_us d) < d + microsecond"
proof -
  have "d = d sdiv microsecond * microsecond + d smod microsecond"
    by (rule sdiv_mult_smod_eq [symmetric])
  then show ?thesis
    using smod_microsecond [of d] unfolding interval_def interval_us_def Let_def
    by (auto simp: algebra_simps)
qed

lemma exit_mode_string_known [simp]:
  "exit_mode_string ExitNone = ''none''" "exit_mode_string ExitFinished = ''finished''"
  "exit_mode_string ExitAbandoned = ''abandoned''" "exit_mode_string ExitRetired = ''retired''"
  "exit_mode_string ExitExpired = ''expired''"
  by (simp_all add: exit_mode_string_def)

lemma exitModeFromSQL_known [simp]:
  "exitModeFromSQL ''none'' = ExitNone" "exitModeFromSQL ''finished'' = ExitFinished"
  "exitModeFromSQL ''abandoned'' = ExitAbandoned" "exitModeFromSQL ''retired'' = ExitRetired"
  "exitModeFromSQL ''expired'' = ExitExpired"
  by (simp_all add: exitModeFromSQL_def)

section \<open>The stored leases of the table\<close>

definition pg_row_view :: "pg_row \<Rightarrow> row" where
  "pg_row_view r =
     \<lparr>row_holder = pg_holder_id r, row_token = word_of_int (pg_fencing_token r),
      row_expires = pg_expires_at r, row_checkpoint = normalize_state (pg_checkpoint r),
      row_exit = (case pg_exit_mode r of None \<Rightarrow> ExitNone | Some m \<Rightarrow> exitModeFromSQL m),
      row_prev_exit = exitModeFromSQL (pg_prev_exit_mode r),
      row_prev_holder = (case pg_prev_holder_id r of None \<Rightarrow> '''' | Some h \<Rightarrow> h),
      row_updated = pg_updated_at r\<rparr>"

definition pg_view :: "pg_db \<Rightarrow> string \<Rightarrow> row option" where
  "pg_view db w = map_option pg_row_view (map_of (pg_rows db) w)"

text \<open>What the schema's constraints and the sequence keep true of a row.\<close>

definition pg_row_ok :: "int \<Rightarrow> pg_row \<Rightarrow> bool" where
  "pg_row_ok q r \<longleftrightarrow> 0 < pg_fencing_token r \<and> pg_fencing_token r \<le> q \<and>
     pg_exit_mode r \<in> {None, Some ''finished'', Some ''abandoned'', Some ''retired''} \<and>
     pg_prev_exit_mode r \<in> {''none'', ''expired'', ''finished'', ''abandoned'', ''retired''}"

definition pg_inv :: "pg_db \<Rightarrow> bool" where
  "pg_inv db \<longleftrightarrow> distinct (map fst (pg_rows db)) \<and> 0 \<le> pg_seq db \<and> pg_seq db < 2 ^ 63 \<and>
     list_all (\<lambda>(w, r). pg_row_ok (pg_seq db) r) (pg_rows db)"

definition pg_issued :: "pg_db \<Rightarrow> nat" where
  "pg_issued db = nat (pg_seq db)"

lemma pg_inv_empty: "pg_inv pg_empty"
  by (simp add: pg_inv_def pg_empty_def)

lemma pg_inv_lookup:
  "pg_inv db \<Longrightarrow> map_of (pg_rows db) w = Some r \<Longrightarrow>
   pg_row_ok (pg_seq db) r \<and> pg_fencing_token r < 2 ^ 63"
  by (auto simp: pg_inv_def list_all_iff pg_row_ok_def dest!: map_of_SomeD)

lemma pg_row_ok_mono: "pg_row_ok q r \<Longrightarrow> q \<le> q' \<Longrightarrow> pg_row_ok q' r"
  by (auto simp: pg_row_ok_def)

lemma pg_inv_update:
  assumes "pg_inv db" and "pg_seq db \<le> q" and "q < 2 ^ 63" and "pg_row_ok q r"
  shows "pg_inv \<lparr>pg_rows = AList.update w r (pg_rows db), pg_seq = q\<rparr>"
  using assms
  by (auto simp: pg_inv_def list_all_iff distinct_update dest!: set_update_cases
      intro: pg_row_ok_mono)

lemma pg_inv_update_rows:
  "pg_inv db \<Longrightarrow> pg_row_ok (pg_seq db) r \<Longrightarrow>
   pg_inv (db\<lparr>pg_rows := AList.update w r (pg_rows db)\<rparr>)"
  using pg_inv_update [of db "pg_seq db" r w] by (cases db) (auto simp: pg_inv_def)

lemma pg_inv_filter: "pg_inv db \<Longrightarrow> pg_inv (db\<lparr>pg_rows := filter P (pg_rows db)\<rparr>)"
  by (auto simp: pg_inv_def list_all_iff intro: distinct_fst_filter)

lemma pg_inv_delete: "pg_inv db \<Longrightarrow> pg_inv (db\<lparr>pg_rows := AList.delete w (pg_rows db)\<rparr>)"
  by (simp add: AList.delete_eq pg_inv_filter)

lemma pg_inv_seq:
  "pg_inv db \<Longrightarrow> pg_seq db \<le> q \<Longrightarrow> q < 2 ^ 63 \<Longrightarrow> pg_inv (db\<lparr>pg_seq := q\<rparr>)"
  by (auto simp: pg_inv_def list_all_iff intro: pg_row_ok_mono)

lemma pg_view_update [simp]:
  "pg_view \<lparr>pg_rows = AList.update w r (pg_rows db), pg_seq = q\<rparr> = (pg_view db)(w \<mapsto> pg_row_view r)"
  "pg_view (db\<lparr>pg_rows := AList.update w r (pg_rows db)\<rparr>) = (pg_view db)(w \<mapsto> pg_row_view r)"
  "pg_view (db\<lparr>pg_rows := AList.delete w (pg_rows db)\<rparr>) = (pg_view db)(w := None)"
  "pg_view (db\<lparr>pg_seq := q\<rparr>) = pg_view db"
  by (auto simp: pg_view_def fun_eq_iff)

lemma pg_view_nil: "pg_view \<lparr>pg_rows = [], pg_seq = q\<rparr> = Map.empty"
  by (simp add: pg_view_def fun_eq_iff)

lemma pg_issued_update [simp]: "pg_issued (db\<lparr>pg_rows := rs\<rparr>) = pg_issued db"
  by (simp add: pg_issued_def)

lemma pg_viewD: "pg_view db w = Some r \<Longrightarrow> \<exists>p. map_of (pg_rows db) w = Some p \<and> r = pg_row_view p"
  by (auto simp: pg_view_def)

lemma token_word:
  assumes "0 \<le> t" and "t < 2 ^ 63"
  shows "word_of_int t = (w :: u64) \<longleftrightarrow> t = uint w" and "unat (word_of_int t :: u64) = nat t"
proof -
  have "uint (word_of_int t :: u64) = t" using assms by (simp add: uint_word_of_int)
  then show "word_of_int t = w \<longleftrightarrow> t = uint w" and "unat (word_of_int t :: u64) = nat t"
    by (auto simp: unat_eq_nat_uint)
qed

lemma pg_held_by_view:
  assumes "pg_inv db" and "map_of (pg_rows db) w = Some r"
  shows "held_by (pg_row_view r) rec \<longleftrightarrow> pg_held_by r rec"
    and "row_token (pg_row_view r) = lr_token rec \<longleftrightarrow> pg_fencing_token r = uint (lr_token rec)"
  using pg_inv_lookup [OF assms]
  by (auto simp: held_by_def pg_held_by_def pg_row_view_def pg_row_ok_def token_word)

lemma pg_row_view_sel [simp]:
  "row_holder (pg_row_view r) = pg_holder_id r"
  "row_expires (pg_row_view r) = pg_expires_at r"
  "row_updated (pg_row_view r) = pg_updated_at r"
  by (simp_all add: pg_row_view_def)

lemma pg_exit_view:
  assumes "pg_row_ok q r"
  shows "row_exit (pg_row_view r) = ExitNone \<longleftrightarrow> pg_exit_mode r = None"
    and "row_exit (pg_row_view r) = ExitRetired \<longleftrightarrow> pg_exit_mode r = Some ''retired''"
  using assms by (auto simp: pg_row_ok_def pg_row_view_def)

section \<open>The PostgreSQL backend meets the contract\<close>

lemma pg_quiet_sel [simp]:
  "env_now (pg_quiet c clk) = clk" "env_fault (pg_quiet c clk) k = map_option (\<lambda>e. (e, False)) c"
  "env_ctx (pg_quiet c clk) k = c" "env_between (pg_quiet c clk) db = db"
  by (simp_all add: pg_quiet_def)

lemma pg_stmt_simps [simp]:
  "pg_stmt None q db = (fst (q db), Inr (snd (q db)))"
  "pg_stmt (Some (e, True)) q db = (fst (q db), Inl e)"
  "pg_stmt (Some (e, False)) q db = (db, Inl e)"
  by (simp_all add: pg_stmt_def)

lemma scan_simps [simp]:
  "scan (Inl e) = Inl e" "scan (Inr None) = Inl SqlErrNoRows" "scan (Inr (Some x)) = Inr x"
  by (simp_all add: scan_def)

lemma errors_is_ctx [simp]: "errors_is (withCtxErr (Some e) e') e"
  by (simp add: withCtxErr_def)

lemmas pg_sql_defs =
  sql_update_def sql_checkpoint_def sql_renew_def sql_release_def sql_forget_def
  sql_holder_check_def sql_read_checkpoint_def pg_classify_def

lemmas pg_op_defs =
  pg_checkpoint_op_def pg_renew_def pg_release_def pg_read_checkpoint_def pg_forget_def

text \<open>The record no longer matches: no statement touches a row.\<close>

lemma pg_not_held:
  assumes "pg_inv db" and "\<not> (\<exists>r. pg_view db (lr_work rec) = Some r \<and> held_by r rec)"
  shows "case map_of (pg_rows db) (lr_work rec) of None \<Rightarrow> True | Some p \<Rightarrow> \<not> pg_held_by p rec"
  using assms by (auto simp: pg_view_def pg_held_by_view split: option.split)

lemma pg_held:
  assumes "pg_inv db" and "pg_view db (lr_work rec) = Some r" and "held_by r rec"
  obtains p where "map_of (pg_rows db) (lr_work rec) = Some p" "r = pg_row_view p"
    "pg_held_by p rec" "pg_row_ok (pg_seq db) p"
  using assms pg_held_by_view pg_inv_lookup pg_viewD by metis

lemma nextval_room:
  "pg_inv db \<Longrightarrow> pg_issued db < token_limit \<Longrightarrow>
   nextval (pg_seq db) = Some (pg_seq db + 1) \<and> nextval (pg_seq db + 1) = Some (pg_seq db + 2) \<and>
   pg_seq db + 2 < 2 ^ 63 \<and> 0 \<le> pg_seq db"
  by (simp add: nextval_def pg_inv_def pg_issued_def token_limit_def)

lemma during_interval:
  "mono clk \<Longrightarrow> during clk d (time_add (clk 0) (interval (interval_us d)))"
  "mono clk \<Longrightarrow> during clk 0 (clk 0)"
  using interval_us_bounds [of d] clock_mono [of clk 0 2] by (auto simp: during_def)

lemma pg_row_view_fresh [simp]:
  "pg_row_view \<lparr>pg_holder_id = h, pg_fencing_token = t, pg_expires_at = e, pg_checkpoint = None,
      pg_exit_mode = None, pg_prev_exit_mode = ''none'', pg_prev_holder_id = None,
      pg_acquired_at = u, pg_updated_at = u\<rparr> = successor_row None h (word_of_int t) e u"
  by (simp add: pg_row_view_def successor_row_def)

lemma pg_row_view_taken:
  assumes "pg_row_ok q old"
  shows "pg_row_view \<lparr>pg_holder_id = h, pg_fencing_token = t, pg_expires_at = e,
      pg_checkpoint = pg_checkpoint old, pg_exit_mode = None,
      pg_prev_exit_mode = (case pg_exit_mode old of None \<Rightarrow> ''expired'' | Some m \<Rightarrow> m),
      pg_prev_holder_id = Some (pg_holder_id old), pg_acquired_at = u, pg_updated_at = u\<rparr> =
    successor_row (Some (pg_row_view old)) h (word_of_int t) e u"
  using assms by (auto simp: pg_row_view_def successor_row_def pg_row_ok_def)

lemma pg_acquire_free:
  assumes inv: "pg_inv db"
    and free: "\<And>r. pg_view db w = Some r \<Longrightarrow> row_expires r < clk 0"
    and room: "pg_issued db < token_limit"
  shows "\<exists>s' tok e u. pg_acquire (pg_quiet None clk) db w h ttl =
           (s', Inr \<lparr>lr_work = w, lr_holder = h, lr_token = tok, lr_expires = e\<rparr>) \<and>
         pg_view s' = (pg_view db)(w \<mapsto> successor_row (pg_view db w) h tok e u) \<and> pg_inv s' \<and>
         pg_issued db < unat tok \<and> pg_issued s' = unat tok \<and> pg_issued s' \<le> pg_issued db + 2 \<and>
         (mono clk \<longrightarrow> during clk ttl e \<and> during clk 0 u)"
proof (cases "map_of (pg_rows db) w")
  case None
  note nv = nextval_room [OF inv room]
  have tok: "unat (word_of_int (pg_seq db + 1) :: u64) = nat (pg_seq db + 1)"
    using nv by (intro token_word(2)) auto
  have "pg_inv \<lparr>pg_rows = AList.update w \<lparr>pg_holder_id = h, pg_fencing_token = pg_seq db + 1,
      pg_expires_at = time_add (clk 0) (interval (interval_us ttl)), pg_checkpoint = None,
      pg_exit_mode = None, pg_prev_exit_mode = ''none'', pg_prev_holder_id = None,
      pg_acquired_at = clk 0, pg_updated_at = clk 0\<rparr> (pg_rows db), pg_seq = pg_seq db + 1\<rparr>"
    using nv by (intro pg_inv_update [OF inv]) (auto simp: pg_row_ok_def)
  then show ?thesis
    using None nv tok during_interval(1) [of clk ttl] during_interval(2) [of clk]
    by (auto simp: pg_acquire_def sql_acquire_def Let_def pg_view_def [of db] pg_issued_def)
next
  case (Some old)
  note nv = nextval_room [OF inv room]
  have tok: "unat (word_of_int (pg_seq db + 2) :: u64) = nat (pg_seq db + 2)"
    using nv by (intro token_word(2)) auto
  have ok: "pg_row_ok (pg_seq db) old" using pg_inv_lookup [OF inv Some] by blast
  have exp: "pg_expires_at old < clk 0" using free Some by (simp add: pg_view_def)
  have "pg_inv \<lparr>pg_rows = AList.update w \<lparr>pg_holder_id = h, pg_fencing_token = pg_seq db + 2,
      pg_expires_at = time_add (clk 0) (interval (interval_us ttl)),
      pg_checkpoint = pg_checkpoint old, pg_exit_mode = None,
      pg_prev_exit_mode = (case pg_exit_mode old of None \<Rightarrow> ''expired'' | Some m \<Rightarrow> m),
      pg_prev_holder_id = Some (pg_holder_id old), pg_acquired_at = clk 0,
      pg_updated_at = clk 0\<rparr> (pg_rows db), pg_seq = pg_seq db + 2\<rparr>"
    using nv ok by (intro pg_inv_update [OF inv]) (auto simp: pg_row_ok_def)
  then show ?thesis
    using Some nv tok exp during_interval(1) [of clk ttl] during_interval(2) [of clk]
    by (auto simp: pg_acquire_def sql_acquire_def Let_def pg_view_def [of db] pg_issued_def
        pg_row_view_taken [OF ok] )
qed

lemma pg_state_arg [simp]: "(if 0 < slice_len st then st else None) = normalize_state st"
  by (simp add: normalize_state_def)

lemma pg_row_view_writes [simp]:
  "pg_row_view (p\<lparr>pg_checkpoint := normalize_state st\<rparr>) =
    (pg_row_view p)\<lparr>row_checkpoint := normalize_state st\<rparr>"
  "pg_row_view (p\<lparr>pg_expires_at := e\<rparr>) = (pg_row_view p)\<lparr>row_expires := e\<rparr>"
  "pg_row_view (p\<lparr>pg_updated_at := u\<rparr>) = (pg_row_view p)\<lparr>row_updated := u\<rparr>"
  by (simp_all add: pg_row_view_def)

lemma pg_row_view_release:
  "declarable m \<Longrightarrow>
   pg_row_view (p\<lparr>pg_exit_mode := Some (exit_mode_string m)\<rparr>) = (pg_row_view p)\<lparr>row_exit := m\<rparr>"
  by (auto simp: pg_row_view_def declarable_iff)

lemma pg_row_ok_writes [simp]:
  "pg_row_ok q (p\<lparr>pg_checkpoint := st\<rparr>) = pg_row_ok q p"
  "pg_row_ok q (p\<lparr>pg_expires_at := e\<rparr>) = pg_row_ok q p"
  "pg_row_ok q (p\<lparr>pg_updated_at := u\<rparr>) = pg_row_ok q p"
  by (simp_all add: pg_row_ok_def)

lemma pg_checkpoint_ok:
  assumes "pg_inv db" "pg_view db (lr_work rec) = Some r" "held_by r rec" "row_exit r = ExitNone"
  shows "\<exists>s' e u. pg_checkpoint_op (pg_quiet None clk) db rec st ttl = (s', None) \<and>
     pg_view s' = (pg_view db)(lr_work rec \<mapsto>
       r\<lparr>row_checkpoint := normalize_state st, row_expires := e, row_updated := u\<rparr>) \<and>
     pg_inv s' \<and> pg_issued s' = pg_issued db \<and> (mono clk \<longrightarrow> during clk ttl e \<and> during clk 0 u)"
proof -
  obtain p where p: "map_of (pg_rows db) (lr_work rec) = Some p" "r = pg_row_view p"
    "pg_held_by p rec" "pg_row_ok (pg_seq db) p"
    by (rule pg_held [OF assms(1-3)])
  then show ?thesis
    using assms(4) during_interval(1) [of clk ttl] during_interval(2) [of clk]
    by (intro ex3I [where b = "time_add (clk 0) (interval (interval_us ttl))" and c = "clk 0"])
       (auto simp: pg_checkpoint_op_def pg_sql_defs pg_exit_view pg_inv_update_rows [OF assms(1)])
qed

lemma pg_renew_ok:
  assumes "pg_inv db" "pg_view db (lr_work rec) = Some r" "held_by r rec" "clk 0 < row_expires r"
  shows "\<exists>s' e u. pg_renew (pg_quiet None clk) db rec ttl = (s', None) \<and>
     pg_view s' = (pg_view db)(lr_work rec \<mapsto> r\<lparr>row_expires := e, row_updated := u\<rparr>) \<and>
     pg_inv s' \<and> pg_issued s' = pg_issued db \<and> (mono clk \<longrightarrow> during clk ttl e \<and> during clk 0 u)"
proof -
  obtain p where p: "map_of (pg_rows db) (lr_work rec) = Some p" "r = pg_row_view p"
    "pg_held_by p rec" "pg_row_ok (pg_seq db) p"
    by (rule pg_held [OF assms(1-3)])
  then show ?thesis
    using assms(4) during_interval(1) [of clk ttl] during_interval(2) [of clk]
    by (intro ex3I [where b = "time_add (clk 0) (interval (interval_us ttl))" and c = "clk 0"])
       (auto simp: pg_renew_def pg_sql_defs pg_inv_update_rows [OF assms(1)])
qed

lemma pg_release_ok:
  assumes "pg_inv db" "declarable m" "pg_view db (lr_work rec) = Some r" "held_by r rec"
    "clk 0 < row_expires r"
  shows "\<exists>s' e u. pg_release (pg_quiet None clk) db rec m = (s', None) \<and>
     pg_view s' = (pg_view db)(lr_work rec \<mapsto>
       r\<lparr>row_exit := m, row_expires := e, row_updated := u\<rparr>) \<and>
     pg_inv s' \<and> pg_issued s' = pg_issued db \<and> (mono clk \<longrightarrow> e < clk 2 \<and> during clk 0 u)"
proof -
  obtain p where p: "map_of (pg_rows db) (lr_work rec) = Some p" "r = pg_row_view p"
    "pg_held_by p rec" "pg_row_ok (pg_seq db) p"
    by (rule pg_held [OF assms(1,3,4)])
  let ?p = "p\<lparr>pg_exit_mode := Some (exit_mode_string m),
    pg_expires_at := time_add (clk 0) (- millisecond), pg_updated_at := clk 0\<rparr>"
  have "pg_row_ok (pg_seq db) ?p" using p(4) assms(2) by (auto simp: pg_row_ok_def declarable_iff)
  then have "pg_inv (db\<lparr>pg_rows := AList.update (lr_work rec) ?p (pg_rows db)\<rparr>)"
    by (rule pg_inv_update_rows [OF assms(1)])
  moreover have "mono clk \<longrightarrow> time_add (clk 0) (- millisecond) < clk 2"
    using clock_mono [of clk 0 2] by (auto simp: time_simps)
  moreover have "pg_release (pg_quiet None clk) db rec m =
      (db\<lparr>pg_rows := AList.update (lr_work rec) ?p (pg_rows db)\<rparr>, None)"
    using p assms(2,5) by (auto simp: pg_release_def pg_sql_defs declarable_def)
  ultimately show ?thesis
    using p(2) during_interval(2) [of clk] pg_row_view_release [OF assms(2)]
    by (intro ex3I [where b = "time_add (clk 0) (- millisecond)" and c = "clk 0"]) auto
qed

lemma pg_view_filter:
  assumes "pg_inv db"
  shows "pg_view (db\<lparr>pg_rows := filter (\<lambda>(w, r). \<not> P r) (pg_rows db)\<rparr>) w =
    (case map_of (pg_rows db) w of None \<Rightarrow> None
     | Some r \<Rightarrow> if P r then None else Some (pg_row_view r))"
  using assms by (auto simp: pg_view_def pg_inv_def map_of_filter_distinct split: option.split)

lemma pg_sweep_count:
  fixes P :: "pg_row \<Rightarrow> bool"
  assumes "pg_inv db" and db': "db' = db\<lparr>pg_rows := filter (\<lambda>(w, r). \<not> P r) (pg_rows db)\<rparr>"
  shows "length (filter (\<lambda>(w, r). P r) (pg_rows db)) = card (dom (pg_view db) - dom (pg_view db'))"
proof -
  have "dom (pg_view db) - dom (pg_view db') = dom (map_of (filter (\<lambda>(w, r). P r) (pg_rows db)))"
    using assms(1) pg_view_filter [OF assms(1), of P]
    by (auto simp: db' pg_view_def [of db] pg_inv_def map_of_filter_distinct
        simp del: map_of_eq_Some_iff Some_eq_map_of_iff split: option.splits if_splits)
  moreover have "distinct (map fst (filter (\<lambda>(w, r). P r) (pg_rows db)))"
    using assms(1) by (auto simp: pg_inv_def intro: distinct_fst_filter)
  ultimately show ?thesis by (simp add: card_dom_map_of)
qed

lemma sql_swept_view:
  assumes "pg_row_ok q r"
  shows "sql_swept now us inc r \<longleftrightarrow>
    interval us < ns now - ns (pg_updated_at r) \<and>
    sweepable now \<lparr>so_retention = d, so_include_expired = inc\<rparr> (pg_row_view r)"
  using assms by (auto simp: sql_swept_def sweepable_def pg_exit_view time_simps)

lemma pg_sweep_ok:
  assumes inv: "pg_inv db" and ret: "is_int64 (so_retention opts)"
  shows "\<exists>s' n. pg_sweep (pg_quiet None clk) db opts = (s', n, None) \<and> pg_inv s' \<and>
     pg_issued s' = pg_issued db \<and> n = int (card (dom (pg_view db) - dom (pg_view s'))) \<and>
     (\<forall>w. pg_view s' w = pg_view db w \<or> pg_view s' w = None) \<and>
     (\<forall>w r. pg_view db w = Some r \<longrightarrow> pg_view s' w = None \<longrightarrow>
        sweepable (clk 0) opts r \<and>
        so_retention opts - sweep_slack < ns (clk 0) - ns (row_updated r)) \<and>
     (\<forall>w r. pg_view db w = Some r \<longrightarrow> sweepable (clk 0) opts r \<longrightarrow>
        so_retention opts + sweep_slack < ns (clk 0) - ns (row_updated r) \<longrightarrow>
        so_retention opts < 2 ^ 63 - 1 \<longrightarrow> pg_view s' w = None)"
proof -
  let ?P = "sql_swept (clk 0) (seconds_us (so_retention opts)) (so_include_expired opts)"
  let ?s = "db\<lparr>pg_rows := filter (\<lambda>(w, r). \<not> ?P r) (pg_rows db)\<rparr>"
  have sw: "pg_sweep (pg_quiet None clk) db opts =
      (?s, int (card (dom (pg_view db) - dom (pg_view ?s))), None)"
    using pg_sweep_count [OF inv refl, of ?P] by (simp add: pg_sweep_def sql_sweep_def)
  have iff: "?P p \<longleftrightarrow> interval (seconds_us (so_retention opts)) < ns (clk 0) - ns (pg_updated_at p) \<and>
      sweepable (clk 0) opts (pg_row_view p)" if "map_of (pg_rows db) w = Some p" for w p
    using sql_swept_view [of "pg_seq db" p] pg_inv_lookup [OF inv that] by (cases opts) auto
  have err: "so_retention opts - sweep_slack < interval (seconds_us (so_retention opts))"
    "interval (seconds_us (so_retention opts)) < so_retention opts + sweep_slack"
    using seconds_us_error [OF ret] by (auto simp: interval_def)
  note view = pg_view_filter [OF inv, of ?P]
  show ?thesis
  proof (intro exI conjI allI impI, rule sw)
    show "pg_inv ?s" by (rule pg_inv_filter [OF inv])
    show "pg_view ?s w = pg_view db w \<or> pg_view ?s w = None" for w
      by (auto simp: view pg_view_def [of db] split: option.split)
  qed (use err iff view in \<open>auto simp: pg_view_def [of db] split: option.splits if_splits\<close>)
qed

lemma pg_view_finite: "finite (dom (pg_view db))"
proof -
  have "dom (pg_view db) = dom (map_of (pg_rows db))" by (auto simp: pg_view_def)
  then show ?thesis by (simp add: finite_dom_map_of)
qed

lemma pg_token_issued:
  assumes "pg_inv db" and "pg_view db w = Some r"
  shows "unat (row_token r) \<le> pg_issued db"
proof -
  obtain p where p: "map_of (pg_rows db) w = Some p" "r = pg_row_view p"
    using pg_viewD [OF assms(2)] by blast
  then show ?thesis
    using pg_inv_lookup [OF assms(1) p(1)]
    by (simp add: pg_row_view_def pg_row_ok_def token_word pg_issued_def nat_mono)
qed

lemma pg_unheld:
  assumes "pg_inv db" and "\<not> (\<exists>r. pg_view db (lr_work rec) = Some r \<and> held_by r rec)"
  shows "sql_checkpoint now st us rec db = (db, 0)" "sql_renew now us rec db = (db, 0)"
    "sql_release now mode rec db = (db, 0)" "sql_forget rec db = (db, 0)"
    "sql_holder_check rec db = None"
  using pg_not_held [OF assms] by (auto simp: pg_sql_defs split: option.splits)

lemma pg_classify_held:
  assumes "pg_inv db" and "pg_view db (lr_work rec) = Some r" and "held_by r rec"
  shows "pg_classify (pg_quiet None clk) msg rec db = (db, Some ErrLeaseExpired)"
proof -
  obtain p where "map_of (pg_rows db) (lr_work rec) = Some p" "pg_held_by p rec"
    by (rule pg_held [OF assms])
  then show ?thesis by (simp add: pg_classify_def sql_holder_check_def)
qed

text \<open>A held row whose guard fails is not updated.\<close>

lemma pg_held_stuck:
  assumes "pg_inv db" and "pg_view db (lr_work rec) = Some r" and "held_by r rec"
  shows "row_exit r \<noteq> ExitNone \<Longrightarrow> sql_checkpoint now st us rec db = (db, 0)"
    and "row_expires r \<le> now \<Longrightarrow> sql_renew now us rec db = (db, 0)"
    and "row_expires r \<le> now \<Longrightarrow> sql_release now mode rec db = (db, 0)"
  by (rule pg_held [OF assms]; simp add: pg_sql_defs pg_exit_view)+

interpretation pg: lease_backend postgres pg_view pg_inv pg_issued
proof (unfold_locales, unfold postgres_sel, goal_cases)
  case (1 s) show ?case by (rule pg_view_finite)
next
  case (2 s w r) then show ?case by (rule pg_token_issued)
next
  case (3 s w r clk h ttl)
  then show ?case
    using nextval_room [OF 3(1,4)] pg_inv_seq [OF 3(1), of "pg_seq s + 1"]
    by (auto simp: pg_acquire_def sql_acquire_def pg_view_def [of s] pg_issued_def not_less)
next
  case (4 s w clk h ttl) then show ?case by (intro pg_acquire_free)
next
  case (6 s rec r clk st ttl) then show ?case
    by (simp add: pg_checkpoint_op_def pg_held_stuck pg_classify_held)
next
  case (7 s rec r clk st ttl) then show ?case by (intro pg_checkpoint_ok)
next
  case (9 s rec r clk ttl) then show ?case
    by (simp add: pg_renew_def pg_held_stuck pg_classify_held)
next
  case (10 s rec r clk ttl) then show ?case by (intro pg_renew_ok)
next
  case (13 s m rec r clk) then show ?case
    by (auto simp: pg_release_def pg_held_stuck pg_classify_held declarable_def)
next
  case (14 s m rec r clk) then show ?case by (intro pg_release_ok)
next
  case (15 s rec clk) then show ?case
    by (cases "map_of (pg_rows s) (lr_work rec)")
       (auto simp: pg_read_checkpoint_def sql_read_checkpoint_def pg_view_def pg_held_by_view)
next
  case (16 s rec r clk)
  then obtain p where p: "map_of (pg_rows s) (lr_work rec) = Some p" "r = pg_row_view p"
    "pg_fencing_token p = uint (lr_token rec)"
    using pg_held_by_view(2) [OF 16(1)] pg_viewD by metis
  then show ?case
    by (simp add: pg_read_checkpoint_def sql_read_checkpoint_def pg_row_view_def normalize_state_def)
next
  case (18 s rec r clk) then show ?case
    by (rule_tac pg_held [OF 18]) (auto simp: pg_forget_def sql_forget_def pg_inv_delete)
next
  case (19 s opts clk) then show ?case by (intro pg_sweep_ok)
next
  case (20 e clk s w h ttl) show ?case by (auto simp: pg_acquire_def ctx_error_def)
qed (auto simp: pg_op_defs pg_unheld pg_classify_def declarable_def pg_sweep_def ctx_error_def)

section \<open>Properties\<close>

text \<open>The table of the witnesses: one row, as \<open>Acquire\<close> writes it.\<close>

definition ex_pg :: pg_db where
  "ex_pg = fst (pg_acquire (pg_quiet None (\<lambda>_. At 0)) pg_empty ''w'' ''a'' 10000)"

definition ex_pg_rec :: "string \<Rightarrow> u64 \<Rightarrow> lease_record" where
  "ex_pg_rec h t = \<lparr>lr_work = ''w'', lr_holder = h, lr_token = t, lr_expires = At 10000\<rparr>"

lemma interval_us_examples [simp]: "interval_us 10000 = 10"
  by (simp add: interval_us_def)

lemmas ex_pg_simps =
  ex_pg_def ex_pg_rec_def pg_empty_def pg_acquire_def sql_acquire_def nextval_def Let_def
  interval_def pg_inv_def pg_row_ok_def pg_issued_def pg_view_def pg_row_view_def token_limit_def
  time_simps time_add_def held_by_def pg_held_by_def

text \<open>
  C2. Fencing on PostgreSQL, as on the memory backend: once another \<open>Acquire\<close> of the work ID succeeds, then after
  any further calls of any clients every operation made with an earlier record returns
  \<open>ErrFenced\<close> and leaves the table as it is.
\<close>

theorem pg_fencing:
  assumes "pg_inv s1" and "pg_issued s1 + 2 * (length cs + 1) < token_limit"
    and "unat (lr_token rec) \<le> pg_issued s1"
    and "pg_acquire (pg_quiet c clk) s1 (lr_work rec) h ttl = (s2, Inr rec')"
    and "schedule_ok cs" and "declarable m" and "s = b_run postgres cs s2"
    and "env = pg_quiet None clk'"
  shows "pg_checkpoint_op env s rec st d = (s, Some ErrFenced) \<and>
    pg_renew env s rec d = (s, Some ErrFenced) \<and>
    pg_release env s rec m = (s, Some ErrFenced) \<and>
    pg_forget env s rec = (s, Some ErrFenced) \<and>
    pg_read_checkpoint env s rec = (s, Inl ErrFenced)"
proof -
  have acq: "b_acquire postgres c clk s1 (lr_work rec) h ttl = (s2, Inr rec')"
    using assms(4) by simp
  have lim: "pg_issued s1 < token_limit" using assms(2) by simp
  have "pg.room s2 cs"
    using pg.acquire_supersedes(5) [OF assms(1) lim acq refl assms(3)] assms(2)
    by (simp add: pg.room_def)
  from pg.zombie_fenced [OF assms(1) lim assms(3) acq this assms(5,6), of clk' st d]
  show ?thesis using assms(7,8) by simp
qed

theorem pg_fencing_witness:
  "let rec = ex_pg_rec ''a'' 1; c = (\<lambda>_. At 20000);
       s2 = fst (pg_acquire (pg_quiet None c) ex_pg ''w'' ''b'' 10000);
       s = b_run postgres [(None, c, DoCheckpoint (ex_pg_rec ''b'' 3) (Some [7]) 10000)] s2
   in pg_renew (pg_quiet None c) s rec 10000 = (s, Some ErrFenced)"
  using pg_fencing [of ex_pg "[(None, \<lambda>_. At 20000, DoCheckpoint (ex_pg_rec ''b'' 3) (Some [7]) 10000)]"
      "ex_pg_rec ''a'' 1" None "\<lambda>_. At 20000" "''b''" 10000
      "fst (pg_acquire (pg_quiet None (\<lambda>_. At 20000)) ex_pg ''w'' ''b'' 10000)"
      "(ex_pg_rec ''b'' 3)\<lparr>lr_expires := At 30000\<rparr>" ExitFinished _ _ "\<lambda>_. At 20000" None 10000,
      OF _ _ _ _ _ _ refl refl]
  by (simp add: ex_pg_simps declarable_def)

text \<open>
  C6. Refinement on PostgreSQL, as on the memory backend: every call whose statements run undisturbed keeps the
  table's invariant, draws at most two tokens from the sequence and moves the row of every work
  ID by a step of the life cycle.
\<close>

theorem pg_refines_life_cycle:
  assumes "pg_inv s" and "pg_issued s < token_limit" and "call_ok call"
    and "s' = b_call postgres c clk call s"
  shows "pg_inv s' \<and> pg_issued s \<le> pg_issued s' \<and> pg_issued s' \<le> pg_issued s + 2 \<and>
    row_step clk call w (pg_issued s) (pg_view s w) (pg_view s' w)"
  using pg.call_step(1-3) [OF assms(1-3), of c clk]
    pg.call_step(4) [OF assms(1-3), where c = c and clk = clk and w = w] assms(4) by simp

theorem pg_refines_life_cycle_witness:
  "let call = DoAcquire ''w'' ''b'' 10000; s' = b_call postgres None (\<lambda>_. At 20000) call ex_pg
   in pg_issued s' = 3 \<and> row_step (\<lambda>_. At 20000) call ''w'' 1 (pg_view ex_pg ''w'') (pg_view s' ''w'')"
  using pg_refines_life_cycle [of ex_pg "DoAcquire ''w'' ''b'' 10000" _
      None "\<lambda>_. At 20000" "''w''", OF _ _ _ refl]
  by (simp add: ex_pg_simps)

text \<open>
  C12. Handoff on PostgreSQL, as on the memory backend, and the declared exit is final: after a successful
  \<open>Release\<close> and any later calls, the row is either still the released one, untouched, or the
  released record is superseded; and as long as it is the released one the next \<open>Acquire\<close>
  succeeds at once and its holder reads the released checkpoint, the declared mode and the holder
  that declared it.
\<close>

theorem pg_release_handoff:
  assumes "pg_inv s" and "mono clk" and "pg_view s (lr_work rec) = Some r"
    and "clk 0 < row_expires r" and "pg_release (pg_quiet None clk) s rec m = (s1, None)"
    and "pg_issued s1 + 2 * length cs < token_limit" and "schedule_ok cs" and "timed (clk 2) cs"
    and "clk 2 \<le> clk' 0" and "s2 = b_run postgres cs s1"
  shows "(\<exists>s3 rec'. pg_acquire (pg_quiet None clk') s2 (lr_work rec) h ttl = (s3, Inr rec') \<and>
        unat (lr_token rec) < unat (lr_token rec') \<and>
        pg_read_checkpoint (pg_quiet None clk'') s3 rec' =
          (s3, Inr \<lparr>cp_state = row_checkpoint r, cp_prev_exit = m, cp_prev_holder = lr_holder rec\<rparr>)) \<or>
    superseded (pg_view s2 (lr_work rec)) (pg_issued s2) rec"
proof (cases "\<exists>r'. pg_view s2 (lr_work rec) = Some r' \<and> row_token r' = lr_token rec")
  case True
  then show ?thesis
    using pg.handoff [OF assms(1-4), of m s1 cs clk' h ttl clk''] assms by (simp add: pg.room_def)
next
  case False
  have rel: "b_release postgres None clk s rec m = (s1, None)" using assms(5) by simp
  have "unat (lr_token rec) \<le> pg_issued s1" "pg_inv s1"
    using pg.release_total [OF assms(1), of clk rec m] rel pg.token_issued [OF assms(1,3)] assms(3)
    by (auto simp: held_by_def)
  then show ?thesis
    using False pg.run_inv [OF _ _ assms(7), of s1] assms(6,10)
    by (auto simp: superseded_def pg.room_def)
qed

theorem pg_release_handoff_witness:
  "let c = (\<lambda>_. At 5000);
       s1 = fst (pg_release (pg_quiet None c) ex_pg (ex_pg_rec ''a'' 1) ExitRetired)
   in \<exists>s3 rec'. pg_acquire (pg_quiet None (\<lambda>_. At 9000)) s1 ''w'' ''b'' 10000 = (s3, Inr rec') \<and>
        1 < unat (lr_token rec') \<and> pg_read_checkpoint (pg_quiet None c) s3 rec' =
          (s3, Inr \<lparr>cp_state = None, cp_prev_exit = ExitRetired, cp_prev_holder = ''a''\<rparr>)"
proof -
  let ?r = "successor_row None ''a'' 1 (At 10000) (At 0)"
  have v: "pg_view ex_pg ''w'' = Some ?r" by (simp add: ex_pg_simps successor_row_def)
  show ?thesis
    using pg_release_handoff [of ex_pg "\<lambda>_. At 5000" "ex_pg_rec ''a'' 1" ?r ExitRetired
        "fst (pg_release (pg_quiet None (\<lambda>_. At 5000)) ex_pg (ex_pg_rec ''a'' 1) ExitRetired)"
        "[]" "\<lambda>_. At 9000" _ "''b''" 10000 "\<lambda>_. At 5000"] v
    by (simp add: ex_pg_simps pg_release_def sql_release_def sql_update_def superseded_def mono_def)
qed

text \<open>
  Exclusion on PostgreSQL, as on the memory backend: while a lease has not expired, calls made without its
  record leave its row exactly as it was, and \<open>Acquire\<close> of its work ID returns
  \<open>ErrLeaseHeld\<close>.
\<close>

theorem pg_exclusion:
  assumes "pg_inv s" and "pg_issued s + 2 * length cs < token_limit" and "schedule_ok cs"
    and "pg_view s w = Some r" and "held_by r rec"
    and "\<And>c clk call. (c, clk, call) \<in> set cs \<Longrightarrow> foreign rec call \<and> clk 0 \<le> row_expires r"
    and "clk' 0 \<le> row_expires r"
  shows "pg_view (b_run postgres cs s) w = Some r \<and>
    snd (pg_acquire (pg_quiet None clk') (b_run postgres cs s) w h ttl) = Inl ErrLeaseHeld"
proof -
  have "pg.room s cs" using assms(2) by (simp add: pg.room_def)
  from pg.exclusive [OF assms(1) this assms(3-5), of clk' h ttl] assms(6,7) show ?thesis by simp
qed

theorem pg_exclusion_witness:
  "let s = b_run postgres [(None, \<lambda>_. At 5000, DoRenew (ex_pg_rec ''b'' 9) 10000),
             (None, \<lambda>_. At 6000, DoAcquire ''w'' ''b'' 10000)] ex_pg
   in pg_view s ''w'' = Some (successor_row None ''a'' 1 (At 10000) (At 0)) \<and>
      snd (pg_acquire (pg_quiet None (\<lambda>_. At 10000)) s ''w'' ''a'' 10000) = Inl ErrLeaseHeld"
proof -
  have v: "pg_view ex_pg ''w'' = Some (successor_row None ''a'' 1 (At 10000) (At 0))"
    by (simp add: ex_pg_simps successor_row_def)
  show ?thesis unfolding Let_def
    by (rule pg_exclusion [of ex_pg _ _ _ "ex_pg_rec ''a'' 1"])
       (use v in \<open>auto simp: ex_pg_simps\<close>)
qed

text \<open>
  The environment of a call under faults: the driver never reports \<open>sql.ErrNoRows\<close> as a
  failure of a statement.
\<close>

definition env_faults_ok :: "pg_env \<Rightarrow> bool" where
  "env_faults_ok env \<longleftrightarrow> (\<forall>k. case env_fault env k of None \<Rightarrow> True
     | Some (e, a) \<Rightarrow> \<not> errors_is e SqlErrNoRows)"

definition wrote :: "pg_db \<Rightarrow> lease_record \<Rightarrow> (pg_row \<Rightarrow> bool) \<Rightarrow> (pg_row \<Rightarrow> pg_row) \<Rightarrow> pg_db \<Rightarrow> bool" where
  "wrote db rec guard f db' \<longleftrightarrow> (\<exists>r. map_of (pg_rows db) (lr_work rec) = Some r \<and>
     pg_held_by r rec \<and> guard r \<and>
     db' = db\<lparr>pg_rows := AList.update (lr_work rec) (f r) (pg_rows db)\<rparr>)"

text \<open>The outcomes of a guarded update followed by a classification.\<close>

definition stmt_outcome ::
  "pg_env \<Rightarrow> pg_db \<Rightarrow> lease_record \<Rightarrow> (pg_row \<Rightarrow> bool) \<Rightarrow> (pg_row \<Rightarrow> pg_row) \<Rightarrow> pg_db \<times> gerror option \<Rightarrow> bool" where
  "stmt_outcome env db rec guard f out \<longleftrightarrow>
     (case out of
        (db', None) \<Rightarrow> wrote db rec guard f db'
      | (db', Some ErrFenced) \<Rightarrow> db' = env_between env db \<and> sql_holder_check rec db' = None
      | (db', Some ErrLeaseExpired) \<Rightarrow> db' = env_between env db \<and> sql_holder_check rec db' \<noteq> None
      | (db', Some e) \<Rightarrow> db' = db \<or> db' = env_between env db \<or> wrote db rec guard f db')"

lemma sql_update_outcome:
  obtains "sql_update (lr_work rec) (\<lambda>r. pg_held_by r rec \<and> guard r) f db = (db, 0)"
  | db' where "sql_update (lr_work rec) (\<lambda>r. pg_held_by r rec \<and> guard r) f db = (db', 1)"
    "wrote db rec guard f db'"
  by (fastforce simp: sql_update_def wrote_def split: option.splits if_splits)

lemma pg_classify_outcome:
  assumes "env_faults_ok env"
  shows "stmt_outcome env db rec guard f (pg_classify env msg rec db)"
proof (cases "env_fault env 1")
  case None
  then show ?thesis
    by (cases "sql_holder_check rec (env_between env db)") (simp_all add: pg_classify_def stmt_outcome_def)
next
  case (Some ea)
  have "case env_fault env 1 of None \<Rightarrow> True | Some (e, a) \<Rightarrow> \<not> errors_is e SqlErrNoRows"
    using assms by (simp add: env_faults_ok_def)
  with Some show ?thesis
    by (auto simp: pg_classify_def stmt_outcome_def pg_stmt_def split: prod.splits)
qed

lemma guarded_outcome:
  assumes "env_faults_ok env" and "k = 0"
  shows "stmt_outcome env db rec guard f
    (let (db', r) = pg_stmt (env_fault env k)
           (sql_update (lr_work rec) (\<lambda>r. pg_held_by r rec \<and> guard r) f) db
     in case r of
          Inl e \<Rightarrow> (db', Some (Wrap msg (withCtxErr (env_ctx env 0) e)))
        | Inr n \<Rightarrow> if 0 < n then (db', None) else pg_classify env msg rec db')"
proof (rule sql_update_outcome [of rec guard f db], goal_cases)
  case 1
  then show ?case
    using pg_classify_outcome [OF assms(1), of db rec guard f msg]
    by (cases "env_fault env k") (auto simp: stmt_outcome_def pg_stmt_def)
next
  case (2 db')
  then show ?case
    by (cases "env_fault env k") (auto simp: stmt_outcome_def pg_stmt_def)
qed

text \<open>
  C25. Statement atomicity. Whatever the driver reports and whatever other sessions commit between
  a call's two statements: a nil error from \<open>Checkpoint\<close>, \<open>Renew\<close> or \<open>Release\<close> means that the
  first statement found the caller's row with its guard satisfied (no declared exit for
  \<open>Checkpoint\<close>, not yet expired for the others) and wrote it and nothing else;
  \<open>ErrFenced\<close> and \<open>ErrLeaseExpired\<close> mean this call wrote nothing and the second statement
  did not find, or did find, the record's row; any other error leaves the write done entirely or
  not at all.
\<close>

theorem pg_statement_atomicity:
  assumes "env_faults_ok env" and "declarable m"
  defines "now \<equiv> env_now env 0"
  shows "stmt_outcome env db rec (\<lambda>r. pg_exit_mode r = None)
      (\<lambda>r. r\<lparr>pg_checkpoint := normalize_state st, pg_expires_at := time_add now (interval (interval_us d)),
             pg_updated_at := now\<rparr>) (pg_checkpoint_op env db rec st d) \<and>
    stmt_outcome env db rec (\<lambda>r. now < pg_expires_at r)
      (\<lambda>r. r\<lparr>pg_expires_at := time_add now (interval (interval_us d)), pg_updated_at := now\<rparr>)
      (pg_renew env db rec d) \<and>
    stmt_outcome env db rec (\<lambda>r. now < pg_expires_at r)
      (\<lambda>r. r\<lparr>pg_exit_mode := Some (exit_mode_string m),
             pg_expires_at := time_add now (- millisecond), pg_updated_at := now\<rparr>)
      (pg_release env db rec m)"
proof (intro conjI)
  have renew: "pg_renew env db rec d =
    (let (db', r) = pg_stmt (env_fault env 0) (sql_renew now (interval_us d) rec) db
      in case r of
           Inl e \<Rightarrow> (db', Some (Wrap ''postgres: Renew'' (withCtxErr (env_ctx env 0) e)))
         | Inr n \<Rightarrow> if 0 < n then (db', None) else pg_classify env ''postgres: Renew'' rec db')"
    by (auto simp: pg_renew_def now_def split: prod.split sum.split)
  show "stmt_outcome env db rec (\<lambda>r. now < pg_expires_at r)
      (\<lambda>r. r\<lparr>pg_expires_at := time_add now (interval (interval_us d)), pg_updated_at := now\<rparr>)
      (pg_renew env db rec d)"
    unfolding renew sql_renew_def by (rule guarded_outcome [OF assms(1) refl])
  show "stmt_outcome env db rec (\<lambda>r. now < pg_expires_at r)
      (\<lambda>r. r\<lparr>pg_exit_mode := Some (exit_mode_string m),
             pg_expires_at := time_add now (- millisecond), pg_updated_at := now\<rparr>)
      (pg_release env db rec m)"
    using guarded_outcome [OF assms(1) refl, of db rec "\<lambda>r. now < pg_expires_at r"
        "\<lambda>r. r\<lparr>pg_exit_mode := Some (exit_mode_string m),
             pg_expires_at := time_add now (- millisecond), pg_updated_at := now\<rparr>"
        "''postgres: Release''"] assms(2)
    by (auto simp: pg_release_def sql_release_def now_def declarable_def)
  show "stmt_outcome env db rec (\<lambda>r. pg_exit_mode r = None)
      (\<lambda>r. r\<lparr>pg_checkpoint := normalize_state st, pg_expires_at := time_add now (interval (interval_us d)),
             pg_updated_at := now\<rparr>) (pg_checkpoint_op env db rec st d)"
    using guarded_outcome [OF assms(1) refl, of db rec "\<lambda>r. pg_exit_mode r = None"
        "\<lambda>r. r\<lparr>pg_checkpoint := normalize_state st, pg_expires_at := time_add now (interval (interval_us d)),
             pg_updated_at := now\<rparr>" "''postgres: Checkpoint''"]
    by (simp add: pg_checkpoint_op_def sql_checkpoint_def now_def)
qed

text \<open>Two sessions: the row is deleted between the two statements of a late \<open>Renew\<close>.\<close>

definition ex_pg_env :: pg_env where
  "ex_pg_env = (pg_quiet None (\<lambda>_. At 20000))\<lparr>env_between := (\<lambda>db. db\<lparr>pg_rows := []\<rparr>)\<rparr>"

theorem pg_statement_atomicity_witness:
  "pg_renew ex_pg_env ex_pg (ex_pg_rec ''a'' 1) 10000 = (ex_pg\<lparr>pg_rows := []\<rparr>, Some ErrFenced) \<and>
   stmt_outcome ex_pg_env ex_pg (ex_pg_rec ''a'' 1) (\<lambda>r. At 20000 < pg_expires_at r)
     (\<lambda>r. r\<lparr>pg_expires_at := At 30000, pg_updated_at := At 20000\<rparr>)
     (pg_renew ex_pg_env ex_pg (ex_pg_rec ''a'' 1) 10000)"
  using pg_statement_atomicity [where env = ex_pg_env and m = ExitFinished and db = ex_pg and
      rec = "ex_pg_rec ''a'' 1" and d = 10000]
  by (simp add: env_faults_ok_def ex_pg_env_def declarable_def pg_renew_def pg_sql_defs ex_pg_simps)

text \<open>
  Sweep on PostgreSQL, with the retention rounded as the code rounds it (floating-point
  seconds with six decimals): only rows that are not held and were released as retired (or, when
  asked, lapsed undeclared) are deleted, none younger than the retention by two microseconds, and
  every such row older than the retention by two microseconds is; the count is exact.
\<close>

theorem pg_sweep_rounding:
  assumes "pg_inv s" and "is_int64 (so_retention opts)"
    and "pg_sweep (pg_quiet None clk) s opts = (s', n, e)"
  shows "e = None \<and> n = int (card (dom (pg_view s) - dom (pg_view s'))) \<and>
    (\<forall>w. pg_view s' w = pg_view s w \<or>
       (\<exists>r. pg_view s w = Some r \<and> pg_view s' w = None \<and> sweepable (clk 0) opts r \<and>
          so_retention opts - sweep_slack < ns (clk 0) - ns (row_updated r))) \<and>
    (\<forall>w r. pg_view s w = Some r \<and> sweepable (clk 0) opts r \<and>
       so_retention opts + sweep_slack < ns (clk 0) - ns (row_updated r) \<and>
       so_retention opts < 2 ^ 63 - 1 \<longrightarrow> pg_view s' w = None)"
  using pg.sweep_ok [OF assms(1,2), of clk] assms(3) by (simp, metis not_Some_eq)

theorem pg_sweep_rounding_witness:
  "let s = \<lparr>pg_rows = [(''w'', (snd (hd (pg_rows ex_pg)))\<lparr>pg_exit_mode := Some ''retired''\<rparr>)], pg_seq = 1\<rparr>
   in fst (snd (pg_sweep (pg_quiet None (\<lambda>_. At (3 * second))) s
        \<lparr>so_retention = second, so_include_expired = False\<rparr>)) = 1 \<and> card (dom (pg_view s)) = 1"
proof -
  let ?s = "\<lparr>pg_rows = [(''w'', (snd (hd (pg_rows ex_pg)))\<lparr>pg_exit_mode := Some ''retired''\<rparr>)], pg_seq = 1\<rparr>"
  let ?o = "\<lparr>so_retention = second, so_include_expired = False\<rparr>"
  let ?c = "\<lambda>_. At (3 * second)"
  have us: "seconds_us second = 1000000" by code_simp
  have run: "pg_sweep (pg_quiet None ?c) ?s ?o = (\<lparr>pg_rows = [], pg_seq = 1\<rparr>, 1, None)"
    by (simp add: pg_sweep_def sql_sweep_def sql_swept_def us ex_pg_simps)
  show ?thesis
    using pg_sweep_rounding [OF _ _ run] run pg_view_nil by (simp add: ex_pg_simps is_int64_def)
qed

text \<open>
  \<open>formatInterval\<close>: the interval PostgreSQL adds to \<open>NOW()\<close> is never shorter than the
  duration requested and less than a microsecond longer, for negative durations too.
\<close>

theorem formatInterval_rounds_up:
  "formatInterval d = show_int (interval_us d) @ '' microseconds'' \<and>
   d \<le> interval (interval_us d) \<and> interval (interval_us d) < d + microsecond"
  using interval_us_bounds [of d] by (simp add: formatInterval_def)

text \<open>
  Exit mode texts: what \<open>Release\<close> stores reads back as the mode it was given, and every
  byte that is not an exit mode reads back as \<open>ExitExpired\<close>.
\<close>

theorem exit_mode_text_roundtrip:
  "exitModeFromSQL (exit_mode_string m) =
     (if m \<in> {ExitNone, ExitFinished, ExitAbandoned, ExitRetired} then m else ExitExpired)"
  by (auto simp: exitModeFromSQL_def exit_mode_string_def)

end
