(* ===== verification/Row_Types.thy ===== *)
theory Row_Types
  imports Memory Postgres
begin

text \<open>
  What the rows of both backends hold, as types that the code leaves to conventions: an \<open>ExitMode\<close> is
  any byte in Go and any text in the table.
\<close>

definition typed_row :: "row \<Rightarrow> bool" where
  "typed_row r \<longleftrightarrow>
     row_exit r \<in> {ExitNone, ExitFinished, ExitAbandoned, ExitRetired} \<and>
     row_prev_exit r \<in> {ExitNone, ExitFinished, ExitAbandoned, ExitRetired, ExitExpired} \<and>
     (row_prev_exit r = ExitNone \<longrightarrow> row_prev_holder r = '''') \<and>
     row_checkpoint r \<noteq> Some [] \<and> row_token r \<noteq> 0"

definition typed :: "row option \<Rightarrow> bool" where
  "typed ro \<longleftrightarrow> (\<forall>r. ro = Some r \<longrightarrow> typed_row r)"

lemma typed_step:
  assumes "row_step clk call w n ro ro'" and "typed ro"
  shows "typed ro'"
  using assms
proof cases
  case (taken tok ttl e u h)
  then show ?thesis
    using assms(2) by (cases ro) (auto simp: typed_def typed_row_def successor_row_def)
qed (auto simp: typed_def typed_row_def declarable_iff)

context lease_backend
begin

lemma run_typed:
  "inv s \<Longrightarrow> room s cs \<Longrightarrow> schedule_ok cs \<Longrightarrow> typed (view s w) \<Longrightarrow> typed (view (b_run b cs s) w)"
proof (induction cs arbitrary: s)
  case (Cons e cs)
  obtain c clk call where e: "e = (c, clk, call)" by (cases e)
  note st = room_Cons [OF Cons.prems(1) Cons.prems(2,3) [unfolded e]]
  show ?case
    using Cons.IH [OF st(4,5,3)] typed_step [OF call_step(4) [OF Cons.prems(1) st(1,2)] Cons.prems(4)] e by simp
qed simp

end

section \<open>The rows of the table\<close>

text \<open>
  The columns as they are stored, before any method reads them: the texts of the two exit columns, the
  previous holder, the \<open>bytea\<close> of the checkpoint and the token, for a sequence that stands at \<open>q\<close>.
\<close>

definition typed_pg_row :: "int \<Rightarrow> pg_row \<Rightarrow> bool" where
  "typed_pg_row q r \<longleftrightarrow>
     pg_exit_mode r \<in> {None, Some ''finished'', Some ''abandoned'', Some ''retired''} \<and>
     pg_prev_exit_mode r \<in> {''none'', ''finished'', ''abandoned'', ''retired'', ''expired''} \<and>
     (pg_prev_exit_mode r = ''none'' \<longleftrightarrow> pg_prev_holder_id r = None) \<and>
     pg_checkpoint r \<noteq> Some [] \<and> 0 < pg_fencing_token r \<and> pg_fencing_token r \<le> q"

definition typed_table :: "pg_db \<Rightarrow> bool" where
  "typed_table db \<longleftrightarrow> distinct (map fst (pg_rows db)) \<and> 0 \<le> pg_seq db \<and> pg_seq db < 2 ^ 63 \<and>
     (\<forall>(w, r) \<in> set (pg_rows db). typed_pg_row (pg_seq db) r)"

lemma typed_pg_row_mono: "typed_pg_row q r \<Longrightarrow> q \<le> q' \<Longrightarrow> typed_pg_row q' r"
  by (auto simp: typed_pg_row_def)

lemma typed_table_lookup: "typed_table db \<Longrightarrow> map_of (pg_rows db) w = Some r \<Longrightarrow> typed_pg_row (pg_seq db) r"
  by (auto simp: typed_table_def dest!: map_of_SomeD)

lemma typed_table_insert:
  assumes "typed_table db" and "pg_seq db \<le> q" and "q < 2 ^ 63" and "typed_pg_row q r"
  shows "typed_table \<lparr>pg_rows = AList.update w r (pg_rows db), pg_seq = q\<rparr>"
  using assms
  by (auto simp: typed_table_def distinct_update dest!: set_update_cases intro: typed_pg_row_mono)

lemma typed_table_write:
  "typed_table db \<Longrightarrow> typed_pg_row (pg_seq db) r \<Longrightarrow> typed_table (db\<lparr>pg_rows := AList.update w r (pg_rows db)\<rparr>)"
  using typed_table_insert [of db "pg_seq db" r w] by (cases db) (auto simp: typed_table_def)

lemma typed_table_filter: "typed_table db \<Longrightarrow> typed_table (db\<lparr>pg_rows := filter P (pg_rows db)\<rparr>)"
  by (auto simp: typed_table_def intro: distinct_fst_filter)

lemma typed_table_seq: "typed_table db \<Longrightarrow> pg_seq db \<le> q \<Longrightarrow> q < 2 ^ 63 \<Longrightarrow> typed_table (db\<lparr>pg_seq := q\<rparr>)"
  by (auto simp: typed_table_def intro: typed_pg_row_mono)

text \<open>Every statement keeps the table typed.\<close>

lemma sql_acquire_typed:
  assumes "typed_table db"
  shows "typed_table (fst (sql_acquire now w h us db))"
proof (cases "nextval (pg_seq db)")
  case None
  then show ?thesis using assms by (simp add: sql_acquire_def)
next
  case (Some tok)
  then have tok: "tok = pg_seq db + 1" "tok < 2 ^ 63" "0 < tok" "pg_seq db \<le> tok"
    using assms by (auto simp: nextval_def typed_table_def split: if_splits)
  show ?thesis
  proof (cases "map_of (pg_rows db) w")
    case None
    then show ?thesis
      using typed_table_insert [OF assms tok(4,2)] Some tok(3) by (simp add: sql_acquire_def typed_pg_row_def)
  next
    case (Some old)
    note old = typed_table_lookup [OF assms Some]
    show ?thesis
    proof (cases "nextval tok")
      case None
      then show ?thesis
        using typed_table_seq [OF assms tok(4,2)] \<open>nextval (pg_seq db) = Some tok\<close> Some by (simp add: sql_acquire_def)
    next
      case (Some tok')
      then have tok': "tok' < 2 ^ 63" "0 < tok'" "pg_seq db \<le> tok'"
        using tok by (auto simp: nextval_def split: if_splits)
      show ?thesis
        using typed_table_insert [OF assms tok'(3,1)] typed_table_seq [OF assms tok(4,2)]
          \<open>nextval (pg_seq db) = Some tok\<close> \<open>map_of (pg_rows db) w = Some old\<close> Some old tok'(2)
        by (auto simp: sql_acquire_def typed_pg_row_def Let_def)
    qed
  qed
qed

lemma sql_update_typed:
  assumes "typed_table db" and "\<And>q r. typed_pg_row q r \<Longrightarrow> typed_pg_row q (f r)"
  shows "typed_table (fst (sql_update w cond f db))"
  using typed_table_write [OF assms(1) assms(2) [OF typed_table_lookup [OF assms(1)]]] assms(1)
  by (auto simp: sql_update_def split: option.split)

lemma sql_writes_typed:
  assumes "typed_table db"
  shows "state \<noteq> Some [] \<Longrightarrow> typed_table (fst (sql_checkpoint now state us rec db))"
    and "typed_table (fst (sql_renew now us rec db))"
    and "mode \<in> {''finished'', ''abandoned'', ''retired''} \<Longrightarrow> typed_table (fst (sql_release now mode rec db))"
    and "typed_table (fst (sql_forget rec db))" and "typed_table (fst (sql_sweep now us inc db))"
proof -
  show "typed_table (fst (sql_checkpoint now state us rec db))" if "state \<noteq> Some []"
    unfolding sql_checkpoint_def by (rule sql_update_typed [OF assms]) (use that in \<open>auto simp: typed_pg_row_def\<close>)
  show "typed_table (fst (sql_renew now us rec db))"
    unfolding sql_renew_def by (rule sql_update_typed [OF assms]) (auto simp: typed_pg_row_def)
  show "typed_table (fst (sql_release now mode rec db))" if "mode \<in> {''finished'', ''abandoned'', ''retired''}"
    unfolding sql_release_def by (rule sql_update_typed [OF assms]) (use that in \<open>auto simp: typed_pg_row_def\<close>)
  show "typed_table (fst (sql_forget rec db))"
    using typed_table_filter [OF assms] assms by (auto simp: sql_forget_def AList.delete_eq split: option.split)
  show "typed_table (fst (sql_sweep now us inc db))"
    using typed_table_filter [OF assms] by (simp add: sql_sweep_def)
qed

section \<open>The methods on the table\<close>

text \<open>
  Surroundings in which the driver fails as it likes, a statement having taken effect or not, and in
  which others run any calls of their own between two statements of a call.
\<close>

definition others_call :: "(ctx_err \<Rightarrow> clock \<Rightarrow> pg_env) \<Rightarrow> bool" where
  "others_call E \<longleftrightarrow> (\<forall>c clk db. \<exists>cs. env_between (E c clk) db = b_run postgres cs db)"

lemma pg_stmt_typed:
  "typed_table db \<Longrightarrow> typed_table (fst (q db)) \<Longrightarrow> typed_table (fst (pg_stmt fault q db))"
  by (cases fault) (auto simp: pg_stmt_def)

lemma pg_classify_table: "fst (pg_classify env msg rec db) = env_between env db"
  by (cases "env_fault env 1") (auto simp: pg_classify_def pg_stmt_def split: prod.split)

text \<open>A method is one statement, and after some statements others' calls.\<close>

lemma pg_call_typed:
  assumes "typed_table db" and "\<And>d. typed_table d \<Longrightarrow> typed_table (env_between (E c clk) d)"
  shows "typed_table (b_call (postgres_in E) c clk call db)"
proof (cases call)
  case (DoAcquire w h ttl)
  show ?thesis
    using pg_stmt_typed [where q = "sql_acquire (env_now (E c clk) 0) w h (interval_us ttl)", OF assms(1) sql_acquire_typed [OF assms(1)]]
    by (simp add: DoAcquire pg_acquire_def Let_def case_prod_beta)
next
  case (DoCheckpoint rec st ttl)
  let ?st = "if 0 < slice_len st then st else None"
  have "?st \<noteq> Some []" by (cases st) auto
  then show ?thesis
    using pg_stmt_typed [where q = "sql_checkpoint (env_now (E c clk) 0) ?st (interval_us ttl) rec", OF assms(1)
        sql_writes_typed(1) [OF assms(1)]] assms(2)
    by (auto simp: DoCheckpoint pg_checkpoint_op_def pg_classify_table Let_def case_prod_beta split: sum.split)
next
  case (DoRenew rec ttl)
  show ?thesis
    using pg_stmt_typed [where q = "sql_renew (env_now (E c clk) 0) (interval_us ttl) rec", OF assms(1) sql_writes_typed(2) [OF assms(1)]] assms(2)
    by (auto simp: DoRenew pg_renew_def pg_classify_table Let_def case_prod_beta split: sum.split)
next
  case (DoRelease rec m)
  show ?thesis
  proof (cases "declarable m")
    case True
    then have "exit_mode_string m \<in> {''finished'', ''abandoned'', ''retired''}" by (auto simp: declarable_iff)
    then show ?thesis
      using pg_stmt_typed [where q = "sql_release (env_now (E c clk) 0) (exit_mode_string m) rec", OF assms(1)
          sql_writes_typed(3) [OF assms(1)]] assms
      by (auto simp: DoRelease pg_release_def pg_classify_table Let_def case_prod_beta split: sum.split)
  qed (use assms(1) in \<open>simp add: DoRelease pg_release_def declarable_iff\<close>)
next
  case (DoReadCheckpoint rec)
  show ?thesis
    using pg_stmt_typed [OF assms(1), of "\<lambda>d. (d, sql_read_checkpoint (lr_work rec) d)"] assms(1)
    by (simp add: DoReadCheckpoint pg_read_checkpoint_def Let_def case_prod_beta)
next
  case (DoForget rec)
  show ?thesis
    using pg_stmt_typed [where q = "sql_forget rec", OF assms(1) sql_writes_typed(4) [OF assms(1)]]
    by (simp add: DoForget pg_forget_def Let_def case_prod_beta)
next
  case (DoSweep opts)
  show ?thesis
    using pg_stmt_typed [where q = "sql_sweep (env_now (E c clk) 0) (seconds_us (so_retention opts)) (so_include_expired opts)",
        OF assms(1) sql_writes_typed(5) [OF assms(1)]]
    by (simp add: DoSweep pg_sweep_def Let_def case_prod_beta split: sum.split)
qed

lemma pg_run_typed:
  assumes "typed_table db" and "\<And>c clk d. typed_table d \<Longrightarrow> typed_table (env_between (E c clk) d)"
  shows "typed_table (b_run (postgres_in E) cs db)"
  using assms(1)
proof (induction cs arbitrary: db)
  case (Cons e cs)
  obtain c clk call where e: "e = (c, clk, call)" by (cases e)
  show ?case using Cons.IH [OF pg_call_typed [OF Cons.prems assms(2)]] e by simp
qed simp

lemma others_call_typed:
  assumes "others_call E" and "typed_table db"
  shows "typed_table (env_between (E c clk) db)"
proof -
  obtain cs where "env_between (E c clk) db = b_run (postgres_in pg_quiet) cs db"
    using assms(1) unfolding others_call_def postgres_quiet by blast
  then show ?thesis using pg_run_typed [OF assms(2), of pg_quiet cs] by (simp add: pg_quiet_def)
qed

section \<open>The property\<close>

text \<open>
  C23. Every row is well typed. After any calls of any clients, in any interleaving and with any clock
  readings, on a fresh memory backend and on an empty table. In memory the exit of a row is none or a
  declared one, its previous exit one of the five modes, and then \<open>ExitNone\<close> only if there was no
  previous holder; a stored checkpoint is never empty and a token never zero. In the table the same is
  true of the columns as stored: the exit is \<open>NULL\<close> or the text of a declared mode, the previous exit
  one of the five texts, \<open>none\<close> exactly if there is no previous holder; a checkpoint is \<open>NULL\<close> or not
  empty, and tokens are positive and up to the sequence; even if statements fail, having taken effect
  or not, and others' calls come between two statements of one call.
\<close>

theorem rows_typed:
  assumes "schedule_ok cs" and "2 * length cs < token_limit" and "others_call E"
  shows "typed (mem_view (b_run memory cs memory_new) w) \<and> typed_table (b_run (postgres_in E) cs pg_empty)"
proof
  show "typed (mem_view (b_run memory cs memory_new) w)"
    by (rule mem.run_typed [OF mem_inv_new _ assms(1)])
       (use assms(2) in \<open>auto simp: mem.room_def mem_issued_def mem_view_def memory_new_def typed_def\<close>)
  show "typed_table (b_run (postgres_in E) cs pg_empty)"
    by (rule pg_run_typed [OF _ others_call_typed [OF assms(3)]]) (simp add: typed_table_def pg_empty_def)
qed

text \<open>An empty checkpoint written by a statement that fails after it took effect: the column is \<open>NULL\<close>.\<close>

definition ex_lost_reply :: "ctx_err \<Rightarrow> clock \<Rightarrow> pg_env" where
  "ex_lost_reply c clk = (pg_quiet c clk)\<lparr>env_fault := (\<lambda>_. Some (ErrNew ''connection reset'', True))\<rparr>"

theorem rows_typed_witness:
  "let cs = [(None, \<lambda>_. At 0, DoAcquire ''w'' ''a'' 10000),
             (None, \<lambda>_. At 5, DoCheckpoint (ex_pg_rec ''a'' 1) (Some []) 10000)]
   in (\<exists>r. pg_rows (b_run (postgres_in ex_lost_reply) cs pg_empty) = [(''w'', r)] \<and> pg_checkpoint r \<noteq> Some [] \<and>
         pg_updated_at r = At 5) \<and>
      typed (mem_view (b_run memory cs memory_new) ''w'')"
proof -
  let ?cs = "[(None, \<lambda>_. At 0, DoAcquire ''w'' ''a'' 10000),
              (None, \<lambda>_. At 5, DoCheckpoint (ex_pg_rec ''a'' 1) (Some []) 10000)]"
  have "others_call ex_lost_reply"
    unfolding others_call_def by (intro allI exI [of _ "[]"]) (simp add: ex_lost_reply_def pg_quiet_def)
  then have "typed (mem_view (b_run memory ?cs memory_new) ''w'') \<and> typed_table (b_run (postgres_in ex_lost_reply) ?cs pg_empty)"
    by (intro rows_typed) (simp_all add: schedule_ok_def token_limit_def)
  moreover obtain r where "pg_rows (b_run (postgres_in ex_lost_reply) ?cs pg_empty) = [(''w'', r)]" "pg_updated_at r = At 5"
    by (simp add: ex_lost_reply_def pg_quiet_def pg_acquire_def sql_acquire_def pg_checkpoint_op_def sql_checkpoint_def sql_update_def
        pg_stmt_def scan_def nextval_def pg_empty_def ex_pg_rec_def pg_held_by_def Let_def)
  ultimately show ?thesis by (auto simp: typed_table_def typed_pg_row_def Let_def)
qed

end
