(* ===== verification/Conformance.thy ===== *)
theory Conformance
  imports Memory Postgres "HOL-Library.Monad_Syntax"
begin

text \<open>
  \<open>backend/conformance/conformance.go\<close>: the specification every backend must satisfy, and the proof
  that the documented contract implies it.

  An \<open>It\<close> block is a function on a backend, the clock readings of its calls (\<open>c k\<close> for the \<open>k\<close>-th
  call of the block) and the state of the fresh backend; the state is threaded through the calls,
  and a failed expectation is \<open>None\<close>. A slice is a value here; the two blocks about aliased slices are
  in the theory \<open>Slices\<close>. \<open>RunSuite\<close> lists the blocks with the contexts they stand in. In the locale
  \<open>lease_backend\<close> there is one rule per call and outcome; every block passes by chaining them.
\<close>

section \<open>Expectations\<close>

definition expect :: "bool \<Rightarrow> unit option" where
  "expect p = (if p then Some () else None)"

definition no_error :: "'s \<times> (gerror + 'a) \<Rightarrow> ('s \<times> 'a) option" where
  "no_error res = (case res of (s, Inr x) \<Rightarrow> Some (s, x) | (s, Inl e) \<Rightarrow> None)"

definition error_is :: "gerror \<Rightarrow> 's \<times> (gerror + 'a) \<Rightarrow> 's option" where
  "error_is t res = (case res of (s, Inr x) \<Rightarrow> None | (s, Inl e) \<Rightarrow> if errors_is e t then Some s else None)"

definition succeed :: "'s \<times> gerror option \<Rightarrow> 's option" where
  "succeed res = (case res of (s, None) \<Rightarrow> Some s | (s, Some e) \<Rightarrow> None)"

definition fails :: "gerror \<Rightarrow> 's \<times> gerror option \<Rightarrow> 's option" where
  "fails t res = (case res of (s, None) \<Rightarrow> None | (s, Some e) \<Rightarrow> if errors_is e t then Some s else None)"

text \<open>A sweep without an error that deleted nothing, or at least one row.\<close>

definition swept_none :: "'s \<times> int \<times> gerror option \<Rightarrow> 's option" where
  "swept_none res = (case res of (s, n, e) \<Rightarrow> if e = None \<and> n = 0 then Some s else None)"

definition swept_some :: "'s \<times> int \<times> gerror option \<Rightarrow> 's option" where
  "swept_some res = (case res of (s, n, e) \<Rightarrow> if e = None \<and> 1 \<le> n then Some s else None)"

definition sweep_fails :: "gerror \<Rightarrow> 's \<times> int \<times> gerror option \<Rightarrow> 's option" where
  "sweep_fails t res = (case res of (s, n, e) \<Rightarrow> fails t (s, e))"

definition normalTTL :: duration where "normalTTL = 30 * second"
definition expiredTTL :: duration where "expiredTTL = - second"

definition hour :: duration where "hour = 3600 * second"

definition stale :: "lease_record \<Rightarrow> lease_record" where
  "stale rec = rec\<lparr>lr_token := lr_token rec + 1\<rparr>"

definition neverAcquired :: lease_record where
  "neverAcquired = \<lparr>lr_work = ''never-acquired'', lr_holder = ''h'', lr_token = 1, lr_expires = zero_time\<rparr>"

definition sweep_opts :: "duration \<Rightarrow> bool \<Rightarrow> sweep_options" where
  "sweep_opts retention expired = \<lparr>so_retention = retention, so_include_expired = expired\<rparr>"

text \<open>The bytes of a string literal.\<close>

definition text_bytes :: "string \<Rightarrow> bytes" where
  "text_bytes t = Some (map (\<lambda>ch. of_nat (of_char ch)) t)"

type_synonym 's it = "'s backend \<Rightarrow> (nat \<Rightarrow> clock) \<Rightarrow> 's \<Rightarrow> 's option"

section \<open>Acquire\<close>

definition acquire_fresh :: "'s it" where
  "acquire_fresh b c s = do {
     (s, rec) \<leftarrow> no_error (b_acquire b None (c 0) s ''w1'' ''h'' normalTTL);
     expect (0 < lr_token rec);
     Some s }"

definition acquire_held_block :: "'s it" where
  "acquire_held_block b c s = do {
     (s, rec) \<leftarrow> no_error (b_acquire b None (c 0) s ''w1'' ''h'' normalTTL);
     s \<leftarrow> error_is ErrLeaseHeld (b_acquire b None (c 1) s ''w1'' ''h2'' normalTTL);
     Some s }"

definition acquire_after_expiry :: "'s it" where
  "acquire_after_expiry b c s = do {
     (s, rec1) \<leftarrow> no_error (b_acquire b None (c 0) s ''w1'' ''h'' expiredTTL);
     (s, rec2) \<leftarrow> no_error (b_acquire b None (c 1) s ''w1'' ''h2'' normalTTL);
     expect (lr_token rec1 < lr_token rec2);
     Some s }"

definition acquire_global_tokens :: "'s it" where
  "acquire_global_tokens b c s = do {
     (s, r1) \<leftarrow> no_error (b_acquire b None (c 0) s ''work-a'' ''holder-1'' (60 * second));
     (s, r2) \<leftarrow> no_error (b_acquire b None (c 1) s ''work-b'' ''holder-1'' (60 * second));
     expect (lr_token r1 < lr_token r2);
     Some s }"

definition acquire_keeps_checkpoint :: "'s it" where
  "acquire_keeps_checkpoint b c s = do {
     (s, rec1) \<leftarrow> no_error (b_acquire b None (c 0) s ''w1'' ''h'' expiredTTL);
     s \<leftarrow> succeed (b_checkpoint b None (c 1) s rec1 (text_bytes ''data'') expiredTTL);
     (s, rec2) \<leftarrow> no_error (b_acquire b None (c 2) s ''w1'' ''h2'' normalTTL);
     (s, cp2) \<leftarrow> no_error (b_read_checkpoint b None (c 3) s rec2);
     expect (cp_state cp2 = text_bytes ''data'');
     Some s }"

definition acquire_captures_exit :: "'s it" where
  "acquire_captures_exit b c s = do {
     (s, rec1) \<leftarrow> no_error (b_acquire b None (c 0) s ''acq-prev-1'' ''holder-a'' normalTTL);
     s \<leftarrow> succeed (b_release b None (c 1) s rec1 ExitAbandoned);
     (s, rec2) \<leftarrow> no_error (b_acquire b None (c 2) s ''acq-prev-1'' ''holder-b'' normalTTL);
     (s, cp) \<leftarrow> no_error (b_read_checkpoint b None (c 3) s rec2);
     expect (cp_prev_exit cp = ExitAbandoned);
     expect (cp_prev_holder cp = ''holder-a'');
     Some s }"

section \<open>Checkpoint\<close>

definition checkpoint_persists :: "'s it" where
  "checkpoint_persists b c s = do {
     (s, rec) \<leftarrow> no_error (b_acquire b None (c 0) s ''w1'' ''h'' normalTTL);
     s \<leftarrow> succeed (b_checkpoint b None (c 1) s rec (text_bytes ''payload'') normalTTL);
     (s, cp) \<leftarrow> no_error (b_read_checkpoint b None (c 2) s rec);
     expect (cp_state cp = text_bytes ''payload'');
     Some s }"

definition checkpoint_stale :: "'s it" where
  "checkpoint_stale b c s = do {
     (s, rec) \<leftarrow> no_error (b_acquire b None (c 0) s ''w1'' ''h'' normalTTL);
     s \<leftarrow> fails ErrFenced (b_checkpoint b None (c 1) s (stale rec) (text_bytes ''x'') normalTTL);
     Some s }"

definition checkpoint_never :: "'s it" where
  "checkpoint_never b c s = do {
     s \<leftarrow> fails ErrFenced (b_checkpoint b None (c 0) s neverAcquired (text_bytes ''x'') normalTTL);
     Some s }"

definition checkpoint_keeps_prev :: "'s it" where
  "checkpoint_keeps_prev b c s = do {
     (s, rec1) \<leftarrow> no_error (b_acquire b None (c 0) s ''cp-prev-1'' ''holder-a'' normalTTL);
     s \<leftarrow> succeed (b_release b None (c 1) s rec1 ExitFinished);
     (s, rec2) \<leftarrow> no_error (b_acquire b None (c 2) s ''cp-prev-1'' ''holder-b'' normalTTL);
     s \<leftarrow> succeed (b_checkpoint b None (c 3) s rec2 (text_bytes ''x'') normalTTL);
     (s, cp) \<leftarrow> no_error (b_read_checkpoint b None (c 4) s rec2);
     expect (cp_state cp = text_bytes ''x'');
     expect (cp_prev_exit cp = ExitFinished);
     expect (cp_prev_holder cp = ''holder-a'');
     Some s }"

definition checkpoint_after_release :: "'s it" where
  "checkpoint_after_release b c s = do {
     (s, rec) \<leftarrow> no_error (b_acquire b None (c 0) s ''cp-after-release'' ''holder-a'' normalTTL);
     s \<leftarrow> succeed (b_checkpoint b None (c 1) s rec (text_bytes ''final'') normalTTL);
     s \<leftarrow> succeed (b_release b None (c 2) s rec ExitFinished);
     s \<leftarrow> fails ErrLeaseExpired (b_checkpoint b None (c 3) s rec (text_bytes ''late'') normalTTL);
     (s, rec2) \<leftarrow> no_error (b_acquire b None (c 4) s ''cp-after-release'' ''holder-b'' normalTTL);
     (s, cp) \<leftarrow> no_error (b_read_checkpoint b None (c 5) s rec2);
     expect (cp_state cp = text_bytes ''final'');
     expect (cp_prev_exit cp = ExitFinished);
     expect (cp_prev_holder cp = ''holder-a'');
     Some s }"

definition checkpoint_revives :: "'s it" where
  "checkpoint_revives b c s = do {
     (s, rec) \<leftarrow> no_error (b_acquire b None (c 0) s ''cp-revive'' ''holder-a'' expiredTTL);
     s \<leftarrow> succeed (b_checkpoint b None (c 1) s rec (text_bytes ''revived'') normalTTL);
     s \<leftarrow> error_is ErrLeaseHeld (b_acquire b None (c 2) s ''cp-revive'' ''holder-b'' normalTTL);
     Some s }"

section \<open>Renew\<close>

definition renew_succeeds :: "'s it" where
  "renew_succeeds b c s = do {
     (s, rec) \<leftarrow> no_error (b_acquire b None (c 0) s ''w1'' ''h'' normalTTL);
     s \<leftarrow> succeed (b_renew b None (c 1) s rec normalTTL);
     Some s }"

definition renew_stale :: "'s it" where
  "renew_stale b c s = do {
     (s, rec) \<leftarrow> no_error (b_acquire b None (c 0) s ''w1'' ''h'' normalTTL);
     s \<leftarrow> fails ErrFenced (b_renew b None (c 1) s (stale rec) normalTTL);
     Some s }"

definition renew_never :: "'s it" where
  "renew_never b c s = do {
     s \<leftarrow> fails ErrFenced (b_renew b None (c 0) s neverAcquired normalTTL);
     Some s }"

definition renew_expired_block :: "'s it" where
  "renew_expired_block b c s = do {
     (s, rec) \<leftarrow> no_error (b_acquire b None (c 0) s ''w1'' ''h'' expiredTTL);
     s \<leftarrow> fails ErrLeaseExpired (b_renew b None (c 1) s rec normalTTL);
     Some s }"

definition renew_after_release :: "'s it" where
  "renew_after_release b c s = do {
     (s, rec) \<leftarrow> no_error (b_acquire b None (c 0) s ''w1'' ''h'' normalTTL);
     s \<leftarrow> succeed (b_release b None (c 1) s rec ExitFinished);
     s \<leftarrow> fails ErrLeaseExpired (b_renew b None (c 2) s rec normalTTL);
     (s, rec2) \<leftarrow> no_error (b_acquire b None (c 3) s ''w1'' ''h2'' normalTTL);
     Some s }"

section \<open>Release\<close>

definition release_records :: "'s it" where
  "release_records b c s = do {
     (s, rec) \<leftarrow> no_error (b_acquire b None (c 0) s ''rel-1'' ''holder-a'' normalTTL);
     s \<leftarrow> succeed (b_release b None (c 1) s rec ExitFinished);
     (s, rec2) \<leftarrow> no_error (b_acquire b None (c 2) s ''rel-1'' ''holder-b'' normalTTL);
     (s, cp) \<leftarrow> no_error (b_read_checkpoint b None (c 3) s rec2);
     expect (cp_prev_exit cp = ExitFinished);
     expect (cp_prev_holder cp = ''holder-a'');
     Some s }"

definition release_acquirable :: "'s it" where
  "release_acquirable b c s = do {
     (s, rec) \<leftarrow> no_error (b_acquire b None (c 0) s ''w1'' ''h'' normalTTL);
     s \<leftarrow> succeed (b_release b None (c 1) s rec ExitFinished);
     (s, rec2) \<leftarrow> no_error (b_acquire b None (c 2) s ''w1'' ''h2'' normalTTL);
     Some s }"

definition release_stale :: "'s it" where
  "release_stale b c s = do {
     (s, rec) \<leftarrow> no_error (b_acquire b None (c 0) s ''w1'' ''h'' normalTTL);
     s \<leftarrow> fails ErrFenced (b_release b None (c 1) s (stale rec) ExitFinished);
     Some s }"

text \<open>One round of the loop over the declared modes; its calls start at reading \<open>k\<close>.\<close>

definition release_expired_round :: "'s backend \<Rightarrow> (nat \<Rightarrow> clock) \<Rightarrow> nat \<Rightarrow> exit_mode \<Rightarrow> 's \<Rightarrow> 's option" where
  "release_expired_round b c k mode s = do {
     let workID = ''rel-exp-'' @ exit_mode_string mode;
     (s, rec) \<leftarrow> no_error (b_acquire b None (c k) s workID ''holder-a'' expiredTTL);
     s \<leftarrow> fails ErrLeaseExpired (b_release b None (c (k + 1)) s rec mode);
     (s, rec2) \<leftarrow> no_error (b_acquire b None (c (k + 2)) s workID ''holder-b'' normalTTL);
     (s, cp) \<leftarrow> no_error (b_read_checkpoint b None (c (k + 3)) s rec2);
     expect (cp_prev_exit cp = ExitExpired);
     expect (cp_prev_holder cp = ''holder-a'');
     Some s }"

definition release_expired_block :: "'s it" where
  "release_expired_block b c s = do {
     s \<leftarrow> release_expired_round b c 0 ExitFinished s;
     s \<leftarrow> release_expired_round b c 4 ExitAbandoned s;
     s \<leftarrow> release_expired_round b c 8 ExitRetired s;
     Some s }"

definition release_fencing_first :: "'s it" where
  "release_fencing_first b c s = do {
     (s, rec) \<leftarrow> no_error (b_acquire b None (c 0) s ''rel-order'' ''holder-a'' expiredTTL);
     (s, rec2) \<leftarrow> no_error (b_acquire b None (c 1) s ''rel-order'' ''holder-b'' normalTTL);
     s \<leftarrow> fails ErrFenced (b_release b None (c 2) s rec ExitFinished);
     Some s }"

definition release_invalid_block :: "'s it" where
  "release_invalid_block b c s = do {
     (s, rec) \<leftarrow> no_error (b_acquire b None (c 0) s ''rel-invalid'' ''holder-a'' normalTTL);
     s \<leftarrow> fails ErrInvalidExitMode (b_release b None (c 1) s rec ExitNone);
     s \<leftarrow> fails ErrInvalidExitMode (b_release b None (c 2) s rec ExitExpired);
     s \<leftarrow> fails ErrInvalidExitMode (b_release b None (c 3) s rec 99);
     s \<leftarrow> error_is ErrLeaseHeld (b_acquire b None (c 4) s ''rel-invalid'' ''holder-b'' normalTTL);
     Some s }"

definition release_twice :: "'s it" where
  "release_twice b c s = do {
     (s, rec) \<leftarrow> no_error (b_acquire b None (c 0) s ''rel-twice'' ''holder-a'' normalTTL);
     s \<leftarrow> succeed (b_release b None (c 1) s rec ExitRetired);
     s \<leftarrow> fails ErrLeaseExpired (b_release b None (c 2) s rec ExitAbandoned);
     (s, rec2) \<leftarrow> no_error (b_acquire b None (c 3) s ''rel-twice'' ''holder-b'' normalTTL);
     (s, cp) \<leftarrow> no_error (b_read_checkpoint b None (c 4) s rec2);
     expect (cp_prev_exit cp = ExitRetired);
     Some s }"

section \<open>ReadCheckpoint\<close>

definition read_first :: "'s it" where
  "read_first b c s = do {
     (s, rec) \<leftarrow> no_error (b_acquire b None (c 0) s ''rc-first'' ''holder-a'' normalTTL);
     (s, cp) \<leftarrow> no_error (b_read_checkpoint b None (c 1) s rec);
     expect (cp_state cp = None);
     expect (cp_prev_exit cp = ExitNone);
     expect (cp_prev_holder cp = '''');
     Some s }"

definition read_after_crash :: "'s it" where
  "read_after_crash b c s = do {
     (s, rec1) \<leftarrow> no_error (b_acquire b None (c 0) s ''rc-crash'' ''holder-a'' normalTTL);
     s \<leftarrow> succeed (b_checkpoint b None (c 1) s rec1 (text_bytes ''partial'') expiredTTL);
     (s, rec2) \<leftarrow> no_error (b_acquire b None (c 2) s ''rc-crash'' ''holder-b'' normalTTL);
     (s, cp) \<leftarrow> no_error (b_read_checkpoint b None (c 3) s rec2);
     expect (cp_state cp = text_bytes ''partial'');
     expect (cp_prev_exit cp = ExitExpired);
     expect (cp_prev_holder cp = ''holder-a'');
     Some s }"

definition read_stable :: "'s it" where
  "read_stable b c s = do {
     (s, rec1) \<leftarrow> no_error (b_acquire b None (c 0) s ''rc-stable'' ''holder-a'' normalTTL);
     s \<leftarrow> succeed (b_release b None (c 1) s rec1 ExitRetired);
     (s, rec2) \<leftarrow> no_error (b_acquire b None (c 2) s ''rc-stable'' ''holder-b'' normalTTL);
     (s, first) \<leftarrow> no_error (b_read_checkpoint b None (c 3) s rec2);
     s \<leftarrow> succeed (b_renew b None (c 4) s rec2 normalTTL);
     (s, second) \<leftarrow> no_error (b_read_checkpoint b None (c 5) s rec2);
     expect (cp_prev_exit second = cp_prev_exit first);
     expect (cp_prev_holder second = cp_prev_holder first);
     expect (cp_prev_exit first = ExitRetired);
     Some s }"

definition read_never :: "'s it" where
  "read_never b c s = do {
     s \<leftarrow> error_is ErrFenced (b_read_checkpoint b None (c 0) s neverAcquired);
     Some s }"

definition read_after_forget :: "'s it" where
  "read_after_forget b c s = do {
     (s, rec) \<leftarrow> no_error (b_acquire b None (c 0) s ''rc-forget'' ''holder-a'' normalTTL);
     s \<leftarrow> succeed (b_forget b None (c 1) s rec);
     s \<leftarrow> error_is ErrFenced (b_read_checkpoint b None (c 2) s rec);
     Some s }"

definition read_after_sweep :: "'s it" where
  "read_after_sweep b c s = do {
     (s, rec) \<leftarrow> no_error (b_acquire b None (c 0) s ''rc-sweep'' ''holder-a'' normalTTL);
     s \<leftarrow> succeed (b_release b None (c 1) s rec ExitRetired);
     s \<leftarrow> swept_some (b_sweep b None (c 2) s (sweep_opts 1 False));
     s \<leftarrow> error_is ErrFenced (b_read_checkpoint b None (c 3) s rec);
     Some s }"

definition read_after_forget_new :: "'s it" where
  "read_after_forget_new b c s = do {
     (s, rec) \<leftarrow> no_error (b_acquire b None (c 0) s ''rc-forget-new'' ''holder-a'' normalTTL);
     s \<leftarrow> succeed (b_forget b None (c 1) s rec);
     (s, rec2) \<leftarrow> no_error (b_acquire b None (c 2) s ''rc-forget-new'' ''holder-b'' normalTTL);
     (s, cp) \<leftarrow> no_error (b_read_checkpoint b None (c 3) s rec2);
     expect (cp_prev_exit cp = ExitNone);
     expect (cp_prev_holder cp = '''');
     Some s }"

definition read_empty_round :: "'s backend \<Rightarrow> (nat \<Rightarrow> clock) \<Rightarrow> nat \<Rightarrow> lease_record \<Rightarrow> bytes \<Rightarrow> 's \<Rightarrow> 's option" where
  "read_empty_round b c k rec blank s = do {
     s \<leftarrow> succeed (b_checkpoint b None (c k) s rec (text_bytes ''payload'') normalTTL);
     s \<leftarrow> succeed (b_checkpoint b None (c (k + 1)) s rec blank normalTTL);
     (s, cp) \<leftarrow> no_error (b_read_checkpoint b None (c (k + 2)) s rec);
     expect (cp_state cp = None);
     Some s }"

definition read_empty :: "'s it" where
  "read_empty b c s = do {
     (s, rec) \<leftarrow> no_error (b_acquire b None (c 0) s ''rc-empty'' ''h'' normalTTL);
     s \<leftarrow> read_empty_round b c 1 rec None s;
     s \<leftarrow> read_empty_round b c 4 rec (Some []) s;
     (s, first) \<leftarrow> no_error (b_acquire b None (c 7) s ''rc-empty-first'' ''h'' normalTTL);
     s \<leftarrow> succeed (b_checkpoint b None (c 8) s first (Some []) normalTTL);
     (s, cp) \<leftarrow> no_error (b_read_checkpoint b None (c 9) s first);
     expect (cp_state cp = None);
     Some s }"

definition read_unwritten :: "'s it" where
  "read_unwritten b c s = do {
     (s, rec) \<leftarrow> no_error (b_acquire b None (c 0) s ''w1'' ''h'' normalTTL);
     (s, cp) \<leftarrow> no_error (b_read_checkpoint b None (c 1) s rec);
     expect (cp_state cp = None);
     Some s }"

definition read_stale :: "'s it" where
  "read_stale b c s = do {
     (s, rec) \<leftarrow> no_error (b_acquire b None (c 0) s ''w1'' ''h'' normalTTL);
     s \<leftarrow> error_is ErrFenced (b_read_checkpoint b None (c 1) s (stale rec));
     Some s }"

section \<open>Cancelled context and holder mismatch\<close>

definition cancelled_context :: "'s it" where
  "cancelled_context b c s = do {
     (s, rec) \<leftarrow> no_error (b_acquire b None (c 0) s ''w1'' ''h'' normalTTL);
     s \<leftarrow> succeed (b_checkpoint b None (c 1) s rec (text_bytes ''before'') normalTTL);
     let cancelled = Some CtxCanceled;
     s \<leftarrow> error_is CtxCanceled (b_acquire b cancelled (c 2) s ''w-new'' ''h'' normalTTL);
     s \<leftarrow> fails CtxCanceled (b_checkpoint b cancelled (c 3) s rec (text_bytes ''after'') normalTTL);
     s \<leftarrow> fails CtxCanceled (b_renew b cancelled (c 4) s rec normalTTL);
     s \<leftarrow> fails CtxCanceled (b_release b cancelled (c 5) s rec ExitFinished);
     s \<leftarrow> error_is CtxCanceled (b_read_checkpoint b cancelled (c 6) s rec);
     s \<leftarrow> fails CtxCanceled (b_forget b cancelled (c 7) s rec);
     s \<leftarrow> sweep_fails CtxCanceled (b_sweep b cancelled (c 8) s (sweep_opts 1 True));
     (s, rec2) \<leftarrow> no_error (b_acquire b None (c 9) s ''w-new'' ''h2'' normalTTL);
     (s, cp) \<leftarrow> no_error (b_read_checkpoint b None (c 10) s rec);
     expect (cp_state cp = text_bytes ''before'');
     expect (cp_prev_exit cp = ExitNone);
     s \<leftarrow> error_is ErrLeaseHeld (b_acquire b None (c 11) s (lr_work rec) ''other-holder'' normalTTL);
     Some s }"

definition holder_mismatch :: "'s it" where
  "holder_mismatch b c s = do {
     (s, rec) \<leftarrow> no_error (b_acquire b None (c 0) s ''w1'' ''h'' normalTTL);
     let other = rec\<lparr>lr_holder := ''h-other''\<rparr>;
     s \<leftarrow> fails ErrFenced (b_checkpoint b None (c 1) s other (text_bytes ''x'') normalTTL);
     s \<leftarrow> fails ErrFenced (b_renew b None (c 2) s other normalTTL);
     s \<leftarrow> fails ErrFenced (b_release b None (c 3) s other ExitFinished);
     s \<leftarrow> fails ErrFenced (b_forget b None (c 4) s other);
     (s, cp) \<leftarrow> no_error (b_read_checkpoint b None (c 5) s rec);
     expect (cp_prev_exit cp = ExitNone);
     s \<leftarrow> error_is ErrLeaseHeld (b_acquire b None (c 6) s (lr_work rec) ''third-holder'' normalTTL);
     s \<leftarrow> succeed (b_renew b None (c 7) s rec normalTTL);
     Some s }"

section \<open>Forget\<close>

definition forget_new_token :: "'s it" where
  "forget_new_token b c s = do {
     (s, rec) \<leftarrow> no_error (b_acquire b None (c 0) s ''forget-1'' ''h'' normalTTL);
     s \<leftarrow> succeed (b_forget b None (c 1) s rec);
     (s, rec2) \<leftarrow> no_error (b_acquire b None (c 2) s ''forget-1'' ''h'' normalTTL);
     expect (lr_token rec < lr_token rec2);
     Some s }"

definition forget_stale :: "'s it" where
  "forget_stale b c s = do {
     (s, rec) \<leftarrow> no_error (b_acquire b None (c 0) s ''forget-2'' ''h'' normalTTL);
     s \<leftarrow> fails ErrFenced (b_forget b None (c 1) s (stale rec));
     s \<leftarrow> succeed (b_checkpoint b None (c 2) s rec (text_bytes ''still here'') normalTTL);
     Some s }"

definition forget_never :: "'s it" where
  "forget_never b c s = do {
     s \<leftarrow> fails ErrFenced (b_forget b None (c 0) s neverAcquired);
     Some s }"

definition forget_after_release :: "'s it" where
  "forget_after_release b c s = do {
     (s, rec) \<leftarrow> no_error (b_acquire b None (c 0) s ''forget-after-release'' ''holder-a'' normalTTL);
     s \<leftarrow> succeed (b_release b None (c 1) s rec ExitRetired);
     s \<leftarrow> succeed (b_forget b None (c 2) s rec);
     (s, rec2) \<leftarrow> no_error (b_acquire b None (c 3) s ''forget-after-release'' ''holder-b'' normalTTL);
     (s, cp) \<leftarrow> no_error (b_read_checkpoint b None (c 4) s rec2);
     expect (cp_prev_exit cp = ExitNone);
     Some s }"

section \<open>Sweep\<close>

definition sweep_retired :: "'s it" where
  "sweep_retired b c s = do {
     (s, rec) \<leftarrow> no_error (b_acquire b None (c 0) s ''sweep-retired'' ''holder-a'' normalTTL);
     s \<leftarrow> succeed (b_release b None (c 1) s rec ExitRetired);
     s \<leftarrow> swept_some (b_sweep b None (c 2) s (sweep_opts 1 False));
     (s, rec2) \<leftarrow> no_error (b_acquire b None (c 3) s ''sweep-retired'' ''holder-b'' normalTTL);
     expect (lr_token rec < lr_token rec2);
     (s, cp) \<leftarrow> no_error (b_read_checkpoint b None (c 4) s rec2);
     expect (cp_prev_exit cp = ExitNone);
     Some s }"

definition sweep_keeps_declared :: "'s it" where
  "sweep_keeps_declared b c s = do {
     (s, recF) \<leftarrow> no_error (b_acquire b None (c 0) s ''sweep-finished'' ''holder-a'' normalTTL);
     s \<leftarrow> succeed (b_release b None (c 1) s recF ExitFinished);
     (s, recA) \<leftarrow> no_error (b_acquire b None (c 2) s ''sweep-abandoned'' ''holder-a'' normalTTL);
     s \<leftarrow> succeed (b_release b None (c 3) s recA ExitAbandoned);
     s \<leftarrow> swept_none (b_sweep b None (c 4) s (sweep_opts 1 True));
     Some s }"

definition sweep_expired :: "'s it" where
  "sweep_expired b c s = do {
     (s, rec) \<leftarrow> no_error (b_acquire b None (c 0) s ''sweep-expired'' ''holder-a'' expiredTTL);
     s \<leftarrow> swept_none (b_sweep b None (c 1) s (sweep_opts 1 False));
     s \<leftarrow> swept_some (b_sweep b None (c 2) s (sweep_opts 1 True));
     Some s }"

definition sweep_window :: "'s it" where
  "sweep_window b c s = do {
     (s, rec) \<leftarrow> no_error (b_acquire b None (c 0) s ''sweep-window'' ''holder-a'' normalTTL);
     s \<leftarrow> succeed (b_release b None (c 1) s rec ExitRetired);
     s \<leftarrow> swept_none (b_sweep b None (c 2) s (sweep_opts hour False));
     (s, rec2) \<leftarrow> no_error (b_acquire b None (c 3) s ''sweep-window'' ''holder-b'' normalTTL);
     (s, cp) \<leftarrow> no_error (b_read_checkpoint b None (c 4) s rec2);
     expect (cp_prev_exit cp = ExitRetired);
     expect (cp_prev_holder cp = ''holder-a'');
     Some s }"

definition sweep_held :: "'s it" where
  "sweep_held b c s = do {
     (s, rec) \<leftarrow> no_error (b_acquire b None (c 0) s ''sweep-held'' ''holder-a'' normalTTL);
     s \<leftarrow> swept_none (b_sweep b None (c 1) s (sweep_opts 1 True));
     Some s }"

section \<open>Handoff across three holders\<close>

definition handoff_release_crash :: "'s it" where
  "handoff_release_crash b c s = do {
     (s, recA) \<leftarrow> no_error (b_acquire b None (c 0) s ''seq-1'' ''holder-a'' normalTTL);
     s \<leftarrow> succeed (b_checkpoint b None (c 1) s recA (text_bytes ''a-state'') normalTTL);
     s \<leftarrow> succeed (b_release b None (c 2) s recA ExitFinished);
     (s, recB) \<leftarrow> no_error (b_acquire b None (c 3) s ''seq-1'' ''holder-b'' expiredTTL);
     s \<leftarrow> swept_none (b_sweep b None (c 4) s (sweep_opts 1 False));
     (s, recC) \<leftarrow> no_error (b_acquire b None (c 5) s ''seq-1'' ''holder-c'' normalTTL);
     (s, cp) \<leftarrow> no_error (b_read_checkpoint b None (c 6) s recC);
     expect (cp_prev_exit cp = ExitExpired);
     expect (cp_prev_holder cp = ''holder-b'');
     expect (cp_state cp = text_bytes ''a-state'');
     Some s }"

definition handoff_74 :: "'s it" where
  "handoff_74 b c s = do {
     (s, recA) \<leftarrow> no_error (b_acquire b None (c 0) s ''seq-74'' ''holder-a'' normalTTL);
     s \<leftarrow> succeed (b_checkpoint b None (c 1) s recA (text_bytes ''a-state'') normalTTL);
     s \<leftarrow> succeed (b_release b None (c 2) s recA ExitFinished);
     (s, recB) \<leftarrow> no_error (b_acquire b None (c 3) s ''seq-74'' ''holder-b'' expiredTTL);
     s \<leftarrow> swept_none (b_sweep b None (c 4) s (sweep_opts 1 False));
     s \<leftarrow> swept_some (b_sweep b None (c 5) s (sweep_opts 1 True));
     Some s }"

definition handoff_crash_release :: "'s it" where
  "handoff_crash_release b c s = do {
     (s, recA) \<leftarrow> no_error (b_acquire b None (c 0) s ''seq-2'' ''holder-a'' expiredTTL);
     (s, recB) \<leftarrow> no_error (b_acquire b None (c 1) s ''seq-2'' ''holder-b'' normalTTL);
     (s, cpB) \<leftarrow> no_error (b_read_checkpoint b None (c 2) s recB);
     expect (cp_prev_exit cpB = ExitExpired);
     expect (cp_prev_holder cpB = ''holder-a'');
     s \<leftarrow> succeed (b_release b None (c 3) s recB ExitAbandoned);
     s \<leftarrow> swept_none (b_sweep b None (c 4) s (sweep_opts 1 True));
     (s, recC) \<leftarrow> no_error (b_acquire b None (c 5) s ''seq-2'' ''holder-c'' normalTTL);
     (s, cp) \<leftarrow> no_error (b_read_checkpoint b None (c 6) s recC);
     expect (cp_prev_exit cp = ExitAbandoned);
     expect (cp_prev_holder cp = ''holder-b'');
     Some s }"

definition handoff_release_release :: "'s it" where
  "handoff_release_release b c s = do {
     (s, recA) \<leftarrow> no_error (b_acquire b None (c 0) s ''seq-3'' ''holder-a'' normalTTL);
     s \<leftarrow> succeed (b_release b None (c 1) s recA ExitRetired);
     (s, recB) \<leftarrow> no_error (b_acquire b None (c 2) s ''seq-3'' ''holder-b'' normalTTL);
     (s, cpB) \<leftarrow> no_error (b_read_checkpoint b None (c 3) s recB);
     expect (cp_prev_exit cpB = ExitRetired);
     expect (cp_prev_holder cpB = ''holder-a'');
     s \<leftarrow> succeed (b_release b None (c 4) s recB ExitFinished);
     s \<leftarrow> swept_none (b_sweep b None (c 5) s (sweep_opts 1 False));
     (s, recC) \<leftarrow> no_error (b_acquire b None (c 6) s ''seq-3'' ''holder-c'' normalTTL);
     (s, cp) \<leftarrow> no_error (b_read_checkpoint b None (c 7) s recC);
     expect (cp_prev_exit cp = ExitFinished);
     expect (cp_prev_holder cp = ''holder-b'');
     Some s }"

text \<open>The blocks of the contexts in the order of the suite; \<open>RunSuite\<close> is all of them.\<close>

definition method_blocks :: "'s it list" where
  "method_blocks =
     [acquire_fresh, acquire_held_block, acquire_after_expiry, acquire_global_tokens, acquire_keeps_checkpoint,
      acquire_captures_exit,
      checkpoint_persists, checkpoint_stale, checkpoint_never, checkpoint_keeps_prev, checkpoint_after_release,
      checkpoint_revives,
      renew_succeeds, renew_stale, renew_never, renew_expired_block, renew_after_release,
      release_records, release_acquirable, release_stale, release_expired_block, release_fencing_first,
      release_invalid_block, release_twice]"

definition handoff_blocks :: "'s it list" where
  "handoff_blocks =
     [read_first, read_after_crash, read_stable, read_never, read_after_forget, read_after_sweep,
      read_after_forget_new, read_empty, read_unwritten, read_stale,
      cancelled_context, holder_mismatch,
      forget_new_token, forget_stale, forget_never, forget_after_release,
      sweep_retired, sweep_keeps_declared, sweep_expired, sweep_window, sweep_held,
      handoff_release_crash, handoff_74, handoff_crash_release, handoff_release_release]"

definition RunSuite :: "'s it list" where
  "RunSuite = method_blocks @ handoff_blocks"

definition passes :: "'s backend \<Rightarrow> (nat \<Rightarrow> clock) \<Rightarrow> 's \<Rightarrow> bool" where
  "passes b c s \<longleftrightarrow> list_all (\<lambda>it. it b c s \<noteq> None) RunSuite"

section \<open>The clock of a block\<close>

text \<open>
  Readings do not run backwards, successive calls are at least five microseconds apart, so that a
  rounded retention of a nanosecond passes between them, and a block takes less than 20 seconds, so
  that a lease of 30 seconds lasts for it.
\<close>

definition paced_clocks :: "(nat \<Rightarrow> clock) \<Rightarrow> bool" where
  "paced_clocks c \<longleftrightarrow> (\<forall>k. mono (c k) \<and> ns (c k 2) + 5 * microsecond \<le> ns (c (k + 1) 0)) \<and>
     ns (c 15 0) \<le> ns (c 0 0) + 20 * second"

lemma paced_next:
  assumes "paced_clocks c"
  shows "ns (c k 0) \<le> ns (c k 2)" and "ns (c k 2) + 5000 \<le> ns (c (k + 1) 0)" and "mono (c k)"
  using assms clock_mono [of "c k" 0 2] by (auto simp: paced_clocks_def)

lemma paced_mono:
  assumes "paced_clocks c" and "i < j"
  shows "ns (c i 0) + 5000 \<le> ns (c j 0)"
  using assms(2)
proof (induction j)
  case (Suc j)
  have step: "ns (c j 0) + 5000 \<le> ns (c (Suc j) 0)" using paced_next [OF assms(1), of j] by simp
  show ?case
  proof (cases "i = j")
    case False
    then show ?thesis using Suc step by simp
  qed (use step in simp)
qed simp

text \<open>
  A time that the \<open>k\<close>-th call stores, \<open>d\<close> after the call; and the expiry \<open>Release\<close> stores. The
  lemmas say how such a time compares with a later call of the block.
\<close>

definition stamped :: "(nat \<Rightarrow> clock) \<Rightarrow> nat \<Rightarrow> duration \<Rightarrow> instant \<Rightarrow> bool" where
  "stamped c k d t \<longleftrightarrow> paced_clocks c \<and> ns (c k 0) + d \<le> ns t \<and> ns t + 4000 < ns (c (k + 1) 0) + d"

definition ended :: "(nat \<Rightarrow> clock) \<Rightarrow> nat \<Rightarrow> instant \<Rightarrow> bool" where
  "ended c k t \<longleftrightarrow> paced_clocks c \<and> ns t < ns (c (k + 1) 0)"

definition old_enough :: "duration \<Rightarrow> instant \<Rightarrow> instant \<Rightarrow> bool" where
  "old_enough ret now u \<longleftrightarrow> ret + sweep_slack < ns now - ns u"

definition young :: "duration \<Rightarrow> instant \<Rightarrow> instant \<Rightarrow> bool" where
  "young ret now u \<longleftrightarrow> ns now - ns u \<le> ret - sweep_slack"

lemma stamped_during: "paced_clocks c \<Longrightarrow> during (c k) d t \<Longrightarrow> stamped c k d t"
  using paced_next(2) [of c k] by (auto simp: stamped_def during_def)

lemma paced_span:
  assumes "paced_clocks c" and "j \<le> 15"
  shows "ns (c j 0) \<le> ns (c k 0) + 20 * second"
proof -
  have "ns (c 0 0) \<le> ns (c k 0)" using paced_mono [OF assms(1), of 0 k] by (cases "k = 0") auto
  moreover have "ns (c j 0) \<le> ns (c 15 0)" using paced_mono [OF assms(1), of j 15] assms(2) by (cases "j = 15") auto
  ultimately show ?thesis using assms(1) by (simp add: paced_clocks_def)
qed

lemma paced_later: "paced_clocks c \<Longrightarrow> k < j \<Longrightarrow> ns (c (k + 1) 0) \<le> ns (c j 0)"
  using paced_mono [of c "k + 1" j] by (cases "k + 1 = j") auto

lemma stamped_live [simp]:
  assumes "stamped c k normalTTL e" and "j \<le> 15"
  shows "c j 0 < e" "c j 0 \<le> e" "\<not> e \<le> c j 0" "\<not> e < c j 0"
  using assms(1) paced_span [OF _ assms(2), of c k] by (auto simp: stamped_def normalTTL_def time_simps)

lemma stamped_past [simp]:
  assumes "stamped c k expiredTTL e" and "k < j"
  shows "e < c j 0" "e \<le> c j 0"
  using assms(1) paced_later [OF _ assms(2), of c] by (auto simp: stamped_def expiredTTL_def time_simps)

lemma ended_past [simp]:
  assumes "ended c k e" and "k < j"
  shows "e < c j 0" "e \<le> c j 0"
  using assms(1) paced_later [OF _ assms(2), of c] by (auto simp: ended_def time_simps)

lemma stamped_old [simp]: "stamped c k 0 u \<Longrightarrow> k < j \<Longrightarrow> old_enough 1 (c j 0) u"
  using paced_later [of c k j] by (auto simp: stamped_def old_enough_def)

lemma stamped_young [simp]: "stamped c k 0 u \<Longrightarrow> j \<le> 15 \<Longrightarrow> young hour (c j 0) u"
  using paced_span [of c j k] by (auto simp: stamped_def young_def hour_def)

lemma hour_int64 [simp]: "is_int64 hour"
  by (simp add: is_int64_def hour_def)

section \<open>One rule per call and outcome\<close>

definition passed :: "'x option \<Rightarrow> bool" where
  "passed x \<longleftrightarrow> x \<noteq> None"

lemma passed_simps [simp]:
  "passed (Some x)"
  "\<not> passed None"
  "passed (Option.bind (expect p) f) \<longleftrightarrow> p \<and> passed (f ())"
  by (simp_all add: passed_def expect_def)

text \<open>After \<open>k\<close> calls the state \<open>s\<close> stores the rows \<open>v\<close>, with tokens to spare for 20 calls.\<close>

context lease_backend
begin

definition stores :: "(nat \<Rightarrow> clock) \<Rightarrow> nat \<Rightarrow> 's \<Rightarrow> (string \<Rightarrow> row option) \<Rightarrow> bool" where
  "stores c k s v \<longleftrightarrow> paced_clocks c \<and> inv s \<and> view s = v \<and> issued s + 2 * (20 - k) < token_limit"

lemma stores_step:
  "stores c k s v \<Longrightarrow> inv s' \<Longrightarrow> issued s' \<le> issued s + 2 \<Longrightarrow> k < 20 \<Longrightarrow> stores c (k + 1) s' (view s')"
  by (auto simp: stores_def)

lemma stores_room: "stores c k s v \<Longrightarrow> k < 20 \<Longrightarrow> issued s < token_limit"
  by (simp add: stores_def)

lemma it_acquire:
  assumes "stores c k s v" and "case v w of None \<Rightarrow> True | Some r \<Rightarrow> row_expires r < c k 0" and "k < 20"
    and "\<And>s' tok e u. stores c (k + 1) s' (v(w \<mapsto> successor_row (v w) h tok e u)) \<Longrightarrow> issued s < unat tok \<Longrightarrow>
      issued s' = unat tok \<Longrightarrow> stamped c k ttl e \<Longrightarrow> stamped c k 0 u \<Longrightarrow>
      passed (cont (s', \<lparr>lr_work = w, lr_holder = h, lr_token = tok, lr_expires = e\<rparr>))"
  shows "passed (Option.bind (no_error (b_acquire b None (c k) s w h ttl)) cont)"
proof -
  have s: "paced_clocks c" "inv s" "view s = v" using assms(1) by (simp_all add: stores_def)
  obtain s' tok e u where acq: "b_acquire b None (c k) s w h ttl =
      (s', Inr \<lparr>lr_work = w, lr_holder = h, lr_token = tok, lr_expires = e\<rparr>)"
    "view s' = (view s)(w \<mapsto> successor_row (view s w) h tok e u)" "inv s'" "issued s < unat tok"
    "issued s' = unat tok" "issued s' \<le> issued s + 2" "during (c k) ttl e" "during (c k) 0 u"
    using acquire_free [OF s(2) _ stores_room [OF assms(1,3)], of w "c k" h ttl] assms(2) s(3)
      paced_next(3) [OF s(1)] by (auto split: option.splits)
  have "passed (cont (s', \<lparr>lr_work = w, lr_holder = h, lr_token = tok, lr_expires = e\<rparr>))"
    by (rule assms(4)) (use acq s stores_step [OF assms(1) acq(3,6) assms(3)] stamped_during [OF s(1)] in auto)
  then show ?thesis using acq(1) by (simp add: no_error_def)
qed

lemma it_acquire_held:
  assumes "stores c k s v" and "\<exists>r. v w = Some r \<and> c k 0 \<le> row_expires r" and "k < 20"
    and "\<And>s'. stores c (k + 1) s' v \<Longrightarrow> issued s \<le> issued s' \<Longrightarrow> passed (cont s')"
  shows "passed (Option.bind (error_is ErrLeaseHeld (b_acquire b None (c k) s w h ttl)) cont)"
proof -
  have s: "inv s" "view s = v" using assms(1) by (simp_all add: stores_def)
  obtain s' where acq: "b_acquire b None (c k) s w h ttl = (s', Inl ErrLeaseHeld)" "view s' = v" "inv s'"
    "issued s \<le> issued s'" "issued s' \<le> issued s + 2"
    using acquire_held [OF s(1) _ _ stores_room [OF assms(1,3)], of w _ "c k" h ttl] assms(2) s(2) by blast
  then show ?thesis
    using assms(4) stores_step [OF assms(1) acq(3,5) assms(3)] by (simp add: error_is_def)
qed

text \<open>A call that leaves the state as it is.\<close>

lemma stores_skip: "stores c k s v \<Longrightarrow> stores c (k + 1) s v"
  by (auto simp: stores_def)

lemma it_checkpoint:
  assumes "stores c k s v" and "\<exists>r. v (lr_work rec) = Some r \<and> held_by r rec \<and> row_exit r = ExitNone" and "k < 20"
    and "\<And>s' e u. stores c (k + 1) s' (v(lr_work rec \<mapsto> (the (v (lr_work rec)))
        \<lparr>row_checkpoint := normalize_state st, row_expires := e, row_updated := u\<rparr>)) \<Longrightarrow> issued s' = issued s \<Longrightarrow>
      stamped c k ttl e \<Longrightarrow> stamped c k 0 u \<Longrightarrow> passed (cont s')"
  shows "passed (Option.bind (succeed (b_checkpoint b None (c k) s rec st ttl)) cont)"
proof -
  have s: "paced_clocks c" "inv s" "view s = v" using assms(1) by (simp_all add: stores_def)
  obtain r s' e u where call: "v (lr_work rec) = Some r" "b_checkpoint b None (c k) s rec st ttl = (s', None)"
    "view s' = v(lr_work rec \<mapsto> r\<lparr>row_checkpoint := normalize_state st, row_expires := e, row_updated := u\<rparr>)"
    "inv s'" "issued s' = issued s" "during (c k) ttl e" "during (c k) 0 u"
    using checkpoint_ok [OF s(2), of rec _ "c k" st ttl] assms(2) s(3) paced_next(3) [OF s(1), of k] by blast
  have "passed (cont s')"
    by (rule assms(4)) (use call stores_step [OF assms(1) call(4) _ assms(3)] stamped_during [OF s(1)] in auto)
  then show ?thesis using call(2) by (simp add: succeed_def)
qed

lemma it_renew:
  assumes "stores c k s v" and "\<exists>r. v (lr_work rec) = Some r \<and> held_by r rec \<and> c k 0 < row_expires r" and "k < 20"
    and "\<And>s' e u. stores c (k + 1) s' (v(lr_work rec \<mapsto> (the (v (lr_work rec)))\<lparr>row_expires := e, row_updated := u\<rparr>)) \<Longrightarrow>
      issued s' = issued s \<Longrightarrow> stamped c k ttl e \<Longrightarrow> stamped c k 0 u \<Longrightarrow> passed (cont s')"
  shows "passed (Option.bind (succeed (b_renew b None (c k) s rec ttl)) cont)"
proof -
  have s: "paced_clocks c" "inv s" "view s = v" using assms(1) by (simp_all add: stores_def)
  obtain r s' e u where call: "v (lr_work rec) = Some r" "b_renew b None (c k) s rec ttl = (s', None)"
    "view s' = v(lr_work rec \<mapsto> r\<lparr>row_expires := e, row_updated := u\<rparr>)"
    "inv s'" "issued s' = issued s" "during (c k) ttl e" "during (c k) 0 u"
    using renew_ok [OF s(2), of rec _ "c k" ttl] assms(2) s(3) paced_next(3) [OF s(1), of k] by blast
  have "passed (cont s')"
    by (rule assms(4)) (use call stores_step [OF assms(1) call(4) _ assms(3)] stamped_during [OF s(1)] in auto)
  then show ?thesis using call(2) by (simp add: succeed_def)
qed

lemma it_release:
  assumes "stores c k s v"
    and "declarable m \<and> (\<exists>r. v (lr_work rec) = Some r \<and> held_by r rec \<and> c k 0 < row_expires r)" and "k < 20"
    and "\<And>s' e u. stores c (k + 1) s' (v(lr_work rec \<mapsto> (the (v (lr_work rec)))
        \<lparr>row_exit := m, row_expires := e, row_updated := u\<rparr>)) \<Longrightarrow> issued s' = issued s \<Longrightarrow>
      ended c k e \<Longrightarrow> stamped c k 0 u \<Longrightarrow> passed (cont s')"
  shows "passed (Option.bind (succeed (b_release b None (c k) s rec m)) cont)"
proof -
  have s: "paced_clocks c" "inv s" "view s = v" using assms(1) by (simp_all add: stores_def)
  obtain r s' e u where call: "v (lr_work rec) = Some r" "b_release b None (c k) s rec m = (s', None)"
    "view s' = v(lr_work rec \<mapsto> r\<lparr>row_exit := m, row_expires := e, row_updated := u\<rparr>)"
    "inv s'" "issued s' = issued s" "e < c k 2" "during (c k) 0 u"
    using release_ok [OF s(2), of m rec _ "c k"] assms(2) s(3) paced_next(3) [OF s(1), of k] by blast
  have "passed (cont s')"
    by (rule assms(4))
       (use s(1) call stores_step [OF assms(1) call(4) _ assms(3)] stamped_during [OF s(1)] paced_next(2) [OF s(1), of k]
         in \<open>auto simp: time_simps ended_def\<close>)
  then show ?thesis using call(2) by (simp add: succeed_def)
qed

text \<open>Outcomes that change nothing.\<close>

lemma it_checkpoint_fenced:
  assumes "stores c k s v" and "\<not> (\<exists>r. v (lr_work rec) = Some r \<and> held_by r rec)"
    and "stores c (k + 1) s v \<Longrightarrow> passed (cont s)"
  shows "passed (Option.bind (fails ErrFenced (b_checkpoint b None (c k) s rec st ttl)) cont)"
  using assms(3) [OF stores_skip [OF assms(1)]] checkpoint_fenced [of s rec "c k" st ttl] assms(1,2)
  by (simp add: fails_def stores_def)

lemma it_checkpoint_declared:
  assumes "stores c k s v" and "\<exists>r. v (lr_work rec) = Some r \<and> held_by r rec \<and> row_exit r \<noteq> ExitNone"
    and "stores c (k + 1) s v \<Longrightarrow> passed (cont s)"
  shows "passed (Option.bind (fails ErrLeaseExpired (b_checkpoint b None (c k) s rec st ttl)) cont)"
proof -
  obtain r where "v (lr_work rec) = Some r" "held_by r rec" "row_exit r \<noteq> ExitNone" using assms(2) by blast
  then have "b_checkpoint b None (c k) s rec st ttl = (s, Some ErrLeaseExpired)"
    using checkpoint_declared [of s rec r "c k" st ttl] assms(1) by (simp add: stores_def)
  then show ?thesis using assms(3) [OF stores_skip [OF assms(1)]] by (simp add: fails_def)
qed

lemma it_renew_fenced:
  assumes "stores c k s v" and "\<not> (\<exists>r. v (lr_work rec) = Some r \<and> held_by r rec)"
    and "stores c (k + 1) s v \<Longrightarrow> passed (cont s)"
  shows "passed (Option.bind (fails ErrFenced (b_renew b None (c k) s rec ttl)) cont)"
  using assms(3) [OF stores_skip [OF assms(1)]] renew_fenced [of s rec "c k" ttl] assms(1,2)
  by (simp add: fails_def stores_def)

lemma it_renew_expired:
  assumes "stores c k s v" and "\<exists>r. v (lr_work rec) = Some r \<and> held_by r rec \<and> row_expires r \<le> c k 0"
    and "stores c (k + 1) s v \<Longrightarrow> passed (cont s)"
  shows "passed (Option.bind (fails ErrLeaseExpired (b_renew b None (c k) s rec ttl)) cont)"
proof -
  obtain r where "v (lr_work rec) = Some r" "held_by r rec" "row_expires r \<le> c k 0" using assms(2) by blast
  then have "b_renew b None (c k) s rec ttl = (s, Some ErrLeaseExpired)"
    using renew_expired [of s rec r "c k" ttl] assms(1) by (simp add: stores_def)
  then show ?thesis using assms(3) [OF stores_skip [OF assms(1)]] by (simp add: fails_def)
qed

lemma it_release_fenced:
  assumes "stores c k s v" and "declarable m \<and> \<not> (\<exists>r. v (lr_work rec) = Some r \<and> held_by r rec)"
    and "stores c (k + 1) s v \<Longrightarrow> passed (cont s)"
  shows "passed (Option.bind (fails ErrFenced (b_release b None (c k) s rec m)) cont)"
  using assms(3) [OF stores_skip [OF assms(1)]] release_fenced [of s m rec "c k"] assms(1,2)
  by (simp add: fails_def stores_def)

lemma it_release_expired:
  assumes "stores c k s v"
    and "declarable m \<and> (\<exists>r. v (lr_work rec) = Some r \<and> held_by r rec \<and> row_expires r \<le> c k 0)"
    and "stores c (k + 1) s v \<Longrightarrow> passed (cont s)"
  shows "passed (Option.bind (fails ErrLeaseExpired (b_release b None (c k) s rec m)) cont)"
proof -
  obtain r where "v (lr_work rec) = Some r" "held_by r rec" "row_expires r \<le> c k 0" using assms(2) by blast
  then have "b_release b None (c k) s rec m = (s, Some ErrLeaseExpired)"
    using release_expired [of s m rec r "c k"] assms(1,2) by (simp add: stores_def)
  then show ?thesis using assms(3) [OF stores_skip [OF assms(1)]] by (simp add: fails_def)
qed

lemma it_release_invalid:
  assumes "stores c k s v" and "\<not> declarable m" and "stores c (k + 1) s v \<Longrightarrow> passed (cont s)"
  shows "passed (Option.bind (fails ErrInvalidExitMode (b_release b None (c k) s rec m)) cont)"
  using assms(3) [OF stores_skip [OF assms(1)]] release_invalid [OF assms(2), of None "c k" s rec]
  by (simp add: fails_def)

lemma it_read:
  assumes "stores c k s v" and "\<exists>r. v (lr_work rec) = Some r \<and> row_token r = lr_token rec"
    and "stores c (k + 1) s v \<Longrightarrow> passed (cont (s, \<lparr>cp_state = row_checkpoint (the (v (lr_work rec))),
      cp_prev_exit = row_prev_exit (the (v (lr_work rec))), cp_prev_holder = row_prev_holder (the (v (lr_work rec)))\<rparr>))"
  shows "passed (Option.bind (no_error (b_read_checkpoint b None (c k) s rec)) cont)"
proof -
  obtain r where "v (lr_work rec) = Some r" "row_token r = lr_token rec" using assms(2) by blast
  then show ?thesis
    using read_ok [of s rec r "c k"] assms(3) [OF stores_skip [OF assms(1)]] assms(1)
    by (simp add: no_error_def stores_def)
qed

lemma it_read_fenced:
  assumes "stores c k s v" and "\<not> (\<exists>r. v (lr_work rec) = Some r \<and> row_token r = lr_token rec)"
    and "stores c (k + 1) s v \<Longrightarrow> passed (cont s)"
  shows "passed (Option.bind (error_is ErrFenced (b_read_checkpoint b None (c k) s rec)) cont)"
  using assms(3) [OF stores_skip [OF assms(1)]] read_fenced [of s rec "c k"] assms(1,2)
  by (simp add: error_is_def stores_def)

lemma it_forget:
  assumes "stores c k s v" and "\<exists>r. v (lr_work rec) = Some r \<and> held_by r rec" and "k < 20"
    and "\<And>s'. stores c (k + 1) s' (v(lr_work rec := None)) \<Longrightarrow> issued s' = issued s \<Longrightarrow> passed (cont s')"
  shows "passed (Option.bind (succeed (b_forget b None (c k) s rec)) cont)"
proof -
  obtain r s' where call: "b_forget b None (c k) s rec = (s', None)" "view s' = v(lr_work rec := None)"
    "inv s'" "issued s' = issued s"
    using forget_ok [of s rec _ "c k"] assms(1,2) by (auto simp: stores_def)
  then show ?thesis
    using assms(4) [of s'] stores_step [OF assms(1) call(3) _ assms(3)] by (simp add: succeed_def)
qed

lemma it_forget_fenced:
  assumes "stores c k s v" and "\<not> (\<exists>r. v (lr_work rec) = Some r \<and> held_by r rec)"
    and "stores c (k + 1) s v \<Longrightarrow> passed (cont s)"
  shows "passed (Option.bind (fails ErrFenced (b_forget b None (c k) s rec)) cont)"
  using assms(3) [OF stores_skip [OF assms(1)]] forget_fenced [of s rec "c k"] assms(1,2)
  by (simp add: fails_def stores_def)

lemma it_sweep_none:
  assumes "stores c k s v" and "\<And>w. case v w of None \<Rightarrow> True | Some r \<Rightarrow>
      c k 0 \<le> row_expires r \<or> row_exit r = ExitFinished \<or> row_exit r = ExitAbandoned \<or>
      (row_exit r = ExitNone \<and> \<not> ie) \<or> young ret (c k 0) (row_updated r)"
    and "is_int64 ret \<and> k < 20" and "\<And>s'. stores c (k + 1) s' v \<Longrightarrow> issued s' = issued s \<Longrightarrow> passed (cont s')"
  shows "passed (Option.bind (swept_none (b_sweep b None (c k) s (sweep_opts ret ie))) cont)"
proof -
  have s: "inv s" "view s = v" using assms(1) by (simp_all add: stores_def)
  have "is_int64 (so_retention (sweep_opts ret ie))" using assms(3) by (simp add: sweep_opts_def)
  from sweep_ok [OF s(1) this, of "c k"] obtain s' n where call:
    "b_sweep b None (c k) s (sweep_opts ret ie) = (s', n, None)" "inv s'" "issued s' = issued s"
    "n = int (card (dom v - dom (view s')))" "\<And>w. view s' w = v w \<or> view s' w = None"
    "\<And>w r. v w = Some r \<Longrightarrow> view s' w = None \<Longrightarrow> sweepable (c k 0) (sweep_opts ret ie) r \<and>
       so_retention (sweep_opts ret ie) - sweep_slack < ns (c k 0) - ns (row_updated r)"
    unfolding s(2) by blast
  have "view s' w = v w" for w
    using call(5) [of w] call(6) [of w] assms(2) [of w]
    by (cases "v w") (auto simp: sweepable_def sweep_opts_def young_def)
  then have "view s' = v" by blast
  then show ?thesis
    using call(1-4) assms(4) [of s'] stores_step [OF assms(1) call(2)] assms(3) by (simp add: swept_none_def)
qed

lemma it_sweep_some:
  assumes "stores c k s v" and "v \<noteq> Map.empty"
    and "\<And>w. case v w of None \<Rightarrow> True | Some r \<Rightarrow> row_expires r < c k 0 \<and>
      (row_exit r = ExitRetired \<or> ie \<and> row_exit r = ExitNone) \<and> old_enough ret (c k 0) (row_updated r)"
    and "is_int64 ret \<and> ret < 2 ^ 63 - 1 \<and> k < 20"
    and "\<And>s'. stores c (k + 1) s' Map.empty \<Longrightarrow> issued s' = issued s \<Longrightarrow> passed (cont s')"
  shows "passed (Option.bind (swept_some (b_sweep b None (c k) s (sweep_opts ret ie))) cont)"
proof -
  have s: "inv s" "view s = v" using assms(1) by (simp_all add: stores_def)
  have ret: "is_int64 (so_retention (sweep_opts ret ie))" "so_retention (sweep_opts ret ie) = ret"
    using assms(4) by (simp_all add: sweep_opts_def)
  from sweep_ok [OF s(1) ret(1), of "c k"] obtain s' n where call:
    "b_sweep b None (c k) s (sweep_opts ret ie) = (s', n, None)" "inv s'" "issued s' = issued s"
    "n = int (card (dom v - dom (view s')))" "\<And>w. view s' w = v w \<or> view s' w = None"
    "\<And>w r. v w = Some r \<Longrightarrow> sweepable (c k 0) (sweep_opts ret ie) r \<Longrightarrow>
       ret + sweep_slack < ns (c k 0) - ns (row_updated r) \<Longrightarrow> ret < 2 ^ 63 - 1 \<Longrightarrow> view s' w = None"
    unfolding s(2) ret(2) by blast
  have "view s' w = None" for w
    using call(5) [of w] call(6) [of w] assms(3) [of w] assms(4)
    by (cases "v w") (auto simp: sweepable_def sweep_opts_def old_enough_def)
  then have empty: "view s' = Map.empty" by blast
  have "finite (dom v)" using finite_view [OF s(1)] s(2) by simp
  then have "0 < card (dom v)" using assms(2) by (simp add: card_gt_0_iff)
  then show ?thesis
    using call(1-4) empty assms(5) [of s'] stores_step [OF assms(1) call(2)] assms(4) by (simp add: swept_some_def)
qed

text \<open>Calls under a cancelled context.\<close>

lemma it_cancelled_acquire:
  assumes "stores c k s v" and "stores c (k + 1) s v \<Longrightarrow> passed (cont s)"
  shows "passed (Option.bind (error_is CtxCanceled (b_acquire b (Some CtxCanceled) (c k) s w h ttl)) cont)"
  using assms(2) [OF stores_skip [OF assms(1)]] acquire_ctx [of CtxCanceled "c k" s w h ttl]
  by (auto simp: error_is_def ctx_error_def)

lemma it_cancelled_checkpoint:
  assumes "stores c k s v" and "stores c (k + 1) s v \<Longrightarrow> passed (cont s)"
  shows "passed (Option.bind (fails CtxCanceled (b_checkpoint b (Some CtxCanceled) (c k) s rec st ttl)) cont)"
  using assms(2) [OF stores_skip [OF assms(1)]] checkpoint_ctx [of CtxCanceled "c k" s rec st ttl]
  by (auto simp: fails_def ctx_error_def)

lemma it_cancelled_renew:
  assumes "stores c k s v" and "stores c (k + 1) s v \<Longrightarrow> passed (cont s)"
  shows "passed (Option.bind (fails CtxCanceled (b_renew b (Some CtxCanceled) (c k) s rec ttl)) cont)"
  using assms(2) [OF stores_skip [OF assms(1)]] renew_ctx [of CtxCanceled "c k" s rec ttl]
  by (auto simp: fails_def ctx_error_def)

lemma it_cancelled_release:
  assumes "stores c k s v" and "declarable m" and "stores c (k + 1) s v \<Longrightarrow> passed (cont s)"
  shows "passed (Option.bind (fails CtxCanceled (b_release b (Some CtxCanceled) (c k) s rec m)) cont)"
  using assms(3) [OF stores_skip [OF assms(1)]] release_ctx [OF assms(2), of CtxCanceled "c k" s rec]
  by (auto simp: fails_def ctx_error_def)

lemma it_cancelled_read:
  assumes "stores c k s v" and "stores c (k + 1) s v \<Longrightarrow> passed (cont s)"
  shows "passed (Option.bind (error_is CtxCanceled (b_read_checkpoint b (Some CtxCanceled) (c k) s rec)) cont)"
  using assms(2) [OF stores_skip [OF assms(1)]] read_ctx [of CtxCanceled "c k" s rec]
  by (auto simp: error_is_def ctx_error_def)

lemma it_cancelled_forget:
  assumes "stores c k s v" and "stores c (k + 1) s v \<Longrightarrow> passed (cont s)"
  shows "passed (Option.bind (fails CtxCanceled (b_forget b (Some CtxCanceled) (c k) s rec)) cont)"
  using assms(2) [OF stores_skip [OF assms(1)]] forget_ctx [of CtxCanceled "c k" s rec]
  by (auto simp: fails_def ctx_error_def)

lemma it_cancelled_sweep:
  assumes "stores c k s v" and "stores c (k + 1) s v \<Longrightarrow> passed (cont s)"
  shows "passed (Option.bind (sweep_fails CtxCanceled (b_sweep b (Some CtxCanceled) (c k) s opts)) cont)"
  using assms(2) [OF stores_skip [OF assms(1)]] sweep_ctx [of CtxCanceled "c k" s opts]
  by (auto simp: sweep_fails_def fails_def ctx_error_def)

lemma normalize_text [simp]: "t \<noteq> [] \<Longrightarrow> normalize_state (text_bytes t) = text_bytes t"
  by (simp add: normalize_state_def text_bytes_def)

lemma sweep_opts_sel [simp]:
  "so_retention (sweep_opts ret ie) = ret" "so_include_expired (sweep_opts ret ie) = ie"
  by (simp_all add: sweep_opts_def)

lemma one_int64 [simp]: "is_int64 1"
  by (simp add: is_int64_def)

lemma exit_mode_99 [simp]: "99 \<noteq> ExitFinished" "99 \<noteq> ExitAbandoned" "99 \<noteq> ExitRetired"
  by (simp_all add: exit_mode_defs)

lemmas it_rules =
  it_acquire it_acquire_held it_checkpoint it_checkpoint_fenced it_checkpoint_declared it_renew it_renew_fenced
  it_renew_expired it_release it_release_fenced it_release_expired it_release_invalid it_read it_read_fenced
  it_forget it_forget_fenced it_sweep_none it_sweep_some it_cancelled_acquire it_cancelled_checkpoint
  it_cancelled_renew it_cancelled_release it_cancelled_read it_cancelled_forget it_cancelled_sweep

lemmas it_simps =
  held_by_def stale_def declarable_iff neverAcquired_def word_less_nat_alt numeral_2_eq_2 [symmetric]
  Let_def

lemmas block_defs =
  acquire_fresh_def acquire_held_block_def acquire_after_expiry_def acquire_global_tokens_def
  acquire_keeps_checkpoint_def acquire_captures_exit_def checkpoint_persists_def checkpoint_stale_def
  checkpoint_never_def checkpoint_keeps_prev_def checkpoint_after_release_def checkpoint_revives_def
  renew_succeeds_def renew_stale_def renew_never_def renew_expired_block_def renew_after_release_def
  release_records_def release_acquirable_def release_stale_def release_expired_block_def
  release_fencing_first_def release_invalid_block_def release_twice_def read_first_def read_after_crash_def
  read_stable_def read_never_def read_after_forget_def read_after_sweep_def read_after_forget_new_def
  read_empty_def read_unwritten_def read_stale_def cancelled_context_def holder_mismatch_def
  forget_new_token_def forget_stale_def forget_never_def forget_after_release_def sweep_retired_def
  sweep_keeps_declared_def sweep_expired_def sweep_window_def sweep_held_def handoff_release_crash_def
  handoff_74_def handoff_crash_release_def handoff_release_release_def release_expired_round_def
  read_empty_round_def

text \<open>Every block passes, by the rules of its calls in their order.\<close>

lemma method_blocks_passed:
  assumes "stores c 0 s Map.empty"
  shows "list_all (\<lambda>it. passed (it b c s)) method_blocks"
  unfolding method_blocks_def list.pred_inject simp_thms block_defs
  by (intro conjI; insert assms; (simp add: exit_mode_string_def it_simps del: Option.bind_runit)?;
      ((rule it_rules [where c = c], assumption, (simp add: it_simps split: if_splits del: Option.bind_runit)+)+))

lemma handoff_blocks_passed:
  assumes "stores c 0 s Map.empty"
  shows "list_all (\<lambda>it. passed (it b c s)) handoff_blocks"
  unfolding handoff_blocks_def list.pred_inject simp_thms block_defs
  by (intro conjI; insert assms; (simp add: it_simps del: Option.bind_runit)?;
      ((rule it_rules [where c = c], assumption, (simp add: it_simps split: if_splits del: Option.bind_runit)+)+))

lemma suite_passed:
  assumes "paced_clocks c" and "inv s" and "view s = Map.empty" and "issued s + 40 < token_limit"
  shows "passes b c s"
proof -
  have "stores c 0 s Map.empty" using assms by (simp add: stores_def)
  then show ?thesis
    using method_blocks_passed handoff_blocks_passed
    by (simp add: passes_def RunSuite_def passed_def flip: not_None_eq)
qed

end

text \<open>
  C8. The PostgreSQL backend conforms: every block of the suite but the two on slice aliasing
  passes on an empty table, at whatever value
  earlier runs left the token sequence.
\<close>

theorem postgres_passes_suite:
  assumes "paced_clocks c" and "0 \<le> q" and "q < 2 ^ 63 - 42"
  shows "passes postgres c \<lparr>pg_rows = [], pg_seq = q\<rparr>"
proof (rule pg.suite_passed [OF assms(1)])
  show "pg_inv \<lparr>pg_rows = [], pg_seq = q\<rparr>" using assms(2,3) by (simp add: pg_inv_def)
  show "pg_issued \<lparr>pg_rows = [], pg_seq = q\<rparr> + 40 < token_limit"
    using assms(2,3) by (simp add: pg_issued_def token_limit_def nat_less_iff)
qed (rule pg_view_nil)

text \<open>Calls 10 microseconds apart; a run finds the sequence at 1000.\<close>

definition ex_paced :: "nat \<Rightarrow> clock" where
  "ex_paced k j = At (10000 * int k)"

lemma ex_paced_ok: "paced_clocks ex_paced"
  by (auto simp: paced_clocks_def ex_paced_def mono_def)

theorem postgres_passes_suite_witness: "passes postgres ex_paced \<lparr>pg_rows = [], pg_seq = 1000\<rparr>"
  by (rule postgres_passes_suite [OF ex_paced_ok]) simp_all

end
