(* ===== verification/Slices.thy ===== *)
theory Slices
  imports Conformance
begin

text \<open>
  The byte slices of \<open>backend/memory/memory.go\<close>, with the arrays they point to.

  The theory \<open>Memory\<close> treats a checkpoint as a value. In Go it is a slice of an array that others may
  write to: the caller's after \<open>Checkpoint\<close>, and whoever \<open>ReadCheckpoint\<close> returned a slice to.
  Here a slice is an array's address with an offset and a length, the arrays live in a heap, and
  the backend stores and returns slices, copying where the code copies. A process is the backend with
  callers that make arrays, write to every array they can reach, and call the backend with slices of
  them. The theorem is that they cannot tell this backend from the one that stores values.
\<close>

section \<open>Slices and arrays\<close>

record slice =
  sl_array :: nat
  sl_offset :: nat
  sl_length :: nat

text \<open>The arrays allocated so far have the addresses below \<open>hp_limit\<close>.\<close>

record heap =
  hp_arrays :: "nat \<Rightarrow> u8 list"
  hp_limit :: nat

definition slice_ok :: "heap \<Rightarrow> slice \<Rightarrow> bool" where
  "slice_ok h s \<longleftrightarrow> sl_array s < hp_limit h \<and>
     sl_offset s + sl_length s \<le> length (hp_arrays h (sl_array s))"

definition contents :: "heap \<Rightarrow> slice \<Rightarrow> u8 list" where
  "contents h s = take (sl_length s) (drop (sl_offset s) (hp_arrays h (sl_array s)))"

definition bytes_of :: "heap \<Rightarrow> slice option \<Rightarrow> bytes" where
  "bytes_of h = map_option (contents h)"

text \<open>Go's \<open>make([]byte, n)\<close>, \<open>copy\<close>, and the assignment \<open>s[i] = v\<close>, a panic out of range.\<close>

definition make_slice :: "nat \<Rightarrow> heap \<Rightarrow> heap \<times> slice" where
  "make_slice n h =
     (h\<lparr>hp_arrays := (hp_arrays h)(hp_limit h := replicate n 0), hp_limit := hp_limit h + 1\<rparr>,
      \<lparr>sl_array = hp_limit h, sl_offset = 0, sl_length = n\<rparr>)"

definition copy_slice :: "slice \<Rightarrow> slice \<Rightarrow> heap \<Rightarrow> heap" where
  "copy_slice dst src h =
     (let n = min (sl_length dst) (sl_length src);
          old = hp_arrays h (sl_array dst)
      in h\<lparr>hp_arrays := (hp_arrays h)(sl_array dst :=
           take (sl_offset dst) old @ take n (contents h src) @ drop (sl_offset dst + n) old)\<rparr>)"

definition set_byte :: "slice option \<Rightarrow> nat \<Rightarrow> u8 \<Rightarrow> heap \<Rightarrow> heap option" where
  "set_byte sl i v h =
     (case sl of
        None \<Rightarrow> None
      | Some s \<Rightarrow>
          if i < sl_length s
          then Some (h\<lparr>hp_arrays := (hp_arrays h)(sl_array s :=
                 (hp_arrays h (sl_array s))[sl_offset s + i := v])\<rparr>)
          else None)"

text \<open>A fresh copy of a slice, the idiom of \<open>Checkpoint\<close> and \<open>ReadCheckpoint\<close>.\<close>

definition clone :: "slice \<Rightarrow> heap \<Rightarrow> heap \<times> slice" where
  "clone src h = (let (h, dst) = make_slice (sl_length src) h in (copy_slice dst src h, dst))"

lemma contents_length: "slice_ok h s \<Longrightarrow> length (contents h s) = sl_length s"
  by (auto simp: slice_ok_def contents_def)

lemma contents_cong: "hp_arrays h' (sl_array s) = hp_arrays h (sl_array s) \<Longrightarrow> contents h' s = contents h s"
  by (simp add: contents_def)

lemma clone_ok:
  assumes "slice_ok h s" and "clone s h = (h', d)"
  shows "contents h' d = contents h s" and "sl_array d = hp_limit h" and "sl_length d = sl_length s"
    and "slice_ok h' d" and "hp_limit h' = hp_limit h + 1"
    and "a \<noteq> hp_limit h \<Longrightarrow> hp_arrays h' a = hp_arrays h a"
proof -
  let ?m = "fst (make_slice (sl_length s) h)"
  have src: "contents ?m s = contents h s"
    using assms(1) by (intro contents_cong) (simp add: make_slice_def slice_ok_def)
  have eq: "h' = copy_slice d s ?m" "d = \<lparr>sl_array = hp_limit h, sl_offset = 0, sl_length = sl_length s\<rparr>"
    using assms(2) by (auto simp: clone_def make_slice_def)
  then show "sl_array d = hp_limit h" "sl_length d = sl_length s" "hp_limit h' = hp_limit h + 1"
    "contents h' d = contents h s" "slice_ok h' d" "a \<noteq> hp_limit h \<Longrightarrow> hp_arrays h' a = hp_arrays h a"
    using contents_length [OF assms(1)] unfolding eq(1) copy_slice_def Let_def src
    by (simp_all add: make_slice_def contents_def slice_ok_def)
qed

section \<open>The backend over slices\<close>

text \<open>Go's \<open>record\<close>, and the backend with the heap it shares with its callers.\<close>

record cell =
  cl_holder :: string
  cl_token :: u64
  cl_expires :: instant
  cl_checkpoint :: "slice option"
  cl_exit :: exit_mode
  cl_prev_exit :: exit_mode
  cl_prev_holder :: string
  cl_updated :: instant

record slice_backend =
  sb_heap :: heap
  sb_records :: "(string \<times> cell) list"
  sb_seq :: u64

record slice_checkpoint =
  sc_state :: "slice option"
  sc_prev_exit :: exit_mode
  sc_prev_holder :: string

definition sb_new :: slice_backend where
  "sb_new = \<lparr>sb_heap = \<lparr>hp_arrays = (\<lambda>a. []), hp_limit = 0\<rparr>, sb_records = [], sb_seq = 0\<rparr>"

definition cell_held_by :: "cell \<Rightarrow> lease_record \<Rightarrow> bool" where
  "cell_held_by r rec \<longleftrightarrow> cl_holder r = lr_holder rec \<and> cl_token r = lr_token rec"

definition sb_put :: "string \<Rightarrow> cell \<Rightarrow> slice_backend \<Rightarrow> slice_backend" where
  "sb_put workID r sb = sb\<lparr>sb_records := AList.update workID r (sb_records sb)\<rparr>"

definition sb_acquire ::
  "ctx_err \<Rightarrow> clock \<Rightarrow> slice_backend \<Rightarrow> string \<Rightarrow> string \<Rightarrow> duration \<Rightarrow>
   slice_backend \<times> (gerror + lease_record)" where
  "sb_acquire c clk sb workID holderID ttl =
     (case c of
        Some e \<Rightarrow> (sb, Inl (Wrap ''memory: Acquire'' e))
      | None \<Rightarrow>
          (case map_of (sb_records sb) workID of
             None \<Rightarrow>
               let r = \<lparr>cl_holder = holderID, cl_token = sb_seq sb + 1, cl_expires = time_add (clk 0) ttl,
                        cl_checkpoint = None, cl_exit = ExitNone, cl_prev_exit = ExitNone,
                        cl_prev_holder = '''', cl_updated = clk 1\<rparr>
               in (sb_put workID r (sb\<lparr>sb_seq := cl_token r\<rparr>),
                   Inr \<lparr>lr_work = workID, lr_holder = holderID, lr_token = cl_token r, lr_expires = cl_expires r\<rparr>)
           | Some old \<Rightarrow>
               if \<not> time_after (clk 0) (cl_expires old) then (sb, Inl ErrLeaseHeld)
               else
                 let r = \<lparr>cl_holder = holderID, cl_token = sb_seq sb + 1, cl_expires = time_add (clk 1) ttl,
                          cl_checkpoint = cl_checkpoint old, cl_exit = ExitNone,
                          cl_prev_exit = (if cl_exit old = ExitNone then ExitExpired else cl_exit old),
                          cl_prev_holder = cl_holder old, cl_updated = clk 2\<rparr>
                 in (sb_put workID r (sb\<lparr>sb_seq := cl_token r\<rparr>),
                     Inr \<lparr>lr_work = workID, lr_holder = holderID, lr_token = cl_token r,
                          lr_expires = cl_expires r\<rparr>)))"

definition sb_checkpoint ::
  "ctx_err \<Rightarrow> clock \<Rightarrow> slice_backend \<Rightarrow> lease_record \<Rightarrow> slice option \<Rightarrow> duration \<Rightarrow>
   slice_backend \<times> gerror option" where
  "sb_checkpoint c clk sb rec state ttl =
     (case c of
        Some e \<Rightarrow> (sb, Some (Wrap ''memory: Checkpoint'' e))
      | None \<Rightarrow>
          (case map_of (sb_records sb) (lr_work rec) of
             None \<Rightarrow> (sb, Some ErrFenced)
           | Some r \<Rightarrow>
               if \<not> cell_held_by r rec then (sb, Some ErrFenced)
               else if cl_exit r \<noteq> ExitNone then (sb, Some ErrLeaseExpired)
               else
                 let (h, stored) =
                       (case state of
                          None \<Rightarrow> (sb_heap sb, None)
                        | Some src \<Rightarrow>
                            if sl_length src = 0 then (sb_heap sb, None)
                            else map_prod id Some (clone src (sb_heap sb)));
                     r' = r\<lparr>cl_checkpoint := stored, cl_expires := time_add (clk 0) ttl, cl_updated := clk 1\<rparr>
                 in (sb_put (lr_work rec) r' (sb\<lparr>sb_heap := h\<rparr>), None)))"

definition sb_renew ::
  "ctx_err \<Rightarrow> clock \<Rightarrow> slice_backend \<Rightarrow> lease_record \<Rightarrow> duration \<Rightarrow> slice_backend \<times> gerror option" where
  "sb_renew c clk sb rec ttl =
     (case c of
        Some e \<Rightarrow> (sb, Some (Wrap ''memory: Renew'' e))
      | None \<Rightarrow>
          (case map_of (sb_records sb) (lr_work rec) of
             None \<Rightarrow> (sb, Some ErrFenced)
           | Some r \<Rightarrow>
               if \<not> cell_held_by r rec then (sb, Some ErrFenced)
               else if \<not> time_before (clk 0) (cl_expires r) then (sb, Some ErrLeaseExpired)
               else (sb_put (lr_work rec) (r\<lparr>cl_expires := time_add (clk 1) ttl, cl_updated := clk 2\<rparr>) sb, None)))"

definition sb_release ::
  "ctx_err \<Rightarrow> clock \<Rightarrow> slice_backend \<Rightarrow> lease_record \<Rightarrow> exit_mode \<Rightarrow> slice_backend \<times> gerror option" where
  "sb_release c clk sb rec mode =
     (if mode \<noteq> ExitFinished \<and> mode \<noteq> ExitAbandoned \<and> mode \<noteq> ExitRetired
      then (sb, Some ErrInvalidExitMode)
      else
        (case c of
           Some e \<Rightarrow> (sb, Some (Wrap ''memory: Release'' e))
         | None \<Rightarrow>
             (case map_of (sb_records sb) (lr_work rec) of
                None \<Rightarrow> (sb, Some ErrFenced)
              | Some r \<Rightarrow>
                  if \<not> cell_held_by r rec then (sb, Some ErrFenced)
                  else if \<not> time_after (cl_expires r) (clk 0) then (sb, Some ErrLeaseExpired)
                  else
                    (sb_put (lr_work rec)
                       (r\<lparr>cl_exit := mode, cl_expires := time_add (clk 1) releaseGracePeriod, cl_updated := clk 2\<rparr>) sb,
                     None))))"

definition sb_read_checkpoint ::
  "ctx_err \<Rightarrow> clock \<Rightarrow> slice_backend \<Rightarrow> lease_record \<Rightarrow> slice_backend \<times> (gerror + slice_checkpoint)" where
  "sb_read_checkpoint c clk sb rec =
     (case c of
        Some e \<Rightarrow> (sb, Inl (Wrap ''memory: ReadCheckpoint'' e))
      | None \<Rightarrow>
          (case map_of (sb_records sb) (lr_work rec) of
             None \<Rightarrow> (sb, Inl ErrFenced)
           | Some r \<Rightarrow>
               if cl_token r \<noteq> lr_token rec then (sb, Inl ErrFenced)
               else
                 (case cl_checkpoint r of
                    None \<Rightarrow>
                      (sb, Inr \<lparr>sc_state = None, sc_prev_exit = cl_prev_exit r, sc_prev_holder = cl_prev_holder r\<rparr>)
                  | Some stored \<Rightarrow>
                      let (h, out) = clone stored (sb_heap sb)
                      in (sb\<lparr>sb_heap := h\<rparr>,
                          Inr \<lparr>sc_state = Some out, sc_prev_exit = cl_prev_exit r,
                               sc_prev_holder = cl_prev_holder r\<rparr>))))"

definition sb_forget ::
  "ctx_err \<Rightarrow> clock \<Rightarrow> slice_backend \<Rightarrow> lease_record \<Rightarrow> slice_backend \<times> gerror option" where
  "sb_forget c clk sb rec =
     (case c of
        Some e \<Rightarrow> (sb, Some (Wrap ''memory: Forget'' e))
      | None \<Rightarrow>
          (case map_of (sb_records sb) (lr_work rec) of
             None \<Rightarrow> (sb, Some ErrFenced)
           | Some r \<Rightarrow>
               if \<not> cell_held_by r rec then (sb, Some ErrFenced)
               else (sb\<lparr>sb_records := AList.delete (lr_work rec) (sb_records sb)\<rparr>, None)))"

fun sb_sweep_loop ::
  "instant \<Rightarrow> sweep_options \<Rightarrow> (string \<times> cell) list \<Rightarrow> (string \<times> cell) list \<times> int" where
  "sb_sweep_loop now opts [] = ([], 0)"
| "sb_sweep_loop now opts ((workID, r) # rest) =
     (let (kept, deleted) = sb_sweep_loop now opts rest
      in if time_sub now (cl_updated r) \<le> so_retention opts then ((workID, r) # kept, deleted)
         else if \<not> time_after now (cl_expires r) then ((workID, r) # kept, deleted)
         else if cl_exit r \<noteq> ExitRetired \<and> \<not> (so_include_expired opts \<and> cl_exit r = ExitNone)
         then ((workID, r) # kept, deleted)
         else (kept, deleted + 1))"

definition sb_sweep ::
  "ctx_err \<Rightarrow> clock \<Rightarrow> slice_backend \<Rightarrow> sweep_options \<Rightarrow> slice_backend \<times> int \<times> gerror option" where
  "sb_sweep c clk sb opts =
     (case c of
        Some e \<Rightarrow> (sb, 0, Some (Wrap ''memory: Sweep'' e))
      | None \<Rightarrow>
          let (kept, deleted) = sb_sweep_loop (clk 0) opts (sb_records sb)
          in (sb\<lparr>sb_records := kept\<rparr>, deleted, None))"

section \<open>The values behind the slices\<close>

definition row_of :: "heap \<Rightarrow> cell \<Rightarrow> row" where
  "row_of h r =
     \<lparr>row_holder = cl_holder r, row_token = cl_token r, row_expires = cl_expires r,
      row_checkpoint = bytes_of h (cl_checkpoint r), row_exit = cl_exit r, row_prev_exit = cl_prev_exit r,
      row_prev_holder = cl_prev_holder r, row_updated = cl_updated r\<rparr>"

definition sb_value :: "slice_backend \<Rightarrow> memory_backend" where
  "sb_value sb = \<lparr>records = map (map_prod id (row_of (sb_heap sb))) (sb_records sb), seq = sb_seq sb\<rparr>"

definition cp_value :: "heap \<Rightarrow> slice_checkpoint \<Rightarrow> checkpoint" where
  "cp_value h cp =
     \<lparr>cp_state = bytes_of h (sc_state cp), cp_prev_exit = sc_prev_exit cp, cp_prev_holder = sc_prev_holder cp\<rparr>"

lemma row_of_sel [simp]:
  "row_holder (row_of h r) = cl_holder r" "row_token (row_of h r) = cl_token r"
  "row_expires (row_of h r) = cl_expires r" "row_checkpoint (row_of h r) = bytes_of h (cl_checkpoint r)"
  "row_exit (row_of h r) = cl_exit r" "row_prev_exit (row_of h r) = cl_prev_exit r"
  "row_prev_holder (row_of h r) = cl_prev_holder r" "row_updated (row_of h r) = cl_updated r"
  "held_by (row_of h r) rec = cell_held_by r rec"
  by (simp_all add: row_of_def held_by_def cell_held_by_def)

lemma row_of_update [simp]:
  "row_of h (r\<lparr>cl_expires := t\<rparr>) = (row_of h r)\<lparr>row_expires := t\<rparr>"
  "row_of h (r\<lparr>cl_exit := m\<rparr>) = (row_of h r)\<lparr>row_exit := m\<rparr>"
  "row_of h (r\<lparr>cl_updated := t\<rparr>) = (row_of h r)\<lparr>row_updated := t\<rparr>"
  "row_of h (r\<lparr>cl_checkpoint := s\<rparr>) = (row_of h r)\<lparr>row_checkpoint := bytes_of h s\<rparr>"
  by (simp_all add: row_of_def)

lemma lookup_map_prod [simp]: "map_of (map (map_prod id f) xs) k = map_option f (map_of xs k)"
  by (induction xs) auto

lemma update_map_prod: "AList.update k (f r) (map (map_prod id f) xs) = map (map_prod id f) (AList.update k r xs)"
  by (induction xs) auto

lemma delete_map_prod: "AList.delete k (map (map_prod id f) xs) = map (map_prod id f) (AList.delete k xs)"
  by (induction xs) auto

lemma sb_value_sel [simp]:
  "records (sb_value sb) = map (map_prod id (row_of (sb_heap sb))) (sb_records sb)" "seq (sb_value sb) = sb_seq sb"
  by (simp_all add: sb_value_def)

lemma sb_put_value:
  "sb_value (sb_put w r sb) = (sb_value sb)\<lparr>records := AList.update w (row_of (sb_heap sb) r) (records (sb_value sb))\<rparr>"
  by (simp add: sb_value_def sb_put_def update_map_prod)

lemma sb_put_heap [simp]: "sb_heap (sb_put w r sb) = sb_heap sb"
  by (simp add: sb_put_def)

lemma bytes_of_none [simp]: "bytes_of h s = None \<longleftrightarrow> s = None" "bytes_of h None = None"
  by (simp_all add: bytes_of_def)

text \<open>The calls that neither make nor read an array.\<close>

lemma acquire_value:
  "mem_acquire c clk (sb_value sb) w h ttl = map_prod sb_value id (sb_acquire c clk sb w h ttl)"
  by (cases "map_of (sb_records sb) w"; cases c)
     (auto simp: mem_acquire_def sb_acquire_def sb_put_value Let_def row_of_def sb_value_def sb_put_def
        update_map_prod [of _ "row_of (sb_heap sb)", symmetric] numeral_2_eq_2)

lemma renew_value: "mem_renew c clk (sb_value sb) rec ttl = map_prod sb_value id (sb_renew c clk sb rec ttl)"
  by (cases "map_of (sb_records sb) (lr_work rec)"; cases c)
     (auto simp: mem_renew_def sb_renew_def sb_put_value)

lemma release_value: "mem_release c clk (sb_value sb) rec m = map_prod sb_value id (sb_release c clk sb rec m)"
  by (cases "map_of (sb_records sb) (lr_work rec)"; cases c)
     (auto simp: mem_release_def sb_release_def sb_put_value)

lemma forget_value: "mem_forget c clk (sb_value sb) rec = map_prod sb_value id (sb_forget c clk sb rec)"
  by (cases "map_of (sb_records sb) (lr_work rec)"; cases c)
     (auto simp: mem_forget_def sb_forget_def sb_value_def delete_map_prod)

lemma sweep_loop_value:
  "sweep_loop now opts (map (map_prod id (row_of h)) rs) =
     map_prod (map (map_prod id (row_of h))) id (sb_sweep_loop now opts rs)"
  by (induction now opts rs rule: sb_sweep_loop.induct) (auto simp: Let_def split: prod.splits)

lemma sweep_value: "mem_sweep c clk (sb_value sb) opts = map_prod sb_value id (sb_sweep c clk sb opts)"
  by (cases c) (auto simp: mem_sweep_def sb_sweep_def sweep_loop_value sb_value_def split: prod.splits)

section \<open>Stored arrays are the backend's own\<close>

text \<open>
  A stored slice points to a whole array of the heap; \<open>shared\<close> are the arrays callers can reach, none
  of which is stored.
\<close>

definition stored_ok :: "nat set \<Rightarrow> slice_backend \<Rightarrow> bool" where
  "stored_ok shared sb \<longleftrightarrow> (\<forall>a \<in> shared. a < hp_limit (sb_heap sb)) \<and>
     (\<forall>(w, r) \<in> set (sb_records sb). \<forall>s. cl_checkpoint r = Some s \<longrightarrow>
        slice_ok (sb_heap sb) s \<and> sl_array s \<notin> shared)"

lemma stored_okD:
  "stored_ok shared sb \<Longrightarrow> map_of (sb_records sb) w = Some r \<Longrightarrow> cl_checkpoint r = Some s \<Longrightarrow>
   slice_ok (sb_heap sb) s \<and> sl_array s \<notin> shared"
  by (fastforce simp: stored_ok_def dest: map_of_SomeD)

text \<open>A heap that keeps the arrays that are not shared keeps the values; it may share new arrays.\<close>

lemma stored_frame:
  assumes "stored_ok shared sb" and "\<And>a. a < hp_limit (sb_heap sb) \<Longrightarrow> a \<notin> shared \<Longrightarrow> hp_arrays h a = hp_arrays (sb_heap sb) a"
    and "hp_limit (sb_heap sb) \<le> hp_limit h"
    and "\<And>a. a \<in> shared' \<Longrightarrow> a < hp_limit h \<and> (a \<in> shared \<or> hp_limit (sb_heap sb) \<le> a)"
  shows "stored_ok shared' (sb\<lparr>sb_heap := h\<rparr>)" and "sb_value (sb\<lparr>sb_heap := h\<rparr>) = sb_value sb"
proof -
  have cell: "slice_ok h s \<and> sl_array s \<notin> shared' \<and> contents h s = contents (sb_heap sb) s"
    if "(w, r) \<in> set (sb_records sb)" "cl_checkpoint r = Some s" for w r s
    using assms(1) that assms(2) [of "sl_array s"] assms(3) assms(4) [of "sl_array s"]
    by (fastforce simp: stored_ok_def slice_ok_def intro: contents_cong)
  then show "stored_ok shared' (sb\<lparr>sb_heap := h\<rparr>)"
    using assms(4) unfolding stored_ok_def by fastforce
  have "row_of h r = row_of (sb_heap sb) r" if "(w, r) \<in> set (sb_records sb)" for w r
    using cell [OF that] by (cases "cl_checkpoint r") (auto simp: row_of_def bytes_of_def)
  then show "sb_value (sb\<lparr>sb_heap := h\<rparr>) = sb_value sb"
    by (auto simp: sb_value_def)
qed

lemma stored_put:
  "stored_ok shared sb \<Longrightarrow> (\<And>s. cl_checkpoint r = Some s \<Longrightarrow> slice_ok (sb_heap sb) s \<and> sl_array s \<notin> shared) \<Longrightarrow>
   stored_ok shared (sb_put w r sb)"
  by (auto simp: stored_ok_def sb_put_def dest!: set_update_cases)

lemma stored_subset:
  "stored_ok shared sb \<Longrightarrow> set rs \<subseteq> set (sb_records sb) \<Longrightarrow> stored_ok shared (sb\<lparr>sb_records := rs\<rparr>)"
  by (fastforce simp: stored_ok_def)

lemma stored_seq [simp]: "stored_ok shared (sb\<lparr>sb_seq := n\<rparr>) = stored_ok shared sb"
  by (simp add: stored_ok_def)

lemma sb_sweep_subset: "set (fst (sb_sweep_loop now opts rs)) \<subseteq> set rs"
  by (induction now opts rs rule: sb_sweep_loop.induct) (auto simp: Let_def split: prod.splits)

lemma acquire_stored: "stored_ok shared sb \<Longrightarrow> stored_ok shared (fst (sb_acquire c clk sb w h ttl))"
  by (auto simp: sb_acquire_def Let_def split: option.splits intro!: stored_put dest: stored_okD)

lemma renew_stored: "stored_ok shared sb \<Longrightarrow> stored_ok shared (fst (sb_renew c clk sb rec ttl))"
  by (auto simp: sb_renew_def split: option.splits intro!: stored_put dest: stored_okD)

lemma release_stored: "stored_ok shared sb \<Longrightarrow> stored_ok shared (fst (sb_release c clk sb rec m))"
  by (auto simp: sb_release_def split: option.splits intro!: stored_put dest: stored_okD)

lemma forget_stored: "stored_ok shared sb \<Longrightarrow> stored_ok shared (fst (sb_forget c clk sb rec))"
  by (auto simp: sb_forget_def AList.delete_eq split: option.splits intro!: stored_subset)

lemma sweep_stored: "stored_ok shared sb \<Longrightarrow> stored_ok shared (fst (sb_sweep c clk sb opts))"
  using sb_sweep_subset [of "clk 0" opts "sb_records sb"]
  by (auto simp: sb_sweep_def split: option.splits prod.splits intro!: stored_subset)

text \<open>\<open>Checkpoint\<close> copies what it stores.\<close>

lemma checkpoint_value:
  assumes "stored_ok shared sb" and "\<And>s. st = Some s \<Longrightarrow> slice_ok (sb_heap sb) s"
    and "sb_checkpoint c clk sb rec st ttl = (sb', e)"
  shows "mem_checkpoint c clk (sb_value sb) rec (bytes_of (sb_heap sb) st) ttl = (sb_value sb', e) \<and>
    stored_ok shared sb' \<and> hp_limit (sb_heap sb) \<le> hp_limit (sb_heap sb')"
proof (cases "c = None \<and> (\<exists>r. map_of (sb_records sb) (lr_work rec) = Some r \<and> cell_held_by r rec \<and> cl_exit r = ExitNone)")
  case False
  then show ?thesis
    using assms(1,3) by (cases c) (auto simp: mem_checkpoint_def sb_checkpoint_def split: option.splits if_splits)
next
  case True
  then obtain r where c: "c = None" and r: "map_of (sb_records sb) (lr_work rec) = Some r" "cell_held_by r rec"
    "cl_exit r = ExitNone" by blast
  let ?put = "\<lambda>stored sb. sb_put (lr_work rec)
    (r\<lparr>cl_checkpoint := stored, cl_expires := time_add (clk 0) ttl, cl_updated := clk 1\<rparr>) sb"
  show ?thesis
  proof (cases "slice_len (bytes_of (sb_heap sb) st) = 0")
    case True
    have empty: "st = None \<or> (\<exists>s. st = Some s \<and> sl_length s = 0)"
      using True assms(2) contents_length by (cases st) (auto simp: bytes_of_def)
    have put: "sb' = ?put None sb" "e = None"
      using assms(3) r c empty by (auto simp: sb_checkpoint_def)
    show ?thesis
      using assms(1) r c True by (auto simp: put mem_checkpoint_def sb_put_value intro!: stored_put)
  next
    case False
    then obtain s where st: "st = Some s" by (cases st) auto
    note s = assms(2) [OF st]
    have len: "sl_length s \<noteq> 0" using False contents_length [OF s] by (simp add: st bytes_of_def)
    obtain h d where cl: "clone s (sb_heap sb) = (h, d)" by fastforce
    note copy = clone_ok [OF s cl]
    let ?sb = "sb\<lparr>sb_heap := h\<rparr>"
    have put: "sb' = ?put (Some d) ?sb" "e = None"
      using assms(3) r c st len cl by (simp_all add: sb_checkpoint_def)
    have frame: "stored_ok shared ?sb" "sb_value ?sb = sb_value sb"
      by (rule stored_frame [OF assms(1)]; use copy(5,6) assms(1) in \<open>fastforce simp: stored_ok_def\<close>)+
    have fresh: "sl_array d \<notin> shared" using copy(2) assms(1) by (auto simp: stored_ok_def)
    have row: "row_of h r = row_of (sb_heap sb) r"
      using arg_cong [OF frame(2), of "\<lambda>m. map_of (records m) (lr_work rec)"] r(1) by simp
    have "stored_ok shared sb'"
      unfolding put by (rule stored_put [OF frame(1)]) (use copy(4) fresh in auto)
    moreover have "sb_value sb' = (sb_value sb)\<lparr>records := AList.update (lr_work rec)
        ((row_of (sb_heap sb) r)\<lparr>row_checkpoint := bytes_of (sb_heap sb) st, row_expires := time_add (clk 0) ttl,
          row_updated := clk 1\<rparr>) (records (sb_value sb))\<rparr>"
      unfolding put sb_put_value frame(2) using copy(1) row by (simp add: bytes_of_def st)
    ultimately show ?thesis
      using r c False copy(5) put by (simp add: mem_checkpoint_def)
  qed
qed

text \<open>\<open>ReadCheckpoint\<close> returns a fresh array, which the backend does not keep.\<close>

lemma read_value:
  assumes "stored_ok shared sb" and "sb_read_checkpoint c clk sb rec = (sb', res)"
  shows "mem_read_checkpoint c clk (sb_value sb) rec = (sb_value sb', map_sum id (cp_value (sb_heap sb')) res) \<and>
    stored_ok (shared \<union> {a. \<exists>cp s. res = Inr cp \<and> sc_state cp = Some s \<and> a = sl_array s}) sb'"
proof (cases "c = None \<and> (\<exists>r s. map_of (sb_records sb) (lr_work rec) = Some r \<and> cl_token r = lr_token rec \<and>
    cl_checkpoint r = Some s)")
  case False
  have same: "mem_read_checkpoint c clk (sb_value sb) rec = (sb_value sb', map_sum id (cp_value (sb_heap sb')) res) \<and>
    sb' = sb \<and> (\<forall>cp. res = Inr cp \<longrightarrow> sc_state cp = None)"
    using assms(2) False
    by (cases c) (auto simp: mem_read_checkpoint_def sb_read_checkpoint_def cp_value_def split: option.splits if_splits)
  then have none: "{a. \<exists>cp s. res = Inr cp \<and> sc_state cp = Some s \<and> a = sl_array s} = {}" by auto
  show ?thesis unfolding none Un_empty_right using same assms(1) by simp
next
  case True
  then obtain r s where c: "c = None" and r: "map_of (sb_records sb) (lr_work rec) = Some r"
    "cl_token r = lr_token rec" "cl_checkpoint r = Some s" by blast
  note s = stored_okD [OF assms(1) r(1,3)]
  obtain h d where cl: "clone s (sb_heap sb) = (h, d)" by fastforce
  note copy = clone_ok [OF _ cl]
  have res: "sb' = sb\<lparr>sb_heap := h\<rparr>"
    "res = Inr \<lparr>sc_state = Some d, sc_prev_exit = cl_prev_exit r, sc_prev_holder = cl_prev_holder r\<rparr>"
    using assms(2) r c cl by (simp_all add: sb_read_checkpoint_def)
  have frame: "stored_ok (insert (sl_array d) shared) sb'" "sb_value sb' = sb_value sb"
    unfolding res by (rule stored_frame [OF assms(1)]; use copy s assms(1) in \<open>fastforce simp: stored_ok_def\<close>)+
  show ?thesis
    using frame r c copy(1) s by (simp add: mem_read_checkpoint_def res cp_value_def bytes_of_def)
qed

section \<open>The backend among its callers\<close>

datatype outcome =
    OLease "gerror + lease_record"
  | OError "gerror option"
  | ORead "gerror + checkpoint"
  | OSwept int "gerror option"

fun b_outcome :: "'s backend \<Rightarrow> ctx_err \<Rightarrow> clock \<Rightarrow> bcall \<Rightarrow> 's \<Rightarrow> 's \<times> outcome" where
  "b_outcome b c clk (DoAcquire w h ttl) s = map_prod id OLease (b_acquire b c clk s w h ttl)"
| "b_outcome b c clk (DoCheckpoint rec st ttl) s = map_prod id OError (b_checkpoint b c clk s rec st ttl)"
| "b_outcome b c clk (DoRenew rec ttl) s = map_prod id OError (b_renew b c clk s rec ttl)"
| "b_outcome b c clk (DoRelease rec m) s = map_prod id OError (b_release b c clk s rec m)"
| "b_outcome b c clk (DoReadCheckpoint rec) s = map_prod id ORead (b_read_checkpoint b c clk s rec)"
| "b_outcome b c clk (DoForget rec) s = map_prod id OError (b_forget b c clk s rec)"
| "b_outcome b c clk (DoSweep opts) s = map_prod id (\<lambda>(n, e). OSwept n e) (b_sweep b c clk s opts)"

fun b_outcomes :: "'s backend \<Rightarrow> schedule \<Rightarrow> 's \<Rightarrow> 's \<times> outcome list" where
  "b_outcomes b [] s = (s, [])"
| "b_outcomes b ((c, clk, call) # cs) s =
     (let (s, out) = b_outcome b c clk call s; (s, outs) = b_outcomes b cs s in (s, out # outs))"

text \<open>
  Callers make arrays, write through any slice of an array they made or were returned, and call the
  backend. An outcome holds the contents at the return of the call. A call of \<open>Checkpoint\<close> is an
  action of its own, for its slice.
\<close>

datatype caction =
    Make "u8 list"
  | SetByte slice nat u8
  | CallCheckpoint ctx_err clock lease_record "slice option" duration
  | Call ctx_err clock bcall

record process =
  pr_backend :: slice_backend
  pr_shared :: "nat list"

definition process_new :: process where
  "process_new = \<lparr>pr_backend = sb_new, pr_shared = []\<rparr>"

definition pr_heap :: "process \<Rightarrow> heap" where
  "pr_heap p = sb_heap (pr_backend p)"

definition pr_set_heap :: "heap \<Rightarrow> nat list \<Rightarrow> process \<Rightarrow> process" where
  "pr_set_heap h new p = \<lparr>pr_backend = (pr_backend p)\<lparr>sb_heap := h\<rparr>, pr_shared = new @ pr_shared p\<rparr>"

definition caller_slice :: "process \<Rightarrow> slice \<Rightarrow> bool" where
  "caller_slice p s \<longleftrightarrow> sl_array s \<in> set (pr_shared p) \<and> slice_ok (pr_heap p) s"

definition returned :: "gerror + slice_checkpoint \<Rightarrow> nat list" where
  "returned res =
     (case res of Inl e \<Rightarrow> [] | Inr cp \<Rightarrow> (case sc_state cp of None \<Rightarrow> [] | Some s \<Rightarrow> [sl_array s]))"

fun sb_call :: "ctx_err \<Rightarrow> clock \<Rightarrow> bcall \<Rightarrow> slice_backend \<Rightarrow> (slice_backend \<times> nat list \<times> outcome) option" where
  "sb_call c clk (DoAcquire w h ttl) sb = (case sb_acquire c clk sb w h ttl of (sb, x) \<Rightarrow> Some (sb, [], OLease x))"
| "sb_call c clk (DoCheckpoint rec st ttl) sb = None"
| "sb_call c clk (DoRenew rec ttl) sb = (case sb_renew c clk sb rec ttl of (sb, e) \<Rightarrow> Some (sb, [], OError e))"
| "sb_call c clk (DoRelease rec m) sb = (case sb_release c clk sb rec m of (sb, e) \<Rightarrow> Some (sb, [], OError e))"
| "sb_call c clk (DoReadCheckpoint rec) sb =
     (case sb_read_checkpoint c clk sb rec of
        (sb, x) \<Rightarrow> Some (sb, returned x, ORead (map_sum id (cp_value (sb_heap sb)) x)))"
| "sb_call c clk (DoForget rec) sb = (case sb_forget c clk sb rec of (sb, e) \<Rightarrow> Some (sb, [], OError e))"
| "sb_call c clk (DoSweep opts) sb = (case sb_sweep c clk sb opts of (sb, n, e) \<Rightarrow> Some (sb, [], OSwept n e))"

fun process_step :: "caction \<Rightarrow> process \<Rightarrow> (process \<times> ((ctx_err \<times> clock \<times> bcall) \<times> outcome) list) option" where
  "process_step (Make xs) p =
     (let (h, s) = make_slice (length xs) (pr_heap p)
      in Some (pr_set_heap (h\<lparr>hp_arrays := (hp_arrays h)(sl_array s := xs)\<rparr>) [sl_array s] p, []))"
| "process_step (SetByte s i v) p =
     (if caller_slice p s then map_option (\<lambda>h. (pr_set_heap h [] p, [])) (set_byte (Some s) i v (pr_heap p)) else None)"
| "process_step (CallCheckpoint c clk rec st ttl) p =
     (if (case st of None \<Rightarrow> True | Some s \<Rightarrow> caller_slice p s)
      then (case sb_checkpoint c clk (pr_backend p) rec st ttl of
              (sb, e) \<Rightarrow> Some (p\<lparr>pr_backend := sb\<rparr>,
                [((c, clk, DoCheckpoint rec (bytes_of (pr_heap p) st) ttl), OError e)]))
      else None)"
| "process_step (Call c clk call) p =
     (case sb_call c clk call (pr_backend p) of
        None \<Rightarrow> None
      | Some (sb, new, out) \<Rightarrow>
          Some (\<lparr>pr_backend = sb, pr_shared = new @ pr_shared p\<rparr>, [((c, clk, call), out)]))"

fun process_run :: "caction list \<Rightarrow> process \<Rightarrow> (process \<times> ((ctx_err \<times> clock \<times> bcall) \<times> outcome) list) option" where
  "process_run [] p = Some (p, [])"
| "process_run (a # as) p = do {
     (p, es) \<leftarrow> process_step a p;
     (p, es') \<leftarrow> process_run as p;
     Some (p, es @ es') }"

definition process_ok :: "process \<Rightarrow> bool" where
  "process_ok p \<longleftrightarrow> stored_ok (set (pr_shared p)) (pr_backend p)"

lemma set_heap_ok:
  assumes "process_ok p"
    and "\<And>a. a < hp_limit (pr_heap p) \<Longrightarrow> a \<notin> set (pr_shared p) \<Longrightarrow> hp_arrays h a = hp_arrays (pr_heap p) a"
    and "hp_limit (pr_heap p) \<le> hp_limit h"
    and "\<And>a. a \<in> set new \<Longrightarrow> hp_limit (pr_heap p) \<le> a \<and> a < hp_limit h"
  shows "process_ok (pr_set_heap h new p) \<and> sb_value (pr_backend (pr_set_heap h new p)) = sb_value (pr_backend p)"
proof -
  have st: "stored_ok (set (pr_shared p)) (pr_backend p)" using assms(1) by (simp add: process_ok_def)
  have "a < hp_limit h \<and> (a \<in> set (pr_shared p) \<or> hp_limit (sb_heap (pr_backend p)) \<le> a)"
    if "a \<in> set (new @ pr_shared p)" for a
    using that assms(3,4) st by (fastforce simp: stored_ok_def pr_heap_def)
  then show ?thesis
    using stored_frame [OF st, of h "set (new @ pr_shared p)"] assms(2,3)
    by (auto simp: process_ok_def pr_set_heap_def pr_heap_def)
qed

lemma sb_call_value:
  assumes "stored_ok shared sb" and "sb_call c clk call sb = Some (sb', new, out)"
  shows "b_outcome memory c clk call (sb_value sb) = (sb_value sb', out) \<and> stored_ok (set new \<union> shared) sb'"
proof (cases call)
  case (DoAcquire w h ttl)
  then show ?thesis
    using assms acquire_value [of c clk sb w h ttl] acquire_stored [OF assms(1), of c clk w h ttl]
    by (auto simp: memory_sel split: prod.splits)
next
  case (DoRenew rec ttl)
  then show ?thesis
    using assms renew_value [of c clk sb rec ttl] renew_stored [OF assms(1), of c clk rec ttl]
    by (auto simp: memory_sel split: prod.splits)
next
  case (DoRelease rec m)
  then show ?thesis
    using assms release_value [of c clk sb rec m] release_stored [OF assms(1), of c clk rec m]
    by (auto simp: memory_sel split: prod.splits)
next
  case (DoReadCheckpoint rec)
  then obtain res where call: "sb_read_checkpoint c clk sb rec = (sb', res)" "new = returned res"
    "out = ORead (map_sum id (cp_value (sb_heap sb')) res)"
    using assms(2) by (auto split: prod.splits)
  have "set new = {a. \<exists>cp s. res = Inr cp \<and> sc_state cp = Some s \<and> a = sl_array s}"
  proof (cases res)
    case (Inr cp)
    then show ?thesis by (cases "sc_state cp") (simp_all add: call(2) returned_def)
  qed (simp add: call(2) returned_def)
  then show ?thesis
    using read_value [OF assms(1) call(1)] call(3) DoReadCheckpoint by (simp add: memory_sel Un_commute)
next
  case (DoForget rec)
  then show ?thesis
    using assms forget_value [of c clk sb rec] forget_stored [OF assms(1), of c clk rec]
    by (auto simp: memory_sel split: prod.splits)
next
  case (DoSweep opts)
  then show ?thesis
    using assms sweep_value [of c clk sb opts] sweep_stored [OF assms(1), of c clk opts]
    by (auto simp: memory_sel split: prod.splits)
qed (use assms in simp)

text \<open>An action of a caller or a call: the backend of values makes the same calls and sees the same.\<close>

lemma process_step_value:
  assumes "process_ok p" and "process_step a p = Some (p', es)"
  shows "process_ok p' \<and>
    b_outcomes memory (map fst es) (sb_value (pr_backend p)) = (sb_value (pr_backend p'), map snd es)"
proof (cases a)
  case (Make xs)
  let ?h = "pr_heap p\<lparr>hp_limit := hp_limit (pr_heap p) + 1, hp_arrays := (hp_arrays (pr_heap p))(hp_limit (pr_heap p) := xs)\<rparr>"
  have "p' = pr_set_heap ?h [hp_limit (pr_heap p)] p" "es = []"
    using assms(2) Make by (auto simp: make_slice_def)
  then show ?thesis using set_heap_ok [OF assms(1), of ?h "[hp_limit (pr_heap p)]"] by simp
next
  case (SetByte s i v)
  then obtain h where h: "caller_slice p s" "set_byte (Some s) i v (pr_heap p) = Some h" "p' = pr_set_heap h [] p" "es = []"
    using assms(2) by (auto split: if_splits)
  then have "hp_limit h = hp_limit (pr_heap p)"
    "\<And>a. a \<notin> set (pr_shared p) \<Longrightarrow> hp_arrays h a = hp_arrays (pr_heap p) a"
    by (auto simp: set_byte_def caller_slice_def split: if_splits)
  then show ?thesis using set_heap_ok [OF assms(1), of h "[]"] h by simp
next
  case (CallCheckpoint c clk rec st ttl)
  then obtain sb e where call: "sb_checkpoint c clk (pr_backend p) rec st ttl = (sb, e)" "p' = p\<lparr>pr_backend := sb\<rparr>"
    "es = [((c, clk, DoCheckpoint rec (bytes_of (pr_heap p) st) ttl), OError e)]"
    "\<And>s. st = Some s \<Longrightarrow> slice_ok (sb_heap (pr_backend p)) s"
    using assms(2) by (auto simp: caller_slice_def pr_heap_def split: if_splits prod.splits option.splits)
  then show ?thesis
    using checkpoint_value [OF _ call(4,1)] assms(1) by (auto simp: process_ok_def memory_sel pr_heap_def)
next
  case (Call c clk call)
  then obtain sb new out where call: "sb_call c clk call (pr_backend p) = Some (sb, new, out)"
    "p' = \<lparr>pr_backend = sb, pr_shared = new @ pr_shared p\<rparr>" "es = [((c, clk, call), out)]"
    using assms(2) by (auto split: option.splits)
  then show ?thesis
    using sb_call_value [OF _ call(1)] assms(1) by (auto simp: process_ok_def)
qed

lemma b_outcomes_append:
  "b_outcomes b (cs @ cs') s =
     (let (s, outs) = b_outcomes b cs s; (s, outs') = b_outcomes b cs' s in (s, outs @ outs'))"
  by (induction b cs s rule: b_outcomes.induct) (auto simp: Let_def split: prod.splits)

lemma process_run_value:
  "process_ok p \<Longrightarrow> process_run as p = Some (p', es) \<Longrightarrow>
   b_outcomes memory (map fst es) (sb_value (pr_backend p)) = (sb_value (pr_backend p'), map snd es)"
proof (induction as arbitrary: p es)
  case (Cons a as)
  then obtain p1 es1 es2 where step: "process_step a p = Some (p1, es1)" "process_run as p1 = Some (p', es2)"
    "es = es1 @ es2" by (auto split: bind_splits)
  note st = process_step_value [OF Cons.prems(1) step(1)]
  show ?case using st Cons.IH [of p1 es2] step by (simp add: b_outcomes_append)
qed simp

section \<open>The suite's blocks on slice aliasing\<close>

text \<open>\<open>[]byte("...")\<close>, and an assignment to an element of a slice the caller holds.\<close>

definition sb_literal :: "string \<Rightarrow> slice_backend \<Rightarrow> slice_backend \<times> slice option" where
  "sb_literal t sb =
     (let (h, s) = make_slice (length t) (sb_heap sb);
          xs = (case text_bytes t of None \<Rightarrow> [] | Some xs \<Rightarrow> xs)
      in (sb\<lparr>sb_heap := h\<lparr>hp_arrays := (hp_arrays h)(sl_array s := xs)\<rparr>\<rparr>, Some s))"

definition sb_assign :: "slice option \<Rightarrow> nat \<Rightarrow> u8 \<Rightarrow> slice_backend \<Rightarrow> slice_backend option" where
  "sb_assign s i v sb = map_option (\<lambda>h. sb\<lparr>sb_heap := h\<rparr>) (set_byte s i v (sb_heap sb))"

definition alias_returned :: "(nat \<Rightarrow> clock) \<Rightarrow> slice_backend \<Rightarrow> slice_backend option" where
  "alias_returned c sb = do {
     (sb, rec) \<leftarrow> no_error (sb_acquire None (c 0) sb ''w1'' ''h'' normalTTL);
     let (sb, abc) = sb_literal ''abc'' sb;
     sb \<leftarrow> succeed (sb_checkpoint None (c 1) sb rec abc normalTTL);
     (sb, got) \<leftarrow> no_error (sb_read_checkpoint None (c 2) sb rec);
     sb \<leftarrow> sb_assign (sc_state got) 0 88 sb;
     (sb, again) \<leftarrow> no_error (sb_read_checkpoint None (c 3) sb rec);
     expect (bytes_of (sb_heap sb) (sc_state again) = text_bytes ''abc'');
     Some sb }"

definition alias_retained :: "(nat \<Rightarrow> clock) \<Rightarrow> slice_backend \<Rightarrow> slice_backend option" where
  "alias_retained c sb = do {
     (sb, rec) \<leftarrow> no_error (sb_acquire None (c 0) sb ''w1'' ''h'' normalTTL);
     let (sb, state) = sb_literal ''abc'' sb;
     sb \<leftarrow> succeed (sb_checkpoint None (c 1) sb rec state normalTTL);
     sb \<leftarrow> sb_assign state 0 88 sb;
     (sb, got) \<leftarrow> no_error (sb_read_checkpoint None (c 2) sb rec);
     expect (bytes_of (sb_heap sb) (sc_state got) = text_bytes ''abc'');
     Some sb }"

lemmas slice_simps =
  make_slice_def clone_def copy_slice_def set_byte_def contents_def bytes_of_def sb_new_def sb_put_def
  sb_acquire_def sb_checkpoint_def sb_read_checkpoint_def cell_held_by_def text_bytes_def

text \<open>
  Writing to the slice \<open>ReadCheckpoint\<close> returned, or to the one \<open>Checkpoint\<close> was given, does not
  change what the next \<open>ReadCheckpoint\<close> returns, at any clock readings.
\<close>

lemma memory_passes_aliasing:
  "alias_returned c sb_new \<noteq> None \<and> alias_retained c sb_new \<noteq> None"
  by (simp add: alias_returned_def alias_retained_def sb_literal_def sb_assign_def no_error_def succeed_def
      expect_def slice_simps)

text \<open>
  C7. The memory backend conforms: every block of the suite passes on a fresh backend, at any clock
  readings whose calls are a few microseconds apart and within a lease; the two blocks on slice
  aliasing on the backend with its slices and arrays, all others on the backend of values.
\<close>

theorem memory_passes_suite:
  assumes "paced_clocks c"
  shows "passes memory c memory_new \<and> alias_returned c sb_new \<noteq> None \<and> alias_retained c sb_new \<noteq> None"
  using mem.suite_passed [OF assms mem_inv_new] memory_passes_aliasing
  by (simp add: mem_view_def mem_issued_def memory_new_def token_limit_def)

theorem memory_passes_suite_witness:
  "passes memory ex_paced memory_new \<and> alias_returned ex_paced sb_new \<noteq> None \<and> alias_retained ex_paced sb_new \<noteq> None"
  by (rule memory_passes_suite [OF ex_paced_ok])

section \<open>Slices do not alias\<close>

text \<open>
  C9. No aliasing. Whatever callers do, in whatever order, from a new backend on: make arrays, write to
  every slice they made or were returned, call the backend with such slices; every call has the
  outcome that the backend of values gives to the same calls, with the contents of the slices at
  the time of each call, and it stores the same values in the end.
\<close>

theorem slices_do_not_alias:
  assumes "process_run as process_new = Some (p, es)"
  shows "b_outcomes memory (map fst es) memory_new = (sb_value (pr_backend p), map snd es)"
proof -
  have "process_ok process_new" by (simp add: process_ok_def process_new_def sb_new_def stored_ok_def)
  moreover have "sb_value (pr_backend process_new) = memory_new"
    by (simp add: process_new_def sb_new_def sb_value_def memory_new_def)
  ultimately show ?thesis using process_run_value [OF _ assms] by simp
qed

text \<open>A caller overwrites the array it checkpointed and the array it read.\<close>

definition ex_slice :: "nat \<Rightarrow> slice" where
  "ex_slice a = \<lparr>sl_array = a, sl_offset = 0, sl_length = 2\<rparr>"

definition ex_slice_run :: "caction list" where
  "ex_slice_run =
     [Call None (\<lambda>j. At 0) (DoAcquire ''w'' ''a'' 50), Make [1, 2],
      CallCheckpoint None (\<lambda>j. At 1) \<lparr>lr_work = ''w'', lr_holder = ''a'', lr_token = 1, lr_expires = At 50\<rparr>
        (Some (ex_slice 0)) 50,
      SetByte (ex_slice 0) 0 9,
      Call None (\<lambda>j. At 2) (DoReadCheckpoint \<lparr>lr_work = ''w'', lr_holder = ''a'', lr_token = 1, lr_expires = At 50\<rparr>),
      SetByte (ex_slice 2) 1 9,
      Call None (\<lambda>j. At 3) (DoReadCheckpoint \<lparr>lr_work = ''w'', lr_holder = ''a'', lr_token = 1, lr_expires = At 50\<rparr>)]"

theorem slices_do_not_alias_witness:
  "\<exists>p es cp. process_run ex_slice_run process_new = Some (p, es) \<and> length es = 4 \<and>
     b_outcomes memory (map fst es) memory_new = (sb_value (pr_backend p), map snd es) \<and>
     snd (last es) = ORead (Inr cp) \<and> cp_state cp = Some [1, 2]"
proof -
  obtain p es cp where run: "process_run ex_slice_run process_new = Some (p, es)" "length es = 4"
    "snd (last es) = ORead (Inr cp)" "cp_state cp = Some [1, 2]"
    by (simp add: ex_slice_run_def ex_slice_def process_new_def pr_heap_def pr_set_heap_def caller_slice_def
        slice_ok_def returned_def cp_value_def slice_simps)
  then show ?thesis using slices_do_not_alias [OF run(1)] by blast
qed

end
