(* ===== verification/Lease.thy ===== *)
theory Lease
  imports Backend_Laws Floats
begin

text \<open>
  \<open>lease.go\<close> and the options of \<open>acquire.go\<close> and \<open>renewal.go\<close>: tokens, functional options with
  their clamping, the operation names and the events an observer receives.

  A functional option is a function on the configuration it modifies; options are applied in order.
  \<open>f64\<close> is a Go \<open>float64\<close>; a finite value counts units of \<open>2 ^ -100\<close>.
\<close>

section \<open>Tokens\<close>

record token =
  tk_work :: string
  tk_holder :: string
  tk_token :: u64
  tk_expires :: instant
  tk_deadline :: instant

definition zero_token :: token where
  "zero_token = \<lparr>tk_work = '''', tk_holder = '''', tk_token = 0, tk_expires = zero_time,
     tk_deadline = zero_time\<rparr>"

definition NewToken :: "string \<Rightarrow> string \<Rightarrow> u64 \<Rightarrow> instant \<Rightarrow> token" where
  "NewToken workID holderID fencingToken expiresAt =
     \<lparr>tk_work = workID, tk_holder = holderID, tk_token = fencingToken, tk_expires = expiresAt,
      tk_deadline = zero_time\<rparr>"

definition newToken :: "lease_record \<Rightarrow> instant \<Rightarrow> token" where
  "newToken r deadline =
     \<lparr>tk_work = lr_work r, tk_holder = lr_holder r, tk_token = lr_token r,
      tk_expires = lr_expires r, tk_deadline = deadline\<rparr>"

definition toRecord :: "token \<Rightarrow> lease_record" where
  "toRecord t =
     \<lparr>lr_work = tk_work t, lr_holder = tk_holder t, lr_token = tk_token t,
      lr_expires = tk_expires t\<rparr>"

lemma toRecord_newToken [simp]: "toRecord (newToken r d) = r"
  by (simp add: toRecord_def newToken_def)

lemma toRecord_sel [simp]:
  "lr_work (toRecord t) = tk_work t" "lr_holder (toRecord t) = tk_holder t"
  "lr_token (toRecord t) = tk_token t" "lr_expires (toRecord t) = tk_expires t"
  by (simp_all add: toRecord_def)

lemma newToken_sel [simp]:
  "tk_work (newToken r d) = lr_work r" "tk_holder (newToken r d) = lr_holder r"
  "tk_token (newToken r d) = lr_token r" "tk_expires (newToken r d) = lr_expires r"
  "tk_deadline (newToken r d) = d"
  by (simp_all add: newToken_def)

section \<open>Acquire options\<close>

record acquire_config =
  ac_wait :: bool
  ac_poll :: duration

type_synonym acquire_option = "acquire_config \<Rightarrow> acquire_config"

definition WithWaitForLease :: acquire_option where
  "WithWaitForLease c = c\<lparr>ac_wait := True\<rparr>"

definition WithPollInterval :: "duration \<Rightarrow> acquire_option" where
  "WithPollInterval d c = (if 0 < d then c\<lparr>ac_poll := d\<rparr> else c)"

definition apply_options :: "('c \<Rightarrow> 'c) list \<Rightarrow> 'c \<Rightarrow> 'c" where
  "apply_options opts c = fold (\<lambda>opt. opt) opts c"

lemma apply_options_simps [simp]:
  "apply_options [] c = c"
  "apply_options (opt # opts) c = apply_options opts (opt c)"
  "apply_options (xs @ ys) c = apply_options ys (apply_options xs c)"
  by (simp_all add: apply_options_def)

definition HasWaitForLease :: "acquire_option list \<Rightarrow> bool" where
  "HasWaitForLease opts = ac_wait (apply_options opts \<lparr>ac_wait = False, ac_poll = 0\<rparr>)"

section \<open>Renewal options\<close>

datatype f64 = Finite int | PosInf | NegInf | NaN

definition f64_zero :: f64 where "f64_zero = Finite 0"
definition f64_one :: f64 where "f64_one = Finite fl_unit"

fun f64_less :: "f64 \<Rightarrow> f64 \<Rightarrow> bool" where
  "f64_less NaN y \<longleftrightarrow> False"
| "f64_less x NaN \<longleftrightarrow> False"
| "f64_less NegInf y \<longleftrightarrow> y \<noteq> NegInf"
| "f64_less x NegInf \<longleftrightarrow> False"
| "f64_less PosInf y \<longleftrightarrow> False"
| "f64_less x PosInf \<longleftrightarrow> True"
| "f64_less (Finite a) (Finite b) \<longleftrightarrow> a < b"

record renewal_config =
  rc_interval :: duration
  rc_initial :: duration
  rc_max :: duration
  rc_jitter :: f64

type_synonym renewal_option = "renewal_config \<Rightarrow> renewal_config"

definition WithRenewalInterval :: "duration \<Rightarrow> renewal_option" where
  "WithRenewalInterval d c = (if 0 < d then c\<lparr>rc_interval := d\<rparr> else c)"

definition WithRenewalBackoff :: "duration \<Rightarrow> duration \<Rightarrow> f64 \<Rightarrow> renewal_option" where
  "WithRenewalBackoff initial maxInterval jitter c =
     (let initial = (if initial \<le> 0 then millisecond else initial);
          maxInterval = (if maxInterval \<le> 0 then millisecond else maxInterval);
          jitter = (if f64_less jitter f64_zero then f64_zero else jitter);
          jitter = (if f64_less f64_one jitter then f64_one else jitter);
          initial = (if maxInterval < initial then maxInterval else initial)
      in c\<lparr>rc_initial := initial, rc_max := maxInterval, rc_jitter := jitter\<rparr>)"

definition defaultBackoffInitial :: duration where "defaultBackoffInitial = 100 * millisecond"
definition defaultBackoffMax :: duration where "defaultBackoffMax = 5 * second"

definition defaultBackoffJitter :: f64 where "defaultBackoffJitter = Finite double_0_20"

section \<open>Observer events\<close>

type_synonym operation = u8

definition OperationCheckpoint :: operation where "OperationCheckpoint = 1"
definition OperationRenew :: operation where "OperationRenew = 2"
definition OperationRelease :: operation where "OperationRelease = 3"
definition OperationForget :: operation where "OperationForget = 4"

lemmas operation_defs =
  OperationCheckpoint_def OperationRenew_def OperationRelease_def OperationForget_def

definition operation_string :: "operation \<Rightarrow> string" where
  "operation_string q =
     (if q = OperationCheckpoint then ''Checkpoint''
      else if q = OperationRenew then ''Renew''
      else if q = OperationRelease then ''Release''
      else if q = OperationForget then ''Forget''
      else ''Operation('' @ itoa (unat q) @ '')'')"

text \<open>The event structs, in the order of their fields: a call's duration is \<open>d\<close>.\<close>

datatype event =
    OnAcquire (ev_work: string) (ev_token: token) (ev_dur: duration) (ev_err: "gerror option")
  | OnCheckpoint (ev_token: token) (ev_size: nat) (ev_dur: duration) (ev_err: "gerror option")
  | OnRenew (ev_token: token) (ev_dur: duration) (ev_attempt: nat) (ev_err: "gerror option")
  | OnRelease (ev_token: token) (ev_dur: duration) (ev_mode: exit_mode) (ev_err: "gerror option")
  | OnReadCheckpoint (ev_token: token) (ev_dur: duration) (ev_prev_exit: exit_mode)
      (ev_prev_holder: string) (ev_size: nat) (ev_err: "gerror option")
  | OnForget (ev_token: token) (ev_dur: duration) (ev_err: "gerror option")
  | OnFenced (ev_token: token) (ev_operation: operation)

fun is_fenced_event :: "event \<Rightarrow> bool" where
  "is_fenced_event (OnFenced t q) = True"
| "is_fenced_event e = False"

section \<open>Properties\<close>

text \<open>The acquire options the package provides.\<close>

inductive acquire_opt :: "acquire_option \<Rightarrow> bool" where
  "acquire_opt WithWaitForLease"
| "acquire_opt (WithPollInterval d)"

lemma WithPollInterval_not_wait: "WithPollInterval d \<noteq> WithWaitForLease"
proof
  assume "WithPollInterval d = WithWaitForLease"
  then have "WithPollInterval d \<lparr>ac_wait = False, ac_poll = 1\<rparr> = WithWaitForLease \<lparr>ac_wait = False, ac_poll = 1\<rparr>"
    by simp
  then show False by (simp add: WithPollInterval_def WithWaitForLease_def split: if_splits)
qed

lemma acquire_opt_step:
  assumes "acquire_opt opt"
  shows "0 < ac_poll c \<Longrightarrow> 0 < ac_poll (opt c)"
    and "ac_wait (opt c) \<longleftrightarrow> ac_wait c \<or> opt = WithWaitForLease"
  using assms WithPollInterval_not_wait
  by (auto elim!: acquire_opt.cases simp: WithWaitForLease_def WithPollInterval_def split: if_splits)

lemma apply_acquire_opts:
  "list_all acquire_opt opts \<Longrightarrow> 0 < ac_poll c \<Longrightarrow> 0 < ac_poll (apply_options opts c)"
  "list_all acquire_opt opts \<Longrightarrow>
   ac_wait (apply_options opts c) \<longleftrightarrow> ac_wait c \<or> WithWaitForLease \<in> set opts"
  by (induction opts arbitrary: c) (auto simp: acquire_opt_step)

text \<open>
  Acquire options. For any options of the package in any order, \<open>HasWaitForLease\<close> reports
  exactly whether \<open>WithWaitForLease\<close> is among them, and the poll interval \<open>Acquire\<close> resolves is
  positive, whatever the intervals passed.
\<close>

theorem acquire_options_resolved:
  assumes "list_all acquire_opt opts"
  shows "(HasWaitForLease opts \<longleftrightarrow> WithWaitForLease \<in> set opts) \<and>
    (let ac = apply_options opts \<lparr>ac_wait = False, ac_poll = 2 * second\<rparr>
     in ac_wait ac = HasWaitForLease opts \<and> 0 < ac_poll ac)"
  using apply_acquire_opts [OF assms] by (simp add: HasWaitForLease_def Let_def)

theorem acquire_options_resolved_witness:
  "HasWaitForLease [WithPollInterval (- 5), WithWaitForLease] \<and>
   0 < ac_poll (apply_options [WithPollInterval (- 5), WithWaitForLease] \<lparr>ac_wait = False, ac_poll = 2 * second\<rparr>)"
  using acquire_options_resolved [of "[WithPollInterval (- 5), WithWaitForLease]"]
  by (simp add: acquire_opt.intros Let_def)

text \<open>
  Renewal backoff clamping. Whatever durations and fraction are passed, the initial interval is
  positive and at most the maximum. The jitter fraction ends in \<open>[0, 1]\<close>, infinities included,
  except that a NaN passes through both comparisons and is stored.
\<close>

theorem backoff_options_clamped:
  "let c' = WithRenewalBackoff initial maxInterval jitter c in
    0 < rc_initial c' \<and> rc_initial c' \<le> rc_max c' \<and> rc_interval c' = rc_interval c \<and>
    (if jitter = NaN then rc_jitter c' = NaN
     else \<exists>j. rc_jitter c' = Finite j \<and> 0 \<le> j \<and> j \<le> fl_unit)"
  by (cases jitter) (auto simp: WithRenewalBackoff_def Let_def f64_zero_def f64_one_def)

end
