(* ===== verification/Client.thy ===== *)
theory Client
  imports Lease Memory Postgres
begin

text \<open>
  \<open>worklease.go\<close> and \<open>acquire.go\<close>: the lease client.

  Each method makes one backend call between two readings of the local clock and reports it to the
  observer. \<open>call_env\<close> is what surrounds that call: the context's error, the readings the
  backend takes, and the local readings before (\<open>ce_start\<close>) and after it (\<open>ce_end\<close>). A method
  returns the new backend state, the observer events in order, and its result.

  The loop of \<open>Acquire\<close> with \<open>WithWaitForLease\<close> may not end: it is a partial function that
  takes, for its \<open>n\<close>-th attempt, the calls other clients make before it, its environment, and the
  branch its \<open>select\<close> takes after a held lease.
\<close>

section \<open>Construction\<close>

record client_config =
  cf_ttl :: duration
  cf_holder :: string

definition minTTL :: duration where "minTTL = millisecond"

definition ErrNilBackend :: gerror where
  "ErrNilBackend = ConfigError ''worklease: backend is required''"

definition lease_new :: "'s backend option \<Rightarrow> client_config \<Rightarrow> gerror + 's backend \<times> client_config" where
  "lease_new b cfg =
     (case b of
        None \<Rightarrow> Inl ErrNilBackend
      | Some b \<Rightarrow>
          if cf_ttl cfg = 0 then Inl (ConfigError ''worklease: New: TTL is required'')
          else if cf_holder cfg = '''' then Inl (ConfigError ''worklease: New: HolderID is required'')
          else if cf_ttl cfg < 0 then Inl (ConfigError ''worklease: New: TTL must be positive, got '')
          else if cf_ttl cfg < minTTL then Inl (ConfigError ''worklease: New: TTL must be at least 1ms, got '')
          else Inr (b, cfg))"

section \<open>The methods\<close>

record call_env =
  ce_ctx :: ctx_err
  ce_clk :: clock
  ce_start :: instant
  ce_end :: instant

definition call_dur :: "call_env \<Rightarrow> duration" where
  "call_dur env = time_sub (ce_end env) (ce_start env)"

definition fenced_events :: "gerror option \<Rightarrow> token \<Rightarrow> operation \<Rightarrow> event list" where
  "fenced_events err tok q = (if err_matches err ErrFenced then [OnFenced tok q] else [])"

text \<open>The wrapping at the end of each method: a fenced error keeps only the sentinel.\<close>

definition op_error :: "string \<Rightarrow> gerror option \<Rightarrow> gerror option" where
  "op_error msg err =
     (if err_matches err ErrFenced then Some (Wrap (msg @ '': workID= holderID='') ErrFenced)
      else case err of None \<Rightarrow> None | Some e \<Rightarrow> Some (Wrap msg e))"

definition client_checkpoint ::
  "'s backend \<Rightarrow> client_config \<Rightarrow> call_env \<Rightarrow> 's \<Rightarrow> token \<Rightarrow> bytes \<Rightarrow> 's \<times> event list \<times> gerror option" where
  "client_checkpoint b cfg env s tok state =
     (let (s', err) = b_checkpoint b (ce_ctx env) (ce_clk env) s (toRecord tok) state (cf_ttl cfg)
      in (s', OnCheckpoint tok (slice_len state) (call_dur env) err #
              fenced_events err tok OperationCheckpoint,
          op_error ''worklease: Checkpoint'' err))"

definition client_renew ::
  "'s backend \<Rightarrow> client_config \<Rightarrow> call_env \<Rightarrow> 's \<Rightarrow> token \<Rightarrow> 's \<times> event list \<times> gerror option" where
  "client_renew b cfg env s tok =
     (let (s', err) = b_renew b (ce_ctx env) (ce_clk env) s (toRecord tok) (cf_ttl cfg)
      in (s', OnRenew tok (call_dur env) 1 err # fenced_events err tok OperationRenew,
          op_error ''worklease: Renew'' err))"

definition client_release ::
  "'s backend \<Rightarrow> client_config \<Rightarrow> call_env \<Rightarrow> 's \<Rightarrow> token \<Rightarrow> exit_mode \<Rightarrow> 's \<times> event list \<times> gerror option" where
  "client_release b cfg env s tok mode =
     (if mode \<noteq> ExitFinished \<and> mode \<noteq> ExitAbandoned \<and> mode \<noteq> ExitRetired
      then (s, [], Some (Wrap ''worklease: Release: workID= holderID= mode='' ErrInvalidExitMode))
      else
        let (s', err) = b_release b (ce_ctx env) (ce_clk env) s (toRecord tok) mode
        in (s', OnRelease tok (call_dur env) mode err # fenced_events err tok OperationRelease,
            op_error ''worklease: Release'' err))"

definition client_read_checkpoint ::
  "'s backend \<Rightarrow> client_config \<Rightarrow> call_env \<Rightarrow> 's \<Rightarrow> token \<Rightarrow> 's \<times> event list \<times> (gerror + checkpoint)" where
  "client_read_checkpoint b cfg env s tok =
     (let (s', r) = b_read_checkpoint b (ce_ctx env) (ce_clk env) s (toRecord tok);
          err = (case r of Inl e \<Rightarrow> Some e | Inr _ \<Rightarrow> None);
          cp = (case r of Inl _ \<Rightarrow> zero_checkpoint | Inr cp \<Rightarrow> cp)
      in (s', [OnReadCheckpoint tok (call_dur env) (cp_prev_exit cp) (cp_prev_holder cp)
                 (slice_len (cp_state cp)) err],
          case op_error ''worklease: ReadCheckpoint'' err of Some e \<Rightarrow> Inl e | None \<Rightarrow> Inr cp))"

definition client_forget ::
  "'s backend \<Rightarrow> client_config \<Rightarrow> call_env \<Rightarrow> 's \<Rightarrow> token \<Rightarrow> 's \<times> event list \<times> gerror option" where
  "client_forget b cfg env s tok =
     (let (s', err) = b_forget b (ce_ctx env) (ce_clk env) s (toRecord tok)
      in (s', OnForget tok (call_dur env) err # fenced_events err tok OperationForget,
          op_error ''worklease: Forget'' err))"

section \<open>Acquire\<close>

text \<open>One backend attempt and its report, shared by both paths.\<close>

definition acquire_attempt ::
  "'s backend \<Rightarrow> client_config \<Rightarrow> call_env \<Rightarrow> 's \<Rightarrow> string \<Rightarrow> 's \<times> event \<times> (gerror + token)" where
  "acquire_attempt b cfg env s workID =
     (let (s', r) = b_acquire b (ce_ctx env) (ce_clk env) s workID (cf_holder cfg) (cf_ttl cfg)
      in case r of
           Inl e \<Rightarrow> (s', OnAcquire workID zero_token (call_dur env) (Some e), Inl e)
         | Inr record \<Rightarrow>
             let token = newToken record (time_add (ce_start env) (cf_ttl cfg))
             in (s', OnAcquire workID token (call_dur env) None, Inr token))"

record attempt_env =
  ae_before :: schedule
  ae_call :: call_env
  ae_wait :: ctx_err

partial_function (option) acquire_wait ::
  "'s backend \<Rightarrow> client_config \<Rightarrow> (nat \<Rightarrow> attempt_env) \<Rightarrow> string \<Rightarrow> nat \<Rightarrow> 's \<Rightarrow> event list \<Rightarrow>
   ('s \<times> event list \<times> (gerror + token)) option" where
  "acquire_wait b cfg envs workID n s log =
     (let env = envs n; (s', ev, r) = acquire_attempt b cfg (ae_call env) (b_run b (ae_before env) s) workID
      in case r of
           Inr token \<Rightarrow> Some (s', log @ [ev], Inr token)
         | Inl e \<Rightarrow>
             if \<not> errors_is e ErrLeaseHeld then Some (s', log @ [ev], Inl (Wrap ''worklease: Acquire'' e))
             else (case ae_wait env of
                     Some c \<Rightarrow> Some (s', log @ [ev], Inl (Wrap ''worklease: acquire cancelled'' c))
                   | None \<Rightarrow> acquire_wait b cfg envs workID (Suc n) s' (log @ [ev])))"

definition default_acquire_config :: acquire_config where
  "default_acquire_config = \<lparr>ac_wait = False, ac_poll = 2 * second\<rparr>"

definition client_acquire ::
  "'s backend \<Rightarrow> client_config \<Rightarrow> (nat \<Rightarrow> attempt_env) \<Rightarrow> 's \<Rightarrow> string \<Rightarrow> acquire_option list \<Rightarrow>
   ('s \<times> event list \<times> (gerror + token)) option" where
  "client_acquire b cfg envs s workID opts =
     (if workID = '''' then Some (s, [], Inl (ErrNew ''worklease: Acquire: workID is required''))
      else
        let ac = apply_options opts default_acquire_config
        in if \<not> ac_wait ac then
             (let (s', ev, r) = acquire_attempt b cfg (ae_call (envs 0)) (b_run b (ae_before (envs 0)) s) workID
              in Some (s', [ev], case r of Inl e \<Rightarrow> Inl (Wrap ''worklease: Acquire'' e) | Inr token \<Rightarrow> Inr token))
           else acquire_wait b cfg envs workID 0 s [])"

section \<open>The waiting loop, attempt by attempt\<close>

text \<open>The state before the \<open>k\<close>-th attempt's calls, and what that attempt does.\<close>

primrec wait_state :: "'s backend \<Rightarrow> client_config \<Rightarrow> (nat \<Rightarrow> attempt_env) \<Rightarrow> string \<Rightarrow> 's \<Rightarrow> nat \<Rightarrow> 's" where
  "wait_state b cfg envs w s 0 = s"
| "wait_state b cfg envs w s (Suc k) =
     fst (acquire_attempt b cfg (ae_call (envs k)) (b_run b (ae_before (envs k)) (wait_state b cfg envs w s k)) w)"

definition wait_attempt ::
  "'s backend \<Rightarrow> client_config \<Rightarrow> (nat \<Rightarrow> attempt_env) \<Rightarrow> string \<Rightarrow> 's \<Rightarrow> nat \<Rightarrow> 's \<times> event \<times> (gerror + token)" where
  "wait_attempt b cfg envs w s k =
     acquire_attempt b cfg (ae_call (envs k)) (b_run b (ae_before (envs k)) (wait_state b cfg envs w s k)) w"

definition wait_retry :: "'s backend \<Rightarrow> client_config \<Rightarrow> (nat \<Rightarrow> attempt_env) \<Rightarrow> string \<Rightarrow> 's \<Rightarrow> nat \<Rightarrow> bool" where
  "wait_retry b cfg envs w s k \<longleftrightarrow>
     (case snd (snd (wait_attempt b cfg envs w s k)) of Inr _ \<Rightarrow> False | Inl e \<Rightarrow> errors_is e ErrLeaseHeld) \<and>
     ae_wait (envs k) = None"

definition wait_events :: "'s backend \<Rightarrow> client_config \<Rightarrow> (nat \<Rightarrow> attempt_env) \<Rightarrow> string \<Rightarrow> 's \<Rightarrow> nat \<Rightarrow> event list" where
  "wait_events b cfg envs w s k = map (\<lambda>j. fst (snd (wait_attempt b cfg envs w s j))) [0..<k]"

definition wait_result :: "'s backend \<Rightarrow> client_config \<Rightarrow> (nat \<Rightarrow> attempt_env) \<Rightarrow> string \<Rightarrow> 's \<Rightarrow> nat \<Rightarrow> gerror + token" where
  "wait_result b cfg envs w s k =
     (case snd (snd (wait_attempt b cfg envs w s k)) of
        Inr tok \<Rightarrow> Inr tok
      | Inl e \<Rightarrow>
          if \<not> errors_is e ErrLeaseHeld then Inl (Wrap ''worklease: Acquire'' e)
          else Inl (Wrap ''worklease: acquire cancelled'' (the (ae_wait (envs k)))))"

lemma wait_state_Suc: "wait_state b cfg envs w s (Suc k) = fst (wait_attempt b cfg envs w s k)"
  by (simp add: wait_attempt_def)

lemma wait_events_Suc:
  "wait_events b cfg envs w s (Suc k) = wait_events b cfg envs w s k @ [fst (snd (wait_attempt b cfg envs w s k))]"
  by (simp add: wait_events_def)

lemma acquire_wait_step:
  "acquire_wait b cfg envs w k (wait_state b cfg envs w s k) (wait_events b cfg envs w s k) =
     (if wait_retry b cfg envs w s k
      then acquire_wait b cfg envs w (Suc k) (wait_state b cfg envs w s (Suc k)) (wait_events b cfg envs w s (Suc k))
      else Some (wait_state b cfg envs w s (Suc k), wait_events b cfg envs w s (Suc k),
                 wait_result b cfg envs w s k))"
proof -
  obtain s' ev r where att: "wait_attempt b cfg envs w s k = (s', ev, r)"
    by (cases "wait_attempt b cfg envs w s k")
  then have "acquire_attempt b cfg (ae_call (envs k))
      (b_run b (ae_before (envs k)) (wait_state b cfg envs w s k)) w = (s', ev, r)"
    by (simp add: wait_attempt_def)
  then show ?thesis
    using att
    by (subst acquire_wait.simps)
       (auto simp: wait_state_Suc wait_events_Suc wait_retry_def wait_result_def Let_def
         simp del: wait_state.simps split: sum.split option.split)
qed

lemma acquire_wait_retries:
  assumes "\<And>j. j < k \<Longrightarrow> wait_retry b cfg envs w s j"
  shows "acquire_wait b cfg envs w 0 s [] =
    acquire_wait b cfg envs w k (wait_state b cfg envs w s k) (wait_events b cfg envs w s k)"
  using assms
proof (induction k)
  case (Suc k)
  then have "wait_retry b cfg envs w s k" by simp
  with acquire_wait_step [of b cfg envs w k s] Suc show ?case by simp
qed (simp add: wait_events_def)

text \<open>The loop returns exactly when some attempt is not retried; the first such attempt decides.\<close>

lemma acquire_wait_ends:
  assumes "acquire_wait b cfg envs w n t log = Some out"
  shows "t = wait_state b cfg envs w s n \<longrightarrow> (\<exists>k\<ge>n. \<not> wait_retry b cfg envs w s k)"
proof (induction rule: acquire_wait.raw_induct
    [where P = "\<lambda>b cfg envs w n t log out. t = wait_state b cfg envs w s n \<longrightarrow>
       (\<exists>k\<ge>n. \<not> wait_retry b cfg envs w s k)", OF _ assms])
  case (1 f b cfg envs w n t log out)
  show ?case
  proof (intro impI, rule ccontr)
    assume t: "t = wait_state b cfg envs w s n" and never: "\<not> (\<exists>k\<ge>n. \<not> wait_retry b cfg envs w s k)"
    obtain s' ev r where att: "wait_attempt b cfg envs w s n = (s', ev, r)"
      by (cases "wait_attempt b cfg envs w s n")
    have run: "acquire_attempt b cfg (ae_call (envs n)) (b_run b (ae_before (envs n)) t) w = (s', ev, r)"
      using att t by (simp add: wait_attempt_def)
    have "wait_retry b cfg envs w s n" using never by blast
    then obtain e where "r = Inl e" "errors_is e ErrLeaseHeld" "ae_wait (envs n) = None"
      using att by (auto simp: wait_retry_def split: sum.splits)
    then have "f b cfg envs w (Suc n) s' (log @ [ev]) = Some out"
      using 1(2) run by simp
    then have "s' = wait_state b cfg envs w s (Suc n) \<longrightarrow> (\<exists>k\<ge>Suc n. \<not> wait_retry b cfg envs w s k)"
      by (rule 1(1))
    moreover have "s' = wait_state b cfg envs w s (Suc n)"
      using att by (simp only: wait_state_Suc fst_conv)
    ultimately show False using never by auto
  qed
qed

lemma acquire_wait_iff:
  "acquire_wait b cfg envs w 0 s [] = Some out \<longleftrightarrow>
   (\<exists>k. (\<forall>j<k. wait_retry b cfg envs w s j) \<and> \<not> wait_retry b cfg envs w s k \<and>
      out = (wait_state b cfg envs w s (Suc k), wait_events b cfg envs w s (Suc k),
             wait_result b cfg envs w s k))"
proof -
  have stop: "acquire_wait b cfg envs w 0 s [] =
      Some (wait_state b cfg envs w s (Suc k), wait_events b cfg envs w s (Suc k),
            wait_result b cfg envs w s k)"
    if "\<forall>j<k. wait_retry b cfg envs w s j" "\<not> wait_retry b cfg envs w s k" for k
  proof -
    have "acquire_wait b cfg envs w 0 s [] =
        acquire_wait b cfg envs w k (wait_state b cfg envs w s k) (wait_events b cfg envs w s k)"
      by (rule acquire_wait_retries) (use that in blast)
    then show ?thesis using that(2) acquire_wait_step [of b cfg envs w k s] by simp
  qed
  show ?thesis
  proof
    assume run: "acquire_wait b cfg envs w 0 s [] = Some out"
    then have ex: "\<exists>k. \<not> wait_retry b cfg envs w s k"
      using acquire_wait_ends [OF run, of s] by auto
    define k where "k = (LEAST k. \<not> wait_retry b cfg envs w s k)"
    have "\<not> wait_retry b cfg envs w s k" unfolding k_def using ex by (rule LeastI_ex)
    moreover have "\<forall>j<k. wait_retry b cfg envs w s j" unfolding k_def using not_less_Least by blast
    ultimately show "\<exists>k. (\<forall>j<k. wait_retry b cfg envs w s j) \<and> \<not> wait_retry b cfg envs w s k \<and>
      out = (wait_state b cfg envs w s (Suc k), wait_events b cfg envs w s (Suc k),
             wait_result b cfg envs w s k)"
      using stop run by (metis option.inject)
  qed (use stop in blast)
qed

lemma acquire_attempt_event:
  "acquire_attempt b cfg env s w = (s', ev, r) \<Longrightarrow>
   ev = OnAcquire w (case r of Inl _ \<Rightarrow> zero_token | Inr tok \<Rightarrow> tok) (call_dur env)
          (case r of Inl e \<Rightarrow> Some e | Inr _ \<Rightarrow> None)"
  by (auto simp: acquire_attempt_def Let_def split: prod.splits sum.splits)

text \<open>
  Waiting \<open>Acquire\<close>. When it returns, after \<open>k\<close> failed attempts and one last one: every
  attempt was reported once, in order; every earlier one found the lease held; on success the last
  event carries the token; the error returned never matches \<open>ErrLeaseHeld\<close>, is the context's error
  when the wait was cancelled, and otherwise is the backend's, whose attempt ended the wait.
\<close>

theorem acquire_wait_result:
  assumes "acquire_wait b cfg envs w 0 s [] = Some (s', log, res)"
    and "\<And>k c. ae_wait (envs k) = Some c \<Longrightarrow> ctx_error c"
  shows "\<exists>k last. log = wait_events b cfg envs w s k @ [last] \<and>
    (\<forall>ev\<in>set (wait_events b cfg envs w s k). ev_work ev = w \<and> ev_token ev = zero_token \<and>
       err_matches (ev_err ev) ErrLeaseHeld) \<and>
    (case res of
       Inr tok \<Rightarrow> ev_token last = tok \<and> ev_err last = None \<and>
         tk_deadline tok = time_add (ce_start (ae_call (envs k))) (cf_ttl cfg)
     | Inl e \<Rightarrow> \<not> errors_is e ErrLeaseHeld \<and>
         (if err_matches (ev_err last) ErrLeaseHeld
          then (\<exists>c. ae_wait (envs k) = Some c \<and> errors_is e c)
          else (\<exists>e'. ev_err last = Some e' \<and> e = Wrap ''worklease: Acquire'' e')))"
proof -
  obtain k where k: "\<forall>j<k. wait_retry b cfg envs w s j" "\<not> wait_retry b cfg envs w s k"
    "log = wait_events b cfg envs w s (Suc k)" "res = wait_result b cfg envs w s k"
    using assms(1) by (auto simp: acquire_wait_iff simp del: wait_state.simps)
  obtain t ev r where att: "wait_attempt b cfg envs w s k = (t, ev, r)"
    by (cases "wait_attempt b cfg envs w s k")
  have earlier: "\<forall>ev\<in>set (wait_events b cfg envs w s k). ev_work ev = w \<and> ev_token ev = zero_token \<and>
       err_matches (ev_err ev) ErrLeaseHeld"
  proof
    fix x assume "x \<in> set (wait_events b cfg envs w s k)"
    then obtain j where j: "j < k" "x = fst (snd (wait_attempt b cfg envs w s j))"
      by (auto simp: wait_events_def)
    obtain t' ev' r' where att': "wait_attempt b cfg envs w s j = (t', ev', r')"
      by (cases "wait_attempt b cfg envs w s j")
    then show "ev_work x = w \<and> ev_token x = zero_token \<and> err_matches (ev_err x) ErrLeaseHeld"
      using j k(1) acquire_attempt_event [OF att' [unfolded wait_attempt_def]]
      by (fastforce simp: wait_retry_def split: sum.splits)
  qed
  have deadline: "tk_deadline tok = time_add (ce_start (ae_call (envs k))) (cf_ttl cfg)" if "r = Inr tok" for tok
    using att that by (auto simp: wait_attempt_def acquire_attempt_def Let_def split: prod.splits sum.splits)
  have ends: "ae_wait (envs k) \<noteq> None" if "r = Inl e" "errors_is e ErrLeaseHeld" for e
    using that att k(2) by (auto simp: wait_retry_def)
  show ?thesis
    using earlier att k(3,4) deadline ends acquire_attempt_event [OF att [unfolded wait_attempt_def]] assms(2) [of k]
    by (intro exI [of _ k] exI [of _ ev])
       (auto simp: wait_events_Suc wait_result_def ctx_error_def split: sum.splits)
qed

text \<open>The witness: the first attempt finds the lease held, the second comes after it lapsed.\<close>

definition ex_cfg :: "string \<Rightarrow> client_config" where
  "ex_cfg h = \<lparr>cf_ttl = millisecond, cf_holder = h\<rparr>"

definition ex_call :: "int \<Rightarrow> call_env" where
  "ex_call t = \<lparr>ce_ctx = None, ce_clk = ex_clock t, ce_start = At t, ce_end = At (t + 3)\<rparr>"

definition ex_envs :: "nat \<Rightarrow> attempt_env" where
  "ex_envs k = \<lparr>ae_before = [], ae_call = ex_call (5 + 10 * int k), ae_wait = None\<rparr>"

lemma ex_acquire_wait:
  "acquire_wait memory (ex_cfg ''b'') ex_envs ''w'' 0 (ex_mem (ex_row ''a'' 1 10)) [] =
     (let tok = \<lparr>tk_work = ''w'', tk_holder = ''b'', tk_token = 2, tk_expires = At 1000016,
                 tk_deadline = At 1000015\<rparr>
      in Some (\<lparr>records = [(''w'', successor_row (Some (ex_row ''a'' 1 10)) ''b'' 2 (At 1000016) (At 17))], seq = 2\<rparr>,
           [OnAcquire ''w'' zero_token 3 (Some ErrLeaseHeld), OnAcquire ''w'' tok 3 None], Inr tok))"
  by (subst acquire_wait.simps, subst acquire_wait.simps)
     (simp add: ex_simps ex_cfg_def ex_envs_def ex_call_def acquire_attempt_def mem_acquire_def
       call_dur_def time_sub_def sat64_def newToken_def)

theorem acquire_wait_result_witness:
  "\<exists>k. [OnAcquire ''w'' zero_token 3 (Some ErrLeaseHeld)] =
       wait_events memory (ex_cfg ''b'') ex_envs ''w'' (ex_mem (ex_row ''a'' 1 10)) k \<and>
     At 1000015 = time_add (ce_start (ae_call (ex_envs k))) millisecond"
  using acquire_wait_result [OF ex_acquire_wait [unfolded Let_def]]
  by (auto simp: ex_envs_def ex_cfg_def)

section \<open>What a successful acquisition guarantees\<close>

primrec wait_calls :: "(nat \<Rightarrow> attempt_env) \<Rightarrow> nat \<Rightarrow> nat" where
  "wait_calls envs 0 = 0"
| "wait_calls envs (Suc k) = wait_calls envs k + length (ae_before (envs k)) + 1"

lemma wait_calls_mono: "i \<le> j \<Longrightarrow> wait_calls envs i \<le> wait_calls envs j"
  by (rule lift_Suc_mono_le [of "wait_calls envs"]) simp_all

lemma client_acquire_success:
  assumes "client_acquire b cfg envs s w opts = Some (s', log, Inr tok)"
  obtains k last where "acquire_attempt b cfg (ae_call (envs k))
      (b_run b (ae_before (envs k)) (wait_state b cfg envs w s k)) w = (s', last, Inr tok)"
    "length log = Suc k"
proof (cases "ac_wait (apply_options opts default_acquire_config)")
  case False
  then show ?thesis
    using assms that [of 0]
    by (auto simp: client_acquire_def Let_def split: if_splits prod.splits sum.splits)
next
  case True
  then have "acquire_wait b cfg envs w 0 s [] = Some (s', log, Inr tok)"
    using assms by (simp add: client_acquire_def Let_def split: if_splits)
  then obtain k where k: "s' = wait_state b cfg envs w s (Suc k)"
    "log = wait_events b cfg envs w s (Suc k)" "Inr tok = wait_result b cfg envs w s k"
    by (auto simp: acquire_wait_iff simp del: wait_state.simps)
  obtain t ev r where att: "wait_attempt b cfg envs w s k = (t, ev, r)"
    by (cases "wait_attempt b cfg envs w s k")
  then have "r = Inr tok" and "t = s'"
    using k by (auto simp: wait_result_def wait_state_Suc simp del: wait_state.simps split: sum.splits if_splits)
  then show ?thesis
    using that [of k ev] att k(2) by (simp add: wait_attempt_def wait_events_def)
qed

text \<open>
  The clocks of a call: the backend's readings come after the local start, and the backend's clock
  is \<open>\<delta>\<close> ahead of the local one.
\<close>

definition offset_call :: "int \<Rightarrow> call_env \<Rightarrow> bool" where
  "offset_call \<delta> env \<longleftrightarrow> mono (ce_clk env) \<and> ns (ce_start env) + \<delta> \<le> ns (ce_clk env 0)"

context lease_backend
begin

lemma attempt_ok:
  assumes "inv s" and "issued s < token_limit" and "acquire_attempt b cfg env s w = (s', ev, r)"
  shows "inv s'" and "issued s \<le> issued s'" and "issued s' \<le> issued s + 2"
    and "r = Inr tok \<Longrightarrow> tk_work tok = w \<and> tk_holder tok = cf_holder cfg \<and>
       issued s < unat (tk_token tok) \<and> unat (tk_token tok) = issued s' \<and>
       (\<exists>row. view s' w = Some row \<and> held_by row (toRecord tok) \<and> row_exit row = ExitNone \<and>
          row_checkpoint row = cp_state (inherited (view s w)) \<and>
          row_prev_exit row = cp_prev_exit (inherited (view s w)) \<and>
          row_prev_holder row = cp_prev_holder (inherited (view s w)) \<and>
          row_expires row = tk_expires tok \<and>
          (offset_call \<delta> env \<longrightarrow> ns (tk_deadline tok) + \<delta> \<le> ns (row_expires row)))"
proof -
  obtain s'' x where acq: "b_acquire b (ce_ctx env) (ce_clk env) s w (cf_holder cfg) (cf_ttl cfg) = (s'', x)"
    by (cases "b_acquire b (ce_ctx env) (ce_clk env) s w (cf_holder cfg) (cf_ttl cfg)")
  have s'': "s'' = s'"
    using assms(3) acq by (auto simp: acquire_attempt_def Let_def split: sum.splits)
  have s': "b_call b (ce_ctx env) (ce_clk env) (DoAcquire w (cf_holder cfg) (cf_ttl cfg)) s = s'"
    using acq s'' by simp
  show "inv s'" and "issued s \<le> issued s'" and "issued s' \<le> issued s + 2"
    using call_step(1-3) [OF assms(1,2), of "DoAcquire w (cf_holder cfg) (cf_ttl cfg)" "ce_ctx env" "ce_clk env"] s'
    by simp_all
  assume r: "r = Inr tok"
  then obtain rec where x: "x = Inr rec" "tok = newToken rec (time_add (ce_start env) (cf_ttl cfg))"
    using assms(3) acq by (auto simp: acquire_attempt_def Let_def split: sum.splits)
  have "ce_ctx env = None"
  proof (cases "ce_ctx env")
    case (Some e)
    obtain e' where "b_acquire b (Some e) (ce_clk env) s w (cf_holder cfg) (cf_ttl cfg) = (s, Inl e')"
      using acquire_ctx by blast
    then show ?thesis using acq x(1) Some by simp
  qed simp
  then show "tk_work tok = w \<and> tk_holder tok = cf_holder cfg \<and>
       issued s < unat (tk_token tok) \<and> unat (tk_token tok) = issued s' \<and>
       (\<exists>row. view s' w = Some row \<and> held_by row (toRecord tok) \<and> row_exit row = ExitNone \<and>
          row_checkpoint row = cp_state (inherited (view s w)) \<and>
          row_prev_exit row = cp_prev_exit (inherited (view s w)) \<and>
          row_prev_holder row = cp_prev_holder (inherited (view s w)) \<and>
          row_expires row = tk_expires tok \<and>
          (offset_call \<delta> env \<longrightarrow> ns (tk_deadline tok) + \<delta> \<le> ns (row_expires row)))"
    using acquire_total [OF assms(1,2), of w "ce_clk env" "cf_holder cfg" "cf_ttl cfg"] acq x s''
    by (cases "view s w")
       (auto simp: held_by_def offset_call_def during_def inherited_def zero_checkpoint_def)
qed

lemma wait_state_inv:
  assumes "inv s" and "\<And>k. schedule_ok (ae_before (envs k))"
  shows "issued s + 2 * wait_calls envs k < token_limit \<Longrightarrow>
    inv (wait_state b cfg envs w s k) \<and> issued s \<le> issued (wait_state b cfg envs w s k) \<and>
    issued (wait_state b cfg envs w s k) \<le> issued s + 2 * wait_calls envs k"
proof (induction k)
  case (Suc k)
  let ?t = "wait_state b cfg envs w s k"
  have IH: "inv ?t" "issued s \<le> issued ?t" "issued ?t \<le> issued s + 2 * wait_calls envs k"
    using Suc by simp_all
  have room: "room ?t (ae_before (envs k))" using IH(3) Suc.prems by (simp add: room_def)
  note run = run_inv [OF IH(1) room assms(2)]
  obtain s' ev r where "acquire_attempt b cfg (ae_call (envs k)) (b_run b (ae_before (envs k)) ?t) w = (s', ev, r)"
    by (cases "acquire_attempt b cfg (ae_call (envs k)) (b_run b (ae_before (envs k)) ?t) w")
  with attempt_ok(1-3) [of "b_run b (ae_before (envs k)) ?t"] run IH Suc.prems show ?case
    by fastforce
qed (use assms in simp)

lemma acquire_token:
  assumes "inv s" and "\<And>k. schedule_ok (ae_before (envs k))"
    and "client_acquire b cfg envs s w opts = Some (s', log, Inr tok)"
    and "issued s + 2 * wait_calls envs (length log) < token_limit"
  shows "inv s'" and "issued s < unat (tk_token tok)" and "unat (tk_token tok) = issued s'"
    and "issued s' \<le> issued s + 2 * wait_calls envs (length log)"
    and "tk_work tok = w" and "tk_holder tok = cf_holder cfg"
    and "\<exists>row. view s' w = Some row \<and> held_by row (toRecord tok) \<and> row_exit row = ExitNone \<and>
       row_expires row = tk_expires tok \<and>
       ((\<forall>k. offset_call \<delta> (ae_call (envs k))) \<longrightarrow> ns (tk_deadline tok) + \<delta> \<le> ns (row_expires row))"
    and "\<exists>k<length log. tk_deadline tok = time_add (ce_start (ae_call (envs k))) (cf_ttl cfg)"
proof -
  obtain k ev where k: "acquire_attempt b cfg (ae_call (envs k))
      (b_run b (ae_before (envs k)) (wait_state b cfg envs w s k)) w = (s', ev, Inr tok)"
    "length log = Suc k"
    using client_acquire_success [OF assms(3)] .
  let ?t = "wait_state b cfg envs w s k"
  have IH: "inv ?t" "issued s \<le> issued ?t" "issued ?t \<le> issued s + 2 * wait_calls envs k"
    using wait_state_inv [OF assms(1,2), where k = k] assms(4) k(2) by simp_all
  have room: "room ?t (ae_before (envs k))" using IH(3) assms(4) k(2) by (simp add: room_def)
  note run = run_inv [OF IH(1) room assms(2)]
  have lim: "issued (b_run b (ae_before (envs k)) ?t) < token_limit"
    using run IH(3) assms(4) k(2) by simp
  have run': "inv (b_run b (ae_before (envs k)) ?t)" using run by blast
  note ok = attempt_ok [OF run' lim k(1)]
  show "inv s'" by (rule ok(1))
  show "issued s' \<le> issued s + 2 * wait_calls envs (length log)" using ok(3) run IH(3) k(2) by simp
  have "issued (b_run b (ae_before (envs k)) ?t) < unat (tk_token tok)" using ok(4) [OF refl] by blast
  then show "issued s < unat (tk_token tok)" using run IH(2) by linarith
  show "unat (tk_token tok) = issued s'" and "tk_work tok = w" and "tk_holder tok = cf_holder cfg"
    using ok(4) [OF refl] by blast+
  show "\<exists>row. view s' w = Some row \<and> held_by row (toRecord tok) \<and> row_exit row = ExitNone \<and>
       row_expires row = tk_expires tok \<and>
       ((\<forall>k. offset_call \<delta> (ae_call (envs k))) \<longrightarrow> ns (tk_deadline tok) + \<delta> \<le> ns (row_expires row))"
    using ok(4) [OF refl, of \<delta>] by blast
  show "\<exists>k<length log. tk_deadline tok = time_add (ce_start (ae_call (envs k))) (cf_ttl cfg)"
    using k by (auto simp: acquire_attempt_def Let_def split: prod.splits sum.splits)
qed

end

section \<open>Two clients\<close>

text \<open>
  What a fenced-out client sees: every operation leaves the store as it is, returns an error that
  matches \<open>ErrFenced\<close>, and reports the operation and then the fencing (reading a checkpoint
  reports no fencing and returns no checkpoint).
\<close>

definition sees_fenced ::
  "'s backend \<Rightarrow> client_config \<Rightarrow> call_env \<Rightarrow> 's \<Rightarrow> token \<Rightarrow> bytes \<Rightarrow> exit_mode \<Rightarrow> bool" where
  "sees_fenced b cfg env s tok st m \<longleftrightarrow>
     (let e = Some ErrFenced; d = call_dur env in
      (\<exists>r. client_checkpoint b cfg env s tok st =
          (s, [OnCheckpoint tok (slice_len st) d e, OnFenced tok OperationCheckpoint], Some r) \<and> errors_is r ErrFenced) \<and>
      (\<exists>r. client_renew b cfg env s tok =
          (s, [OnRenew tok d 1 e, OnFenced tok OperationRenew], Some r) \<and> errors_is r ErrFenced) \<and>
      (\<exists>r. client_release b cfg env s tok m =
          (s, [OnRelease tok d m e, OnFenced tok OperationRelease], Some r) \<and> errors_is r ErrFenced) \<and>
      (\<exists>r. client_forget b cfg env s tok =
          (s, [OnForget tok d e, OnFenced tok OperationForget], Some r) \<and> errors_is r ErrFenced) \<and>
      (\<exists>r. client_read_checkpoint b cfg env s tok =
          (s, [OnReadCheckpoint tok d ExitNone '''' 0 e], Inl r) \<and> errors_is r ErrFenced))"

context lease_backend
begin

lemma superseded_sees_fenced:
  assumes "inv s" and "superseded (view s (tk_work tok)) (issued s) (toRecord tok)"
    and "ce_ctx env = None" and "declarable m"
  shows "sees_fenced b cfg env s tok st m"
  using superseded_fenced [of s "toRecord tok"] assms
  by (auto simp: sees_fenced_def client_checkpoint_def client_renew_def client_release_def
      client_forget_def client_read_checkpoint_def fenced_events_def op_error_def zero_checkpoint_def
      declarable_def Let_def)

lemma two_clients:
  assumes "inv s0" and "\<And>k. schedule_ok (ae_before (envs1 k))" and "\<And>k. schedule_ok (ae_before (envs2 k))"
    and "client_acquire b cfg1 envs1 s0 w opts1 = Some (s1, log1, Inr tok1)"
    and "schedule_ok cs" and "s2 = b_run b cs s1"
    and "client_acquire b cfg2 envs2 s2 w opts2 = Some (s3, log2, Inr tok2)"
    and "schedule_ok cs'" and "s4 = b_run b cs' s3"
    and "issued s0 + 2 * (wait_calls envs1 (length log1) + length cs + wait_calls envs2 (length log2) +
      length cs') < token_limit"
    and "ce_ctx env = None" and "declarable m"
  shows "unat (tk_token tok1) < unat (tk_token tok2)" and "sees_fenced b cfg1 env s4 tok1 st m"
proof -
  note a1 = acquire_token [OF assms(1,2,4)]
  have lim1: "issued s0 + 2 * wait_calls envs1 (length log1) < token_limit" using assms(10) by simp
  have room1: "room s1 cs" using a1(4) [OF lim1] assms(10) by (simp add: room_def)
  note r1 = run_inv [OF a1(1) [OF lim1] room1 assms(5)]
  have inv2: "inv s2" and le2: "issued s1 \<le> issued s2" "issued s2 \<le> issued s1 + 2 * length cs"
    using r1 assms(6) by simp_all
  note a2 = acquire_token [OF inv2 assms(3,7)]
  have lim2: "issued s2 + 2 * wait_calls envs2 (length log2) < token_limit"
    using a1(4) [OF lim1] le2(2) assms(10) by simp
  show less: "unat (tk_token tok1) < unat (tk_token tok2)"
    using a1(3) [OF lim1] a2(2) [OF lim2] le2(1) by simp
  have "superseded (view s3 w) (issued s3) (toRecord tok1)"
    using a2(7) [OF lim2] a2(3) [OF lim2] less by (auto simp: superseded_def held_by_def)
  moreover have room2: "room s3 cs'"
    using a1(4) [OF lim1] a2(4) [OF lim2] le2 assms(10) by (simp add: room_def)
  ultimately have "superseded (view s4 w) (issued s4) (toRecord tok1)" and "inv s4"
    using run_superseded [OF a2(1) [OF lim2] room2 assms(8), of "toRecord tok1"]
      run_inv [OF a2(1) [OF lim2] room2 assms(8)] a1(5) [OF lim1] assms(9) by simp_all
  then show "sees_fenced b cfg1 env s4 tok1 st m"
    using superseded_sees_fenced assms(11,12) a1(5) [OF lim1] by blast
qed

text \<open>
  A waiting client gets the lease once it lapses, if nobody else touches the work ID: the calls of
  others before each attempt leave its row alone.
\<close>

lemma acquire_wait_lives:
  assumes "inv s" and "view s w = Some r"
    and others: "\<And>k. schedule_ok (ae_before (envs k))"
      "\<And>k t. k \<le> n \<Longrightarrow> inv t \<Longrightarrow> view t w = Some r \<Longrightarrow> view (b_run b (ae_before (envs k)) t) w = Some r"
    and live: "\<And>k. k \<le> n \<Longrightarrow> ce_ctx (ae_call (envs k)) = None" "\<And>k. k \<le> n \<Longrightarrow> ae_wait (envs k) = None"
    and late: "row_expires r < ce_clk (ae_call (envs n)) 0"
    and room: "issued s + 2 * wait_calls envs (Suc n) < token_limit"
  shows "\<exists>s' log tok. acquire_wait b cfg envs w 0 s [] = Some (s', log, Inr tok) \<and> length log \<le> Suc n"
proof -
  have mono: "k \<le> n \<Longrightarrow> wait_calls envs (Suc k) \<le> wait_calls envs (Suc n)" for k
    by (rule wait_calls_mono) simp
  have step: "(\<exists>tok. snd (snd (wait_attempt b cfg envs w s k)) = Inr tok) \<or>
      wait_retry b cfg envs w s k \<and> view (wait_state b cfg envs w s (Suc k)) w = Some r \<and> k \<noteq> n"
    if v: "view (wait_state b cfg envs w s k) w = Some r" and k: "k \<le> n" for k
  proof -
    let ?t = "wait_state b cfg envs w s k"
    let ?u = "b_run b (ae_before (envs k)) ?t"
    have IH: "inv ?t" "issued ?t \<le> issued s + 2 * wait_calls envs k"
      using wait_state_inv [OF assms(1) others(1), where k = k] room mono [OF k] by simp_all
    have "room ?t (ae_before (envs k))" using IH(2) room mono [OF k] by (simp add: room_def)
    note run = run_inv [OF IH(1) this others(1)]
    have "issued ?u < token_limit" using run IH(2) room mono [OF k] by simp
    moreover have "view ?u w = Some r" by (rule others(2) [OF k IH(1) v])
    ultimately show ?thesis
      using acquire_total [of ?u w "ce_clk (ae_call (envs k))" "cf_holder cfg" "cf_ttl cfg"]
        run live(1,2) [OF k] late
      by (auto simp: wait_attempt_def acquire_attempt_def wait_retry_def Let_def not_less
          dest: leD)
  qed
  have ex: "\<exists>k\<le>n. (\<forall>j<k. wait_retry b cfg envs w s j) \<and> (\<exists>tok. snd (snd (wait_attempt b cfg envs w s k)) = Inr tok)"
  proof (rule ccontr)
    assume never: "\<not> ?thesis"
    have "k \<le> n \<Longrightarrow> view (wait_state b cfg envs w s k) w = Some r \<and> (\<forall>j<k. wait_retry b cfg envs w s j)" for k
    proof (induction k)
      case (Suc k)
      then have IH: "k \<le> n" "view (wait_state b cfg envs w s k) w = Some r"
        "\<forall>j<k. wait_retry b cfg envs w s j" by simp_all
      then have "\<not> (\<exists>tok. snd (snd (wait_attempt b cfg envs w s k)) = Inr tok)" using never by blast
      then show ?case using step [OF IH(2,1)] IH(3) by (auto simp: less_Suc_eq simp del: wait_state.simps)
    qed (use assms(2) in simp)
    then have "view (wait_state b cfg envs w s n) w = Some r" "\<forall>j<n. wait_retry b cfg envs w s j" by blast+
    then show False using step [of n] never by blast
  qed
  then obtain k tok where k: "k \<le> n" "\<forall>j<k. wait_retry b cfg envs w s j"
    "snd (snd (wait_attempt b cfg envs w s k)) = Inr tok" by blast
  have "\<not> wait_retry b cfg envs w s k" using k(3) by (simp add: wait_retry_def)
  with k have "acquire_wait b cfg envs w 0 s [] = Some (wait_state b cfg envs w s (Suc k),
      wait_events b cfg envs w s (Suc k), Inr tok)"
    by (auto simp: acquire_wait_iff wait_result_def)
  then show ?thesis using k(1) by (auto simp: wait_events_def)
qed

end

section \<open>Properties\<close>

text \<open>
  Construction. \<open>New\<close> succeeds exactly for a backend, a time to live of at least a
  millisecond and a non-empty holder ID, and then keeps the configuration; every error it returns
  matches \<open>ErrConfigInvalid\<close>.
\<close>

theorem lease_new_validates:
  "case lease_new b cfg of
     Inr (b', cfg') \<Rightarrow> b = Some b' \<and> cfg' = cfg \<and> millisecond \<le> cf_ttl cfg \<and> cf_holder cfg \<noteq> ''''
   | Inl e \<Rightarrow> errors_is e ErrConfigInvalid \<and>
       (b = None \<and> e = ErrNilBackend \<or> cf_ttl cfg < millisecond \<or> cf_holder cfg = '''')"
  by (cases b) (auto simp: lease_new_def ErrNilBackend_def minTTL_def)

text \<open>
  C4. Two clients. A first client acquires (waiting or not, with any others calling in between);
  anything happens; a second client acquires the same work; anything happens again. Then the
  second token is the larger, and every operation the first client makes with its token is
  fenced: nothing is written, the error matches \<open>ErrFenced\<close>, and the observer hears of the call and
  then of the fencing.
\<close>

theorem first_client_fenced_out:
  assumes "mem_inv s0" and "\<And>k. schedule_ok (ae_before (envs1 k))" and "\<And>k. schedule_ok (ae_before (envs2 k))"
    and "client_acquire memory cfg1 envs1 s0 w opts1 = Some (s1, log1, Inr tok1)"
    and "schedule_ok cs" and "s2 = b_run memory cs s1"
    and "client_acquire memory cfg2 envs2 s2 w opts2 = Some (s3, log2, Inr tok2)"
    and "schedule_ok cs'" and "s4 = b_run memory cs' s3"
    and "mem_issued s0 + 2 * (wait_calls envs1 (length log1) + length cs + wait_calls envs2 (length log2) +
      length cs') < token_limit"
    and "ce_ctx env = None" and "declarable m"
  shows "unat (tk_token tok1) < unat (tk_token tok2) \<and> sees_fenced memory cfg1 env s4 tok1 st m"
  using mem.two_clients [OF assms] by blast

definition ex_envs_at :: "int \<Rightarrow> nat \<Rightarrow> attempt_env" where
  "ex_envs_at t k = \<lparr>ae_before = [], ae_call = ex_call t, ae_wait = None\<rparr>"

definition ex_token :: "string \<Rightarrow> u64 \<Rightarrow> int \<Rightarrow> token" where
  "ex_token h t e = \<lparr>tk_work = ''w'', tk_holder = h, tk_token = t, tk_expires = At e, tk_deadline = At e\<rparr>"

lemmas ex_client_simps =
  ex_simps ex_cfg_def ex_envs_at_def ex_call_def ex_token_def client_acquire_def default_acquire_config_def
  acquire_attempt_def mem_acquire_def call_dur_def time_sub_def sat64_def newToken_def memory_new_def

theorem first_client_fenced_out_witness:
  "let s1 = ex_mem (successor_row None ''a'' 1 (At 1000005) (At 6));
       s3 = ex_mem (successor_row (Some (successor_row None ''a'' 1 (At 1000005) (At 6))) ''b'' 2 (At 3000001) (At 2000002))
   in client_acquire memory (ex_cfg ''a'') (ex_envs_at 5) memory_new ''w'' [] =
        Some (s1, [OnAcquire ''w'' (ex_token ''a'' 1 1000005) 3 None], Inr (ex_token ''a'' 1 1000005)) \<and>
      sees_fenced memory (ex_cfg ''a'') (ex_call 2000009) s3 (ex_token ''a'' 1 1000005) (Some [7]) ExitFinished"
proof -
  let ?s1 = "ex_mem (successor_row None ''a'' 1 (At 1000005) (At 6))"
  let ?s3 = "ex_mem (successor_row (Some (successor_row None ''a'' 1 (At 1000005) (At 6))) ''b'' 2 (At 3000001) (At 2000002))"
  have run1: "client_acquire memory (ex_cfg ''a'') (ex_envs_at 5) memory_new ''w'' [] =
        Some (?s1, [OnAcquire ''w'' (ex_token ''a'' 1 1000005) 3 None], Inr (ex_token ''a'' 1 1000005))"
    by (simp add: ex_client_simps)
  have run2: "client_acquire memory (ex_cfg ''b'') (ex_envs_at 2000000) ?s1 ''w'' [] =
        Some (?s3, [OnAcquire ''w'' \<lparr>tk_work = ''w'', tk_holder = ''b'', tk_token = 2, tk_expires = At 3000001,
            tk_deadline = At 3000000\<rparr> 3 None],
          Inr \<lparr>tk_work = ''w'', tk_holder = ''b'', tk_token = 2, tk_expires = At 3000001, tk_deadline = At 3000000\<rparr>)"
    by (simp add: ex_client_simps)
  show ?thesis
    using first_client_fenced_out [OF _ _ _ run1 _ _ run2, of "[]" "[]" ?s3 "ex_call 2000009" ExitFinished] run1
    using mem_inv_new by (simp add: ex_envs_at_def ex_call_def declarable_def token_limit_def mem_issued_def memory_new_def)
qed

text \<open>
  C31. Waiting \<open>Acquire\<close> returns. A client that waits for a held lease gets it by the first attempt
  made after the lease's expiry, if until then its context stays live and no other client
  touches that row: the call returns, with a token.
\<close>

theorem acquire_wait_returns:
  assumes "mem_inv s" and "mem_view s w = Some r"
    and "\<And>k. schedule_ok (ae_before (envs k))"
    and "\<And>k t. k \<le> n \<Longrightarrow> mem_inv t \<Longrightarrow> mem_view t w = Some r \<Longrightarrow>
      mem_view (b_run memory (ae_before (envs k)) t) w = Some r"
    and "\<And>k. k \<le> n \<Longrightarrow> ce_ctx (ae_call (envs k)) = None" and "\<And>k. k \<le> n \<Longrightarrow> ae_wait (envs k) = None"
    and "row_expires r < ce_clk (ae_call (envs n)) 0"
    and "mem_issued s + 2 * wait_calls envs (Suc n) < token_limit"
  shows "\<exists>s' log tok. acquire_wait memory cfg envs w 0 s [] = Some (s', log, Inr tok) \<and> length log \<le> Suc n"
  by (rule mem.acquire_wait_lives [OF assms])

theorem acquire_wait_returns_witness:
  "\<exists>s' log tok. acquire_wait memory (ex_cfg ''b'') ex_envs ''w'' 0 (ex_mem (ex_row ''a'' 1 10)) [] =
     Some (s', log, Inr tok) \<and> length log \<le> Suc 1"
  using acquire_wait_returns [of "ex_mem (ex_row ''a'' 1 10)" "''w''" "ex_row ''a'' 1 10" ex_envs 1 "ex_cfg ''b''"]
  by (simp add: ex_simps ex_envs_def ex_call_def)

text \<open>
  C37. The local window. With the backend's clock a constant \<open>\<delta>\<close> ahead of the client's, the
  deadline in a token never exceeds the expiry PostgreSQL stored, rounding of the interval
  included, and the row it names is held by that token with no exit declared.
\<close>

theorem token_deadline_within_lease:
  assumes "pg_inv s" and "\<And>k. schedule_ok (ae_before (envs k))"
    and "client_acquire postgres cfg envs s w opts = Some (s', log, Inr tok)"
    and "pg_issued s + 2 * wait_calls envs (length log) < token_limit"
    and "\<And>k. offset_call \<delta> (ae_call (envs k))"
  shows "\<exists>row. pg_view s' w = Some row \<and> held_by row (toRecord tok) \<and> row_exit row = ExitNone \<and>
    row_expires row = tk_expires tok \<and> ns (tk_deadline tok) + \<delta> \<le> ns (tk_expires tok)"
  using pg.acquire_token(7) [OF assms(1-4), of \<delta>] assms(5) by fastforce

theorem token_deadline_within_lease_witness:
  "\<exists>row. pg_view (fst (pg_acquire (pg_quiet None (ex_clock 5)) pg_empty ''w'' ''a'' millisecond)) ''w'' = Some row \<and>
     held_by row \<lparr>lr_work = ''w'', lr_holder = ''a'', lr_token = 1, lr_expires = At 1000005\<rparr> \<and>
     row_exit row = ExitNone \<and> row_expires row = At 1000005"
proof -
  let ?tok = "\<lparr>tk_work = ''w'', tk_holder = ''a'', tk_token = 1, tk_expires = At 1000005, tk_deadline = At 1000005\<rparr>"
  have us: "interval_us millisecond = 1000" by (simp add: interval_us_def)
  have run: "client_acquire postgres (ex_cfg ''a'') (ex_envs_at 5) pg_empty ''w'' [] =
      Some (fst (pg_acquire (pg_quiet None (ex_clock 5)) pg_empty ''w'' ''a'' millisecond),
        [OnAcquire ''w'' ?tok 3 None], Inr ?tok)"
    by (simp add: ex_client_simps ex_pg_simps us)
  show ?thesis
    using token_deadline_within_lease [OF pg_inv_empty _ run, of 0]
    by (simp add: ex_envs_at_def ex_call_def offset_call_def token_limit_def pg_issued_def pg_empty_def toRecord_def)
qed

end
