(* ===== verification/Renewal.thy ===== *)
theory Renewal
  imports Client
begin

text \<open>
  \<open>renewal.go\<close>: the renewal goroutine that \<open>StartRenewal\<close> starts.

  The goroutine, the \<open>Renew\<close> call it has in flight on a goroutine of its own, the local clock, the
  caller (\<open>stopRenewal\<close>, cancellation of the parent context) and the backend with its other clients
  run concurrently. A state \<open>renewal\<close> holds them all; an action is one atomic step of one of them,
  and \<open>renew_step\<close> gives the state after it, or \<open>None\<close> when it is not enabled. Where several
  branches of a Go \<open>select\<close> are ready, the actions of all of them are enabled.

  \<open>rn_cause\<close> is \<open>context.Cause(renewCtx)\<close>, \<open>rn_window\<close> the goroutine's own lease window,
  \<open>rn_published\<close> the copy that \<open>LeaseWindow\<close> reads, and \<open>rn_late\<close> the number of abandoned
  calls whose effect may still reach the backend.
\<close>

section \<open>Intervals\<close>

definition defaultRenewalInterval :: "duration \<Rightarrow> duration" where
  "defaultRenewalInterval ttl = max (ttl sdiv 2) 1"

definition nextBackoff :: "duration \<Rightarrow> duration \<Rightarrow> duration" where
  "nextBackoff base maxInterval =
     (let next = wrap64 (base * 2) in if maxInterval < next then maxInterval else next)"

text \<open>
  \<open>draw\<close> is \<open>rand.Float64()\<close>; \<open>conv\<close> is what the platform's conversion of a double that is not
  finite to \<open>int64\<close> gives, which Go leaves to the implementation.
\<close>

definition backoffWait :: "int \<Rightarrow> int \<Rightarrow> duration \<Rightarrow> f64 \<Rightarrow> duration" where
  "backoffWait conv draw base jitter =
     (case jitter of
        Finite j \<Rightarrow>
          if j \<le> 0 then base
          else wrap64 (base + fmul (fmul j (fl (base * fl_unit) 1)) draw div fl_unit)
      | NegInf \<Rightarrow> base
      | PosInf \<Rightarrow> wrap64 (base + conv)
      | NaN \<Rightarrow> wrap64 (base + conv))"

definition renewal_defaults :: "client_config \<Rightarrow> renewal_config" where
  "renewal_defaults cfg =
     \<lparr>rc_interval = defaultRenewalInterval (cf_ttl cfg), rc_initial = defaultBackoffInitial,
      rc_max = defaultBackoffMax, rc_jitter = defaultBackoffJitter\<rparr>"

section \<open>The goroutine\<close>

text \<open>
  Where the goroutine is: in the \<open>select\<close> of its main loop; past a tick, about to read the clock;
  in the \<open>select\<close> of \<open>renewAttempt\<close> (attempt number, backoff base, local start of the call, and
  the result with its duration once the call has returned); after a failed attempt, about to read
  the clock; in the backoff \<open>select\<close> until a time; past it, about to read the clock; exited.
\<close>

datatype phase =
    Waiting
  | Ticked
  | Calling nat duration instant "(gerror option \<times> duration) option"
  | Failed nat duration
  | Sleeping nat duration instant
  | Woken nat duration
  | Exited

record 's renewal =
  rn_store :: 's
  rn_now :: instant
  rn_stop :: bool
  rn_parent :: ctx_err
  rn_phase :: phase
  rn_tick :: instant
  rn_window :: instant
  rn_published :: instant
  rn_cause :: ctx_err
  rn_log :: "event list"
  rn_late :: nat

definition initialWindow :: "token \<Rightarrow> instant" where
  "initialWindow tok = tk_deadline tok"

definition start_renewal ::
  "client_config \<Rightarrow> renewal_config \<Rightarrow> token \<Rightarrow> ctx_err \<Rightarrow> instant \<Rightarrow> 's \<Rightarrow> 's renewal" where
  "start_renewal cfg rcfg tok parent now s =
     \<lparr>rn_store = s, rn_now = now, rn_stop = False, rn_parent = parent, rn_phase = Waiting,
      rn_tick = time_add now (rc_interval rcfg), rn_window = initialWindow tok,
      rn_published = initialWindow tok, rn_cause = parent, rn_log = [], rn_late = 0\<rparr>"

text \<open>\<open>cancelCause\<close>: the first cancellation of a context fixes its cause.\<close>

definition cancel_cause :: "gerror \<Rightarrow> 's renewal \<Rightarrow> 's renewal" where
  "cancel_cause e r = (if rn_cause r = None then r\<lparr>rn_cause := Some e\<rparr> else r)"

definition exit_phase :: "'s renewal \<Rightarrow> 's renewal" where
  "exit_phase r = r\<lparr>rn_phase := Exited\<rparr>"

definition report :: "event \<Rightarrow> 's renewal \<Rightarrow> 's renewal" where
  "report ev r = r\<lparr>rn_log := rn_log r @ [ev]\<rparr>"

text \<open>Abandoning an attempt: report why, and leave the call, if it has not returned, in flight.\<close>

definition abandon :: "token \<Rightarrow> nat \<Rightarrow> instant \<Rightarrow> bool \<Rightarrow> gerror \<Rightarrow> 's renewal \<Rightarrow> 's renewal" where
  "abandon tok a start inflight err r =
     exit_phase (report (OnRenew tok (time_sub (rn_now r) start) a (Some err))
       (r\<lparr>rn_late := rn_late r + (if inflight then 1 else 0)\<rparr>))"

text \<open>\<open>renewCycle\<close> after the call's result \<open>err\<close> arrived.\<close>

definition received ::
  "client_config \<Rightarrow> token \<Rightarrow> nat \<Rightarrow> duration \<Rightarrow> instant \<Rightarrow> gerror option \<Rightarrow> duration \<Rightarrow> 's renewal \<Rightarrow> 's renewal" where
  "received cfg tok a base start err d r =
     (let r = report (OnRenew tok d a err) r
      in if err_matches err ErrFenced then
           exit_phase (cancel_cause ErrFenced (report (OnFenced tok OperationRenew) r))
         else if err_matches err ErrLeaseExpired then
           exit_phase (cancel_cause (Wraps ''join'' [ErrLeaseWindowExhausted, ErrLeaseExpired]) r)
         else if err = None then
           (let window = time_add start (cf_ttl cfg)
            in r\<lparr>rn_window := window, rn_published := window, rn_phase := Waiting\<rparr>)
         else r\<lparr>rn_phase := Failed a base\<rparr>)"

datatype raction =
    Pass duration
  | Others schedule
  | CallStop
  | CancelParent gerror
  | Serve ctx_err clock
  | Late ctx_err clock
  | SeeStop
  | SeeParent
  | SeeWindow
  | SeeTick
  | SeeBackoff
  | Receive
  | CheckWindow int int

fun renew_step ::
  "'s backend \<Rightarrow> client_config \<Rightarrow> renewal_config \<Rightarrow> token \<Rightarrow> raction \<Rightarrow> 's renewal \<Rightarrow> 's renewal option" where
  "renew_step b cfg rcfg tok (Pass d) r =
     (if 0 \<le> d then Some (r\<lparr>rn_now := time_add (rn_now r) d\<rparr>) else None)"
| "renew_step b cfg rcfg tok (Others cs) r = Some (r\<lparr>rn_store := b_run b cs (rn_store r)\<rparr>)"
| "renew_step b cfg rcfg tok CallStop r = Some (r\<lparr>rn_stop := True\<rparr>)"
| "renew_step b cfg rcfg tok (CancelParent e) r =
     (if rn_parent r = None then Some (cancel_cause e (r\<lparr>rn_parent := Some e\<rparr>)) else None)"
| "renew_step b cfg rcfg tok (Serve c clk) r =
     (case rn_phase r of
        Calling a base start None \<Rightarrow>
          let (s', err) = b_renew b c clk (rn_store r) (toRecord tok) (cf_ttl cfg)
          in Some (r\<lparr>rn_store := s',
                     rn_phase := Calling a base start (Some (err, time_sub (rn_now r) start))\<rparr>)
      | _ \<Rightarrow> None)"
| "renew_step b cfg rcfg tok (Late c clk) r =
     (if rn_late r = 0 then None
      else Some (r\<lparr>rn_store := fst (b_renew b c clk (rn_store r) (toRecord tok) (cf_ttl cfg)),
                   rn_late := rn_late r - 1\<rparr>))"
| "renew_step b cfg rcfg tok SeeStop r =
     (if \<not> rn_stop r then None
      else case rn_phase r of
             Waiting \<Rightarrow> Some (exit_phase r)
           | Calling a base start res \<Rightarrow> Some (abandon tok a start (res = None) CtxCanceled r)
           | Sleeping a base until \<Rightarrow> Some (exit_phase r)
           | _ \<Rightarrow> None)"
| "renew_step b cfg rcfg tok SeeParent r =
     (case rn_parent r of
        None \<Rightarrow> None
      | Some e \<Rightarrow>
          (case rn_phase r of
             Waiting \<Rightarrow> Some (exit_phase r)
           | Calling a base start res \<Rightarrow> Some (abandon tok a start (res = None) e r)
           | Sleeping a base until \<Rightarrow> Some (exit_phase r)
           | _ \<Rightarrow> None))"
| "renew_step b cfg rcfg tok SeeWindow r =
     (if rn_now r < rn_window r then None
      else case rn_phase r of
             Waiting \<Rightarrow> Some (exit_phase (cancel_cause ErrLeaseWindowExhausted r))
           | Calling a base start res \<Rightarrow>
               Some (cancel_cause ErrLeaseWindowExhausted
                 (abandon tok a start (res = None) CtxDeadlineExceeded r))
           | Sleeping a base until \<Rightarrow> Some (exit_phase (cancel_cause ErrLeaseWindowExhausted r))
           | _ \<Rightarrow> None)"
| "renew_step b cfg rcfg tok SeeTick r =
     (case rn_phase r of
        Waiting \<Rightarrow>
          if rn_now r < rn_tick r then None
          else Some (r\<lparr>rn_phase := Ticked, rn_tick := time_add (rn_tick r) (rc_interval rcfg)\<rparr>)
      | _ \<Rightarrow> None)"
| "renew_step b cfg rcfg tok SeeBackoff r =
     (case rn_phase r of
        Sleeping a base until \<Rightarrow> if rn_now r < until then None else Some (r\<lparr>rn_phase := Woken a base\<rparr>)
      | _ \<Rightarrow> None)"
| "renew_step b cfg rcfg tok Receive r =
     (case rn_phase r of
        Calling a base start (Some (err, d)) \<Rightarrow> Some (received cfg tok a base start err d r)
      | _ \<Rightarrow> None)"
| "renew_step b cfg rcfg tok (CheckWindow conv draw) r =
     (let live = rn_now r < rn_window r; closed = exit_phase (cancel_cause ErrLeaseWindowExhausted r)
      in case rn_phase r of
           Ticked \<Rightarrow>
             Some (if live then r\<lparr>rn_phase := Calling 1 (rc_initial rcfg) (rn_now r) None\<rparr> else closed)
         | Failed a base \<Rightarrow>
             Some (if live
                   then r\<lparr>rn_phase := Sleeping a base
                          (time_add (rn_now r) (backoffWait conv draw base (rc_jitter rcfg)))\<rparr>
                   else closed)
         | Woken a base \<Rightarrow>
             Some (if live
                   then r\<lparr>rn_phase := Calling (a + 1) (nextBackoff base (rc_max rcfg)) (rn_now r) None\<rparr>
                   else closed)
         | _ \<Rightarrow> None)"

definition lease_window :: "'s renewal \<Rightarrow> (instant \<times> bool)" where
  "lease_window r = (if rn_cause r \<noteq> None then (zero_time, False) else (rn_published r, True))"

fun renew_run ::
  "'s backend \<Rightarrow> client_config \<Rightarrow> renewal_config \<Rightarrow> token \<Rightarrow> raction list \<Rightarrow> 's renewal \<Rightarrow> 's renewal option" where
  "renew_run b cfg rcfg tok [] r = Some r"
| "renew_run b cfg rcfg tok (act # acts) r =
     (case renew_step b cfg rcfg tok act r of None \<Rightarrow> None | Some r' \<Rightarrow> renew_run b cfg rcfg tok acts r')"

section \<open>Invariants\<close>

lemma renew_run_invariant:
  assumes "\<And>act r r'. P r \<Longrightarrow> renew_step b cfg rcfg tok act r = Some r' \<Longrightarrow> P r'"
  shows "P r \<Longrightarrow> renew_run b cfg rcfg tok acts r = Some r' \<Longrightarrow> P r'"
  by (induction acts arbitrary: r) (auto split: option.splits intro: assms)

lemma renew_run_append:
  "renew_run b cfg rcfg tok (xs @ ys) r =
     (case renew_run b cfg rcfg tok xs r of None \<Rightarrow> None | Some r' \<Rightarrow> renew_run b cfg rcfg tok ys r')"
  by (induction xs arbitrary: r) (auto split: option.splits)

lemma cancel_cause_sel [simp]:
  "rn_store (cancel_cause e r) = rn_store r" "rn_now (cancel_cause e r) = rn_now r"
  "rn_stop (cancel_cause e r) = rn_stop r" "rn_parent (cancel_cause e r) = rn_parent r"
  "rn_phase (cancel_cause e r) = rn_phase r" "rn_tick (cancel_cause e r) = rn_tick r"
  "rn_window (cancel_cause e r) = rn_window r" "rn_published (cancel_cause e r) = rn_published r"
  "rn_log (cancel_cause e r) = rn_log r" "rn_late (cancel_cause e r) = rn_late r"
  "rn_cause (cancel_cause e r) = (case rn_cause r of None \<Rightarrow> Some e | Some c \<Rightarrow> Some c)"
  by (auto simp: cancel_cause_def split: option.split)

lemmas renew_helpers = exit_phase_def report_def abandon_def received_def Let_def

text \<open>The enabled steps, one case per action and place of the goroutine.\<close>

lemma renew_stepE:
  assumes "renew_step b cfg rcfg tok act r = Some r'"
  obtains (pass) d where "act = Pass d" "0 \<le> d" "r' = r\<lparr>rn_now := time_add (rn_now r) d\<rparr>"
  | (others) cs where "act = Others cs" "r' = r\<lparr>rn_store := b_run b cs (rn_store r)\<rparr>"
  | (stop) "act = CallStop" "r' = r\<lparr>rn_stop := True\<rparr>"
  | (parent) e where "act = CancelParent e" "rn_parent r = None" "r' = cancel_cause e (r\<lparr>rn_parent := Some e\<rparr>)"
  | (serve) c clk a base start s' err where "act = Serve c clk" "rn_phase r = Calling a base start None"
      "b_renew b c clk (rn_store r) (toRecord tok) (cf_ttl cfg) = (s', err)"
      "r' = r\<lparr>rn_store := s', rn_phase := Calling a base start (Some (err, time_sub (rn_now r) start))\<rparr>"
  | (late) c clk where "act = Late c clk" "rn_late r \<noteq> 0"
      "r' = r\<lparr>rn_store := fst (b_renew b c clk (rn_store r) (toRecord tok) (cf_ttl cfg)), rn_late := rn_late r - 1\<rparr>"
  | (see_exit) "rn_phase r = Waiting \<or> (\<exists>a base until. rn_phase r = Sleeping a base until)"
      "act = SeeStop \<and> rn_stop r \<or> act = SeeParent \<and> rn_parent r \<noteq> None" "r' = exit_phase r"
  | (see_abandon) a base start res e where "rn_phase r = Calling a base start res"
      "act = SeeStop \<and> rn_stop r \<or> act = SeeParent \<and> rn_parent r \<noteq> None"
      "r' = abandon tok a start (res = None) e r"
  | (window_exit) "act = SeeWindow" "rn_phase r = Waiting \<or> (\<exists>a base until. rn_phase r = Sleeping a base until)"
      "rn_window r \<le> rn_now r" "r' = exit_phase (cancel_cause ErrLeaseWindowExhausted r)"
  | (window_abandon) a base start res where "act = SeeWindow" "rn_phase r = Calling a base start res"
      "rn_window r \<le> rn_now r"
      "r' = cancel_cause ErrLeaseWindowExhausted (abandon tok a start (res = None) CtxDeadlineExceeded r)"
  | (tick) "act = SeeTick" "rn_phase r = Waiting" "rn_tick r \<le> rn_now r"
      "r' = r\<lparr>rn_phase := Ticked, rn_tick := time_add (rn_tick r) (rc_interval rcfg)\<rparr>"
  | (backoff) a base until where "act = SeeBackoff" "rn_phase r = Sleeping a base until" "until \<le> rn_now r"
      "r' = r\<lparr>rn_phase := Woken a base\<rparr>"
  | (receive) a base start err d where "act = Receive" "rn_phase r = Calling a base start (Some (err, d))"
      "r' = received cfg tok a base start err d r"
  | (check_closed) conv draw where "act = CheckWindow conv draw" "rn_window r \<le> rn_now r"
      "rn_phase r = Ticked \<or> (\<exists>a base. rn_phase r = Failed a base \<or> rn_phase r = Woken a base)"
      "r' = exit_phase (cancel_cause ErrLeaseWindowExhausted r)"
  | (check_ticked) conv draw where "act = CheckWindow conv draw" "rn_now r < rn_window r" "rn_phase r = Ticked"
      "r' = r\<lparr>rn_phase := Calling 1 (rc_initial rcfg) (rn_now r) None\<rparr>"
  | (check_failed) conv draw a base where "act = CheckWindow conv draw" "rn_now r < rn_window r"
      "rn_phase r = Failed a base"
      "r' = r\<lparr>rn_phase := Sleeping a base (time_add (rn_now r) (backoffWait conv draw base (rc_jitter rcfg)))\<rparr>"
  | (check_woken) conv draw a base where "act = CheckWindow conv draw" "rn_now r < rn_window r"
      "rn_phase r = Woken a base"
      "r' = r\<lparr>rn_phase := Calling (a + 1) (nextBackoff base (rc_max rcfg)) (rn_now r) None\<rparr>"
proof (cases act)
  case SeeStop
  with assms show ?thesis by (cases "rn_phase r") (auto split: if_splits intro: see_exit see_abandon)
next
  case SeeParent
  with assms show ?thesis by (cases "rn_phase r") (auto split: option.splits intro: see_exit see_abandon)
next
  case SeeWindow
  with assms show ?thesis
    by (cases "rn_phase r") (auto simp: not_less split: if_splits intro: window_exit window_abandon)
next
  case (CheckWindow conv draw)
  with assms show ?thesis
    by (cases "rn_phase r")
       (auto simp: Let_def not_less split: if_splits
         intro: check_closed check_ticked check_failed check_woken)
next
  case (Serve c clk)
  with assms show ?thesis
    by (cases "rn_phase r") (auto simp: Let_def split: option.splits prod.splits intro: serve)
next
  case (Late c clk)
  with assms show ?thesis by (auto split: if_splits intro: late)
next
  case Receive
  with assms show ?thesis
    by (cases "rn_phase r") (auto split: option.splits prod.splits intro: receive)
next
  case SeeTick
  with assms show ?thesis by (cases "rn_phase r") (auto simp: not_less split: if_splits intro: tick)
next
  case SeeBackoff
  with assms show ?thesis by (cases "rn_phase r") (auto simp: not_less split: if_splits intro: backoff)
next
  case (Pass d)
  with assms show ?thesis by (intro pass [of d]) (auto split: if_splits)
next
  case (Others cs)
  with assms show ?thesis by (intro others [of cs]) auto
next
  case CallStop
  with assms show ?thesis by (intro stop) auto
next
  case (CancelParent e)
  with assms show ?thesis by (intro parent [of e]) (auto split: if_splits)
qed

text \<open>
  The numbering of attempts in the log: the number the next attempt must have, and \<open>None\<close> once a
  report is out of order. Attempts count up from 1 and start again after a success, so a log in
  order reports every attempt exactly once.
\<close>

fun number_event :: "event \<Rightarrow> nat option \<Rightarrow> nat option" where
  "number_event (OnRenew t d a err) (Some n) =
     (if a = n then Some (if err = None then 1 else Suc a) else None)"
| "number_event (OnFenced t q) (Some n) = Some n"
| "number_event ev acc = None"

definition numbering :: "event list \<Rightarrow> nat option" where
  "numbering log = fold number_event log (Some 1)"

lemma numbering_simps [simp]:
  "numbering [] = Some 1"
  "numbering (log @ [ev]) = number_event ev (numbering log)"
  "numbering (log @ [ev, ev']) = number_event ev' (number_event ev (numbering log))"
  by (simp_all add: numbering_def)

fun phase_number :: "phase \<Rightarrow> nat option" where
  "phase_number Waiting = Some 1"
| "phase_number Ticked = Some 1"
| "phase_number (Calling a base start res) = Some a"
| "phase_number (Failed a base) = Some (Suc a)"
| "phase_number (Sleeping a base until) = Some (Suc a)"
| "phase_number (Woken a base) = Some (Suc a)"
| "phase_number Exited = None"

definition log_inv :: "'s renewal \<Rightarrow> bool" where
  "log_inv r \<longleftrightarrow> numbering (rn_log r) \<noteq> None \<and>
     (rn_phase r \<noteq> Exited \<longrightarrow> numbering (rn_log r) = phase_number (rn_phase r))"

lemma log_inv_step:
  assumes "log_inv r" and "renew_step b cfg rcfg tok act r = Some r'"
  shows "log_inv r'"
  using assms(2,1)
  by (cases rule: renew_stepE) (auto simp: log_inv_def renew_helpers)

text \<open>How the goroutine ends, while its parent context is live.\<close>

definition join_expired :: gerror where
  "join_expired = Wraps ''join'' [ErrLeaseWindowExhausted, ErrLeaseExpired]"

definition ended :: "token \<Rightarrow> 's renewal \<Rightarrow> bool" where
  "ended tok r \<longleftrightarrow>
     (case rn_cause r of
        None \<Rightarrow> rn_stop r \<and> list_all (\<lambda>ev. \<not> is_fenced_event ev) (rn_log r)
      | Some c \<Rightarrow>
          c = ErrFenced \<and> (\<exists>log d a err. rn_log r = log @ [OnRenew tok d a err, OnFenced tok OperationRenew] \<and>
              err_matches err ErrFenced \<and> list_all (\<lambda>ev. \<not> is_fenced_event ev) log) \<or>
          list_all (\<lambda>ev. \<not> is_fenced_event ev) (rn_log r) \<and>
          (c = ErrLeaseWindowExhausted \<and> rn_window r \<le> rn_now r \<or>
           c = join_expired \<and> (\<exists>log d a err. rn_log r = log @ [OnRenew tok d a err] \<and>
              err_matches err ErrLeaseExpired)))"

definition cause_inv :: "token \<Rightarrow> 's renewal \<Rightarrow> bool" where
  "cause_inv tok r \<longleftrightarrow> rn_parent r = None \<longrightarrow>
     (if rn_phase r = Exited then ended tok r
      else rn_cause r = None \<and> list_all (\<lambda>ev. \<not> is_fenced_event ev) (rn_log r))"

lemma instant_le_add: "(t :: instant) \<le> u \<Longrightarrow> 0 \<le> d \<Longrightarrow> t \<le> time_add u d"
  by (simp add: less_eq_instant_def)

lemma cause_inv_step:
  assumes "cause_inv tok r" and "renew_step b cfg rcfg tok act r = Some r'"
  shows "cause_inv tok r'"
  using assms(2,1)
  by (cases rule: renew_stepE)
     (auto simp: cause_inv_def ended_def renew_helpers join_expired_def
       intro: instant_le_add split: if_splits option.splits)

text \<open>
  The window: \<open>LeaseWindow\<close> reads the goroutine's own, it never moves back, and it never lies more
  than the time to live ahead. A call is launched only inside it.
\<close>

definition window_inv :: "client_config \<Rightarrow> token \<Rightarrow> 's renewal \<Rightarrow> bool" where
  "window_inv cfg tok r \<longleftrightarrow>
     rn_published r = rn_window r \<and> tk_deadline tok \<le> rn_window r \<and>
     ns (rn_window r) \<le> ns (rn_now r) + cf_ttl cfg \<and>
     (\<forall>a base start res. rn_phase r = Calling a base start res \<longrightarrow>
        start \<le> rn_now r \<and> start < rn_window r \<and> ns (rn_window r) \<le> ns start + cf_ttl cfg)"

lemma window_inv_step:
  assumes "window_inv cfg tok r" and "renew_step b cfg rcfg tok act r = Some r'"
  shows "window_inv cfg tok r'"
  using assms(2,1)
  by (cases rule: renew_stepE)
     (auto simp: window_inv_def renew_helpers time_simps split: if_splits)

text \<open>The backoff base stays between the initial interval and the maximum.\<close>

definition base_inv :: "renewal_config \<Rightarrow> 's renewal \<Rightarrow> bool" where
  "base_inv rcfg r \<longleftrightarrow>
     (case rn_phase r of
        Calling a base start res \<Rightarrow> rc_initial rcfg \<le> base \<and> base \<le> rc_max rcfg
      | Failed a base \<Rightarrow> rc_initial rcfg \<le> base \<and> base \<le> rc_max rcfg
      | Sleeping a base until \<Rightarrow> rc_initial rcfg \<le> base \<and> base \<le> rc_max rcfg
      | Woken a base \<Rightarrow> rc_initial rcfg \<le> base \<and> base \<le> rc_max rcfg
      | _ \<Rightarrow> True)"

lemma nextBackoff_range:
  assumes "0 < base" and "base \<le> maxI" and "maxI < 2 ^ 62"
  shows "nextBackoff base maxI = min (2 * base) maxI"
    and "base \<le> nextBackoff base maxI" and "nextBackoff base maxI \<le> maxI"
proof -
  have "wrap64 (base * 2) = base * 2"
    using assms by (intro wrap64_id) (simp add: is_int64_def)
  then show "nextBackoff base maxI = min (2 * base) maxI"
    by (simp add: nextBackoff_def Let_def min_def)
  then show "base \<le> nextBackoff base maxI" and "nextBackoff base maxI \<le> maxI"
    using assms by simp_all
qed

lemma base_inv_step:
  assumes "0 < rc_initial rcfg" and "rc_initial rcfg \<le> rc_max rcfg" and "rc_max rcfg < 2 ^ 62"
    and "base_inv rcfg r" and "renew_step b cfg rcfg tok act r = Some r'"
  shows "base_inv rcfg r'"
  using assms(5,4)
proof (cases rule: renew_stepE)
  case (check_woken conv draw a base)
  then show ?thesis
    using assms(1-4) nextBackoff_range(2,3) [of base "rc_max rcfg"] by (auto simp: base_inv_def)
qed (use assms(1,2) in \<open>auto simp: base_inv_def renew_helpers split: phase.splits if_splits option.splits\<close>)

section \<open>The stored lease behind the window\<close>

text \<open>
  A fair run, for a backend whose clock is a constant \<open>\<delta>\<close> ahead of the local one: each call reads
  the backend's clock at the local time it is served, other clients' calls are made without this
  token, the holder may itself checkpoint or renew, and tokens do not run out.
\<close>

definition served_at :: "int \<Rightarrow> instant \<Rightarrow> clock \<Rightarrow> bool" where
  "served_at \<delta> now clk \<longleftrightarrow> mono clk \<and> ns (clk 0) = ns now + \<delta>"

definition holder_or_foreign :: "client_config \<Rightarrow> token \<Rightarrow> bcall \<Rightarrow> bool" where
  "holder_or_foreign cfg tok call \<longleftrightarrow> foreign (toRecord tok) call \<or>
     (\<exists>st. call = DoCheckpoint (toRecord tok) st (cf_ttl cfg)) \<or> call = DoRenew (toRecord tok) (cf_ttl cfg)"

fun fair_action :: "('s \<Rightarrow> nat) \<Rightarrow> client_config \<Rightarrow> token \<Rightarrow> int \<Rightarrow> raction \<Rightarrow> 's renewal \<Rightarrow> bool" where
  "fair_action iss cfg tok \<delta> (Others cs) r \<longleftrightarrow>
     iss (rn_store r) + 2 * length cs < token_limit \<and>
     list_all (\<lambda>(c, clk, call). call_ok call \<and> served_at \<delta> (rn_now r) clk \<and> holder_or_foreign cfg tok call) cs"
| "fair_action iss cfg tok \<delta> (Serve c clk) r \<longleftrightarrow> iss (rn_store r) < token_limit \<and> served_at \<delta> (rn_now r) clk"
| "fair_action iss cfg tok \<delta> (Late c clk) r \<longleftrightarrow> iss (rn_store r) < token_limit \<and> served_at \<delta> (rn_now r) clk"
| "fair_action iss cfg tok \<delta> act r \<longleftrightarrow> True"

fun fair_run ::
  "'s backend \<Rightarrow> ('s \<Rightarrow> nat) \<Rightarrow> client_config \<Rightarrow> renewal_config \<Rightarrow> token \<Rightarrow> int \<Rightarrow> raction list \<Rightarrow> 's renewal \<Rightarrow> bool" where
  "fair_run b iss cfg rcfg tok \<delta> [] r \<longleftrightarrow> True"
| "fair_run b iss cfg rcfg tok \<delta> (act # acts) r \<longleftrightarrow> fair_action iss cfg tok \<delta> act r \<and>
     (case renew_step b cfg rcfg tok act r of None \<Rightarrow> True
      | Some r' \<Rightarrow> fair_run b iss cfg rcfg tok \<delta> acts r')"

context lease_backend
begin

text \<open>The store holds the token's row at least until the local time \<open>x\<close>, or \<open>x\<close> has passed.\<close>

definition covers :: "int \<Rightarrow> token \<Rightarrow> instant \<Rightarrow> 's \<Rightarrow> instant \<Rightarrow> bool" where
  "covers \<delta> tok now s x \<longleftrightarrow>
     (\<exists>row. view s (tk_work tok) = Some row \<and> held_by row (toRecord tok) \<and> ns x + \<delta> \<le> ns (row_expires row)) \<or>
     x < now"

lemma covers_call:
  assumes "inv s" and "issued s < token_limit" and "call_ok call" and "served_at \<delta> now clk"
    and "holder_or_foreign cfg tok call" and "ns x \<le> ns now + cf_ttl cfg" and "covers \<delta> tok now s x"
  shows "covers \<delta> tok now (b_call b c clk call s) x"
proof (cases "x < now")
  case False
  then obtain row where row: "view s (tk_work tok) = Some row" "held_by row (toRecord tok)"
    "ns x + \<delta> \<le> ns (row_expires row)"
    using assms(7) by (auto simp: covers_def)
  let ?s = "b_call b c clk call s"
  have step: "row_step clk call (tk_work tok) (issued s) (Some row) (view ?s (tk_work tok))"
    using call_step(4) [OF assms(1-3), where c = c and clk = clk and w = "tk_work tok"] row(1) by simp
  have clk: "clk 0 \<le> row_expires row" "mono clk" "ns (clk 0) = ns now + \<delta>"
    using False row(3) assms(4) by (auto simp: served_at_def time_simps)
  from assms(5) consider "foreign (toRecord tok) call"
    | st where "call = DoCheckpoint (toRecord tok) st (cf_ttl cfg)"
    | "call = DoRenew (toRecord tok) (cf_ttl cfg)"
    by (auto simp: holder_or_foreign_def)
  then show ?thesis
  proof cases
    case 1
    then have "view ?s (tk_work tok) = Some row" by (rule foreign_step [OF step row(2) _ clk(1)])
    then show ?thesis using row by (auto simp: covers_def)
  next
    case 2
    then show ?thesis
      using step clk row assms(6) by (auto simp: row_step_checkpoint covers_def during_def held_by_def)
  next
    case 3
    then show ?thesis
      using step clk row assms(6) by (auto simp: row_step_renew covers_def during_def held_by_def)
  qed
qed (simp add: covers_def)

lemma covers_run:
  assumes "inv s" and "issued s + 2 * length cs < token_limit"
    and "list_all (\<lambda>(c, clk, call). call_ok call \<and> served_at \<delta> now clk \<and> holder_or_foreign cfg tok call) cs"
  shows "inv (b_run b cs s) \<and> (\<forall>x. ns x \<le> ns now + cf_ttl cfg \<longrightarrow> covers \<delta> tok now s x \<longrightarrow>
    covers \<delta> tok now (b_run b cs s) x)"
  using assms
proof (induction cs arbitrary: s)
  case (Cons e cs)
  obtain c clk call where e: "e = (c, clk, call)" by (cases e)
  let ?s = "b_call b c clk call s"
  have pre: "issued s < token_limit" "call_ok call" "served_at \<delta> now clk" "holder_or_foreign cfg tok call"
    using Cons.prems e by auto
  have rest: "inv ?s" "issued ?s + 2 * length cs < token_limit"
    "list_all (\<lambda>(c, clk, call). call_ok call \<and> served_at \<delta> now clk \<and> holder_or_foreign cfg tok call) cs"
    using call_step(1,3) [OF Cons.prems(1) pre(1,2), of c clk] Cons.prems e by auto
  show ?case
    using Cons.IH [OF rest] covers_call [OF Cons.prems(1) pre, of _ c] e by auto
qed simp

end

context lease_backend
begin

definition held_inv :: "int \<Rightarrow> client_config \<Rightarrow> token \<Rightarrow> 's renewal \<Rightarrow> bool" where
  "held_inv \<delta> cfg tok r \<longleftrightarrow> inv (rn_store r) \<and>
     covers \<delta> tok (rn_now r) (rn_store r) (rn_window r) \<and>
     (\<forall>a base start d. rn_phase r = Calling a base start (Some (None, d)) \<longrightarrow>
        covers \<delta> tok (rn_now r) (rn_store r) (time_add start (cf_ttl cfg)))"

lemma covers_later: "covers \<delta> tok now s x \<Longrightarrow> now \<le> now' \<Longrightarrow> covers \<delta> tok now' s x"
  by (auto simp: covers_def)

text \<open>A \<open>Renew\<close> call made with the token: it keeps what is covered, and its success covers more.\<close>

lemma renew_call:
  fixes cfg :: client_config
  assumes "inv s" and "issued s < token_limit" and "served_at \<delta> now clk"
    and "b_renew b c clk s (toRecord tok) (cf_ttl cfg) = (s', err)"
  shows "inv s'"
    and "ns x \<le> ns now + cf_ttl cfg \<Longrightarrow> covers \<delta> tok now s x \<Longrightarrow> covers \<delta> tok now s' x"
    and "err = None \<Longrightarrow> ns x \<le> ns now + cf_ttl cfg \<Longrightarrow> covers \<delta> tok now s' x"
proof -
  let ?call = "DoRenew (toRecord tok) (cf_ttl cfg)"
  have s': "b_call b c clk ?call s = s'" using assms(4) by simp
  show "inv s'" using call_step(1) [OF assms(1,2), of ?call c clk] s' by simp
  show "ns x \<le> ns now + cf_ttl cfg \<Longrightarrow> covers \<delta> tok now s x \<Longrightarrow> covers \<delta> tok now s' x"
    using covers_call [OF assms(1,2), of ?call \<delta> now clk cfg tok x c] assms(3) s'
    by (simp add: holder_or_foreign_def)
  assume ok: "err = None" and x: "ns x \<le> ns now + cf_ttl cfg"
  have "c = None"
  proof (cases c)
    case (Some e)
    obtain e' where "b_renew b (Some e) clk s (toRecord tok) (cf_ttl cfg) = (s, Some e')"
      using renew_ctx by blast
    then show ?thesis using assms(4) ok Some by simp
  qed simp
  then show "covers \<delta> tok now s' x"
    using renew_total [OF assms(1), of clk "toRecord tok" "cf_ttl cfg"] assms(3,4) ok x
    by (auto simp: covers_def served_at_def during_def held_by_def)
qed

lemma held_inv_step:
  assumes "held_inv \<delta> cfg tok r" and "window_inv cfg tok r"
    and "fair_action issued cfg tok \<delta> act r" and "renew_step b cfg rcfg tok act r = Some r'"
  shows "held_inv \<delta> cfg tok r'"
proof -
  have inv: "inv (rn_store r)" and cov: "covers \<delta> tok (rn_now r) (rn_store r) (rn_window r)"
    using assms(1) by (auto simp: held_inv_def)
  have win: "ns (rn_window r) \<le> ns (rn_now r) + cf_ttl cfg" using assms(2) by (simp add: window_inv_def)
  have pend: "covers \<delta> tok (rn_now r) (rn_store r) (time_add start (cf_ttl cfg)) \<and>
      ns (time_add start (cf_ttl cfg)) \<le> ns (rn_now r) + cf_ttl cfg"
    if "rn_phase r = Calling a base start (Some (None, d))" for a base start d
    using assms(1,2) that by (auto simp: held_inv_def window_inv_def less_eq_instant_def)
  show ?thesis
    using assms(4)
  proof (cases rule: renew_stepE)
    case (pass d)
    then have "rn_now r \<le> rn_now r'" by (simp add: less_eq_instant_def)
    then show ?thesis using inv cov pend pass(3) covers_later by (fastforce simp: held_inv_def)
  next
    case (others cs)
    then show ?thesis
      using covers_run [OF inv, of cs \<delta> "rn_now r" cfg tok] assms(3) cov win pend
      by (auto simp: held_inv_def)
  next
    case (serve c clk a base start s' err)
    have pre: "issued (rn_store r) < token_limit" "served_at \<delta> (rn_now r) clk"
      using assms(3) serve(1) by auto
    have "start \<le> rn_now r" using assms(2) serve(2) by (simp add: window_inv_def)
    then have "ns (time_add start (cf_ttl cfg)) \<le> ns (rn_now r) + cf_ttl cfg"
      by (simp add: less_eq_instant_def)
    then show ?thesis
      using renew_call [OF inv pre serve(3)] serve(4) win cov by (auto simp: held_inv_def)
  next
    case (late c clk)
    obtain s' err where ren: "b_renew b c clk (rn_store r) (toRecord tok) (cf_ttl cfg) = (s', err)"
      by (cases "b_renew b c clk (rn_store r) (toRecord tok) (cf_ttl cfg)")
    have pre: "issued (rn_store r) < token_limit" "served_at \<delta> (rn_now r) clk"
      using assms(3) late(1) by auto
    show ?thesis
      using renew_call(1,2) [OF inv pre ren] late(3) win cov pend ren by (auto simp: held_inv_def)
  qed (use inv cov pend in \<open>auto simp: held_inv_def renew_helpers\<close>)
qed

lemma held_inv_run:
  "held_inv \<delta> cfg tok r \<Longrightarrow> window_inv cfg tok r \<Longrightarrow> fair_run b issued cfg rcfg tok \<delta> acts r \<Longrightarrow>
   renew_run b cfg rcfg tok acts r = Some r' \<Longrightarrow> held_inv \<delta> cfg tok r' \<and> window_inv cfg tok r'"
proof (induction acts arbitrary: r)
  case (Cons act acts)
  then obtain r1 where r1: "renew_step b cfg rcfg tok act r = Some r1" "renew_run b cfg rcfg tok acts r1 = Some r'"
    by (auto split: option.splits)
  have "held_inv \<delta> cfg tok r1" using held_inv_step [OF Cons.prems(1,2) _ r1(1)] Cons.prems(3) by simp
  moreover have "window_inv cfg tok r1" by (rule window_inv_step [OF Cons.prems(2) r1(1)])
  ultimately show ?case using Cons.IH r1 Cons.prems(3) by simp
qed simp

text \<open>While \<open>LeaseWindow\<close> reports a deadline that has not passed, the store holds the lease to it.\<close>

lemma window_covered:
  assumes "inv s" and "view s (tk_work tok) = Some row" and "held_by row (toRecord tok)"
    and "ns (tk_deadline tok) + \<delta> \<le> ns (row_expires row)"
    and "ns (tk_deadline tok) \<le> ns now + cf_ttl cfg"
    and "fair_run b issued cfg rcfg tok \<delta> acts (start_renewal cfg rcfg tok parent now s)"
    and "renew_run b cfg rcfg tok acts (start_renewal cfg rcfg tok parent now s) = Some r"
    and "lease_window r = (d, True)" and "rn_now r \<le> d"
  shows "inv (rn_store r) \<and> (\<exists>row. view (rn_store r) (tk_work tok) = Some row \<and>
    held_by row (toRecord tok) \<and> ns d + \<delta> \<le> ns (row_expires row))"
proof -
  let ?r = "start_renewal cfg rcfg tok parent now s"
  have "held_inv \<delta> cfg tok ?r" and "window_inv cfg tok ?r"
    using assms(1-5) by (auto simp: held_inv_def window_inv_def start_renewal_def initialWindow_def covers_def)
  from held_inv_run [OF this assms(6,7)]
  have "inv (rn_store r)" and "covers \<delta> tok (rn_now r) (rn_store r) (rn_window r)" and "rn_published r = rn_window r"
    by (auto simp: held_inv_def window_inv_def)
  then show ?thesis using assms(8,9) by (auto simp: lease_window_def covers_def split: if_splits)
qed

end

section \<open>Properties\<close>

text \<open>The runs of the witnesses: one tick, one call, from a lease acquired at time 5.\<close>

definition ex_renewal :: "row \<Rightarrow> memory_backend renewal" where
  "ex_renewal row = start_renewal (ex_cfg ''a'') (renewal_defaults (ex_cfg ''a'')) (ex_token ''a'' 1 1000005)
     None (At 10) (ex_mem row)"

definition ex_tick :: "raction list" where
  "ex_tick = [Pass 600000, SeeTick, CheckWindow 0 0, Serve None (ex_clock 600010), Receive]"

lemmas ex_renewal_simps =
  ex_renewal_def ex_tick_def start_renewal_def renewal_defaults_def defaultRenewalInterval_def
  initialWindow_def ex_client_simps mem_renew_def renew_helpers defaultBackoffInitial_def

lemma ex_renewed:
  "renew_run memory (ex_cfg ''a'') (renewal_defaults (ex_cfg ''a'')) (ex_token ''a'' 1 1000005) ex_tick
     (ex_renewal (ex_row ''a'' 1 1000005)) =
   Some ((ex_renewal ((ex_row ''a'' 1 1000005)\<lparr>row_expires := At 1600011, row_updated := At 600012\<rparr>))
     \<lparr>rn_now := At 600010, rn_tick := At 1000010, rn_window := At 1600010, rn_published := At 1600010,
      rn_log := [OnRenew (ex_token ''a'' 1 1000005) 0 1 None]\<rparr>)"
  by (simp add: ex_renewal_simps)

lemma ex_fenced:
  "renew_run memory (ex_cfg ''a'') (renewal_defaults (ex_cfg ''a'')) (ex_token ''a'' 1 1000005) ex_tick
     (ex_renewal (ex_row ''b'' 2 1000005)) =
   Some ((ex_renewal (ex_row ''b'' 2 1000005))
     \<lparr>rn_now := At 600010, rn_tick := At 1000010, rn_phase := Exited, rn_cause := Some ErrFenced,
      rn_log := [OnRenew (ex_token ''a'' 1 1000005) 0 1 (Some ErrFenced),
                 OnFenced (ex_token ''a'' 1 1000005) OperationRenew]\<rparr>)"
  by (simp add: ex_renewal_simps cancel_cause_def)

text \<open>
  C14. How renewal ends. For any backend and any interleaving, while the parent context is live:
  the renewal context has no cause as long as the goroutine runs; when it has exited, either
  \<open>stopRenewal\<close> was called and there is no cause, or the cause is \<open>ErrFenced\<close> and the last two
  reports are the fenced attempt and the fencing, or the cause is \<open>ErrLeaseWindowExhausted\<close> and
  the window has passed, or the cause matches both it and \<open>ErrLeaseExpired\<close> and the last attempt
  found the lease lapsed. Fencing is reported in the second case only.
\<close>

theorem renewal_ends_with_cause:
  assumes "renew_run b cfg rcfg tok acts (start_renewal cfg rcfg tok None now s) = Some r"
    and "rn_parent r = None"
  shows "if rn_phase r = Exited then ended tok r
    else rn_cause r = None \<and> list_all (\<lambda>ev. \<not> is_fenced_event ev) (rn_log r)"
proof -
  have init: "cause_inv tok (start_renewal cfg rcfg tok None now s)"
    by (simp add: cause_inv_def start_renewal_def)
  have "cause_inv tok r"
    by (rule renew_run_invariant [where P = "cause_inv tok", OF _ init assms(1)]) (rule cause_inv_step)
  then show ?thesis using assms(2) by (simp add: cause_inv_def)
qed

theorem renewal_ends_with_cause_witness:
  "ended (ex_token ''a'' 1 1000005) ((ex_renewal (ex_row ''b'' 2 1000005))
     \<lparr>rn_now := At 600010, rn_tick := At 1000010, rn_phase := Exited, rn_cause := Some ErrFenced,
      rn_log := [OnRenew (ex_token ''a'' 1 1000005) 0 1 (Some ErrFenced),
                 OnFenced (ex_token ''a'' 1 1000005) OperationRenew]\<rparr>)"
  using renewal_ends_with_cause [OF ex_fenced [unfolded ex_renewal_def]]
  by (simp add: ex_renewal_def start_renewal_def)

text \<open>
  Every attempt is reported exactly once. In any interleaving the reports are numbered from 1
  upwards, restarting at 1 after a success, and the attempt in progress has the next number; an
  abandoned call is reported and its late result is not.
\<close>

theorem renewal_attempts_reported_once:
  assumes "renew_run b cfg rcfg tok acts (start_renewal cfg rcfg tok parent now s) = Some r"
  shows "numbering (rn_log r) \<noteq> None \<and>
    (rn_phase r \<noteq> Exited \<longrightarrow> numbering (rn_log r) = phase_number (rn_phase r))"
proof -
  have init: "log_inv (start_renewal cfg rcfg tok parent now s)"
    by (simp add: log_inv_def start_renewal_def)
  have "log_inv r"
    by (rule renew_run_invariant [where P = log_inv, OF _ init assms]) (rule log_inv_step)
  then show ?thesis by (simp add: log_inv_def)
qed

theorem renewal_attempts_reported_once_witness:
  "numbering [OnRenew (ex_token ''a'' 1 1000005) 0 1 None] = phase_number Waiting"
  using renewal_attempts_reported_once [OF ex_renewed [unfolded ex_renewal_def]]
  by (simp add: start_renewal_def)

text \<open>
  The window moves forward only. In any interleaving the window \<open>LeaseWindow\<close> reports is the
  goroutine's own, never earlier than the token's deadline and never more than the time to live
  ahead of the local clock, and a \<open>Renew\<close> call is only ever launched before the window closes.
\<close>

theorem renewal_window_monotone:
  assumes "renew_run b cfg rcfg tok acts (start_renewal cfg rcfg tok parent now s) = Some r"
    and "renew_run b cfg rcfg tok acts' r = Some r'"
    and "ns (tk_deadline tok) \<le> ns now + cf_ttl cfg"
  shows "rn_published r = rn_window r \<and> tk_deadline tok \<le> rn_window r \<and>
    ns (rn_window r) \<le> ns (rn_now r) + cf_ttl cfg \<and> rn_window r \<le> rn_window r' \<and>
    (\<forall>a base start res. rn_phase r = Calling a base start res \<longrightarrow> start < rn_window r)"
proof -
  have init: "window_inv cfg tok (start_renewal cfg rcfg tok parent now s)"
    using assms(3) by (simp add: window_inv_def start_renewal_def initialWindow_def)
  have w: "window_inv cfg tok r"
    by (rule renew_run_invariant [where P = "window_inv cfg tok", OF _ init assms(1)]) (rule window_inv_step)
  let ?P = "\<lambda>x. window_inv cfg tok x \<and> rn_window r \<le> rn_window x"
  have "?P x'" if "?P x" and step: "renew_step b cfg rcfg tok act x = Some x'" for act x x'
  proof -
    have "rn_window x \<le> rn_window x'"
      using step that(1) by (cases rule: renew_stepE) (auto simp: window_inv_def renew_helpers time_simps)
    then show ?thesis using that(1) window_inv_step [OF _ step] by auto
  qed
  then have "?P r'"
    by (rule renew_run_invariant [where P = ?P, OF _ _ assms(2)]) (use w in simp_all)
  then show ?thesis using w by (simp add: window_inv_def)
qed

theorem renewal_window_monotone_witness:
  "At 1000005 \<le> At 1600010 \<and> ns (At 1600010) \<le> 600010 + millisecond"
  using renewal_window_monotone [OF ex_renewed [unfolded ex_renewal_def], of "[]"]
  by (simp add: start_renewal_def ex_token_def ex_cfg_def)

text \<open>
  \<open>stopRenewal\<close> returns. From any state of a running goroutine in which the stop was requested,
  with a call in flight or not, the goroutine exits within two steps of its own, whatever the
  clock reads: it waits neither for the call nor for a timer, touches no stored lease, and leaves
  no cause behind when the window is open.
\<close>

theorem stop_does_not_wait:
  assumes "rn_stop r"
  shows "\<exists>acts r'. length acts \<le> 2 \<and> set acts \<subseteq> {SeeStop, CheckWindow conv draw} \<and>
    renew_run b cfg rcfg tok acts r = Some r' \<and> rn_phase r' = Exited \<and> rn_store r' = rn_store r \<and>
    rn_now r' = rn_now r \<and> (rn_now r < rn_window r \<longrightarrow> rn_cause r' = rn_cause r)"
proof (cases "rn_phase r")
  case Exited
  then show ?thesis by (intro exI [of _ "[]"]) simp
next
  case Waiting
  then show ?thesis using assms by (intro exI [of _ "[SeeStop]"]) (simp add: renew_helpers)
next
  case (Calling a base start res)
  then show ?thesis using assms by (intro exI [of _ "[SeeStop]"]) (simp add: renew_helpers)
next
  case (Sleeping a base until)
  then show ?thesis using assms by (intro exI [of _ "[SeeStop]"]) (simp add: renew_helpers)
next
  case Ticked
  then show ?thesis
    using assms
    by (cases "rn_now r < rn_window r")
       (intro exI [of _ "[CheckWindow conv draw, SeeStop]"] exI [of _ "[CheckWindow conv draw]"],
        simp add: renew_helpers)+
next
  case (Failed a base)
  then show ?thesis
    using assms
    by (cases "rn_now r < rn_window r")
       (intro exI [of _ "[CheckWindow conv draw, SeeStop]"] exI [of _ "[CheckWindow conv draw]"],
        simp add: renew_helpers)+
next
  case (Woken a base)
  then show ?thesis
    using assms
    by (cases "rn_now r < rn_window r")
       (intro exI [of _ "[CheckWindow conv draw, SeeStop]"] exI [of _ "[CheckWindow conv draw]"],
        simp add: renew_helpers)+
qed

theorem stop_does_not_wait_witness:
  "\<exists>acts r'. length acts \<le> 2 \<and> renew_run memory (ex_cfg ''a'') (renewal_defaults (ex_cfg ''a''))
     (ex_token ''a'' 1 1000005) acts
     ((ex_renewal (ex_row ''a'' 1 1000005))\<lparr>rn_stop := True, rn_phase := Calling 3 millisecond (At 9) None\<rparr>) = Some r' \<and>
     rn_phase r' = Exited"
  using stop_does_not_wait [where b = memory and cfg = "ex_cfg ''a''" and conv = 0 and draw = 0 and
      rcfg = "renewal_defaults (ex_cfg ''a'')" and tok = "ex_token ''a'' 1 1000005" and
      r = "(ex_renewal (ex_row ''a'' 1 1000005))\<lparr>rn_stop := True, rn_phase := Calling 3 millisecond (At 9) None\<rparr>"]
  by (simp del: renew_run.simps) blast

text \<open>
  C30. A lost window is noticed. Once the local clock reaches the window, a running goroutine's next
  step can be to exit, wherever it is, even with a \<open>Renew\<close> call in flight; the renewal context is
  then done, with cause \<open>ErrLeaseWindowExhausted\<close> if it had none, \<open>LeaseWindow\<close> reports nothing,
  and a call in flight has been reported as \<open>context.DeadlineExceeded\<close>.
\<close>

theorem closed_window_ends_renewal:
  assumes "rn_phase r \<noteq> Exited" and "rn_window r \<le> rn_now r"
  shows "\<exists>act r'. act \<in> {SeeWindow, CheckWindow conv draw} \<and> renew_step b cfg rcfg tok act r = Some r' \<and>
    rn_phase r' = Exited \<and> snd (lease_window r') = False \<and>
    (rn_cause r = None \<longrightarrow> rn_cause r' = Some ErrLeaseWindowExhausted) \<and>
    (case rn_phase r of
       Calling a base start res \<Rightarrow>
         rn_log r' = rn_log r @ [OnRenew tok (time_sub (rn_now r) start) a (Some CtxDeadlineExceeded)]
     | _ \<Rightarrow> rn_log r' = rn_log r)"
proof (cases "\<exists>a base until start res. rn_phase r \<in> {Waiting, Calling a base start res, Sleeping a base until}")
  case True
  then show ?thesis
    using assms(2) by (intro exI [of _ SeeWindow]) (auto simp: renew_helpers lease_window_def split: option.split)
next
  case False
  then show ?thesis
    using assms
    by (intro exI [of _ "CheckWindow conv draw"], cases "rn_phase r")
       (auto simp: renew_helpers lease_window_def split: option.split)
qed

theorem closed_window_ends_renewal_witness:
  "\<exists>act r'. renew_step memory (ex_cfg ''a'') (renewal_defaults (ex_cfg ''a'')) (ex_token ''a'' 1 1000005) act
     ((ex_renewal (ex_row ''a'' 1 1000005))\<lparr>rn_now := At 1000005\<rparr>) = Some r' \<and>
     rn_cause r' = Some ErrLeaseWindowExhausted"
  using closed_window_ends_renewal [where b = memory and cfg = "ex_cfg ''a''" and conv = 0 and draw = 0 and
      rcfg = "renewal_defaults (ex_cfg ''a'')" and tok = "ex_token ''a'' 1 1000005" and
      r = "(ex_renewal (ex_row ''a'' 1 1000005))\<lparr>rn_now := At 1000005\<rparr>"]
  by (fastforce simp: ex_renewal_def start_renewal_def initialWindow_def ex_token_def simp del: renew_step.simps)

text \<open>
  C38. Backoff. With a maximum up to \<open>2 ^ 50\<close> ns (13 days) and a jitter fraction in \<open>[0, 1]\<close>, after
  any failed attempt of any run the goroutine sleeps for at least the current base and at most twice
  it, the base lies between the initial interval and the maximum, and the next base is twice it,
  capped: no addition, doubling or floating-point rounding overflows or undercuts.
\<close>

theorem backoff_bounded:
  assumes "0 < rc_initial rcfg" and "rc_initial rcfg \<le> rc_max rcfg" and "rc_max rcfg \<le> 2 ^ 50"
    and "rc_jitter rcfg = Finite j" and "0 \<le> j" and "j \<le> fl_unit" and "0 \<le> draw" and "draw < fl_unit"
    and "renew_run b cfg rcfg tok acts (start_renewal cfg rcfg tok parent now s) = Some r"
    and "rn_phase r = Failed a base" and "rn_now r < rn_window r"
  shows "rc_initial rcfg \<le> base \<and> base \<le> rc_max rcfg \<and>
    nextBackoff base (rc_max rcfg) = min (2 * base) (rc_max rcfg) \<and>
    (\<exists>until. renew_step b cfg rcfg tok (CheckWindow conv draw) r = Some (r\<lparr>rn_phase := Sleeping a base until\<rparr>) \<and>
       ns (rn_now r) + base \<le> ns until \<and> ns until \<le> ns (rn_now r) + 2 * base)"
proof -
  have init: "base_inv rcfg (start_renewal cfg rcfg tok parent now s)"
    by (simp add: base_inv_def start_renewal_def)
  have "base_inv rcfg r"
    by (rule renew_run_invariant [where P = "base_inv rcfg", OF _ init assms(9)])
       (rule base_inv_step [OF assms(1,2)], use assms(3) in simp_all)
  then have base: "rc_initial rcfg \<le> base" "base \<le> rc_max rcfg" using assms(10) by (simp_all add: base_inv_def)
  then have pos: "0 < base" "base \<le> 2 ^ 50" using assms(1,3) by simp_all
  let ?x = "fmul (fmul j (fl (base * fl_unit) 1)) draw div fl_unit"
  have x: "0 \<le> ?x" "?x \<le> base"
    using jitter_range [of base j draw] pos assms(5-8) by simp_all
  then have "wrap64 (base + ?x) = base + ?x" using pos by (intro wrap64_id) (simp add: is_int64_def)
  then have "base \<le> backoffWait conv draw base (Finite j)" "backoffWait conv draw base (Finite j) \<le> 2 * base"
    using x pos by (auto simp: backoffWait_def)
  then show ?thesis
    using assms(3,4,10,11) base pos nextBackoff_range(1) [of base "rc_max rcfg"]
    by (intro conjI exI [of _ "time_add (rn_now r) (backoffWait conv draw base (Finite j))"]) (simp_all add: Let_def)
qed

definition ex_backoff :: renewal_config where
  "ex_backoff = \<lparr>rc_interval = 500000, rc_initial = 1000, rc_max = 4000, rc_jitter = Finite fl_unit\<rparr>"

definition ex_failed :: "memory_backend renewal" where
  "ex_failed = (ex_renewal (ex_row ''a'' 1 1000005))\<lparr>rn_now := At 600010, rn_tick := At 1000010,
     rn_phase := Failed 1 1000, rn_log := [OnRenew (ex_token ''a'' 1 1000005) 0 1
       (Some (Wrap ''memory: Renew'' CtxDeadlineExceeded))]\<rparr>"

lemma ex_failed_run:
  "renew_run memory (ex_cfg ''a'') ex_backoff (ex_token ''a'' 1 1000005)
     [Pass 600000, SeeTick, CheckWindow 0 0, Serve (Some CtxDeadlineExceeded) (ex_clock 600010), Receive]
     (start_renewal (ex_cfg ''a'') ex_backoff (ex_token ''a'' 1 1000005) None (At 10) (ex_mem (ex_row ''a'' 1 1000005))) =
   Some ex_failed"
  by (simp add: ex_failed_def ex_backoff_def ex_renewal_simps)

theorem backoff_bounded_witness:
  "\<exists>until. renew_step memory (ex_cfg ''a'') ex_backoff (ex_token ''a'' 1 1000005) (CheckWindow 0 (2 ^ 99)) ex_failed =
     Some (ex_failed\<lparr>rn_phase := Sleeping 1 1000 until\<rparr>) \<and> 601010 \<le> ns until \<and> ns until \<le> 602010"
  using backoff_bounded [OF _ _ _ _ _ _ _ _ ex_failed_run, of fl_unit "2 ^ 99" 1 1000 0]
  by (simp add: ex_backoff_def ex_failed_def ex_renewal_def start_renewal_def initialWindow_def ex_token_def
      time_simps del: renew_step.simps)

text \<open>
  Two corners outside those bounds: a maximum of \<open>2 ^ 62\<close> ns lets the doubling wrap to a negative
  interval, and a NaN jitter, which the option's clamping lets through, makes the wait whatever the
  platform converts a NaN to (on amd64 the least \<open>int64\<close>, so the wait is negative).
\<close>

lemma nextBackoff_wraps: "2 ^ 62 \<le> maxI \<Longrightarrow> nextBackoff (2 ^ 62) maxI = - (2 ^ 63)"
  by (simp add: nextBackoff_def wrap64_def)

lemma nan_jitter_wait: "0 \<le> base \<Longrightarrow> base < 2 ^ 63 \<Longrightarrow> backoffWait (- (2 ^ 63)) draw base NaN < 0"
  by (simp add: backoffWait_def wrap64_def)

text \<open>
  C10. \<open>LeaseWindow\<close> is safe. A client acquires a lease on PostgreSQL whose clock is a constant
  \<open>\<delta>\<close> ahead and starts renewal; then, in any interleaving with any other clients, the holder's own
  checkpoints and its abandoned calls included, whenever \<open>LeaseWindow\<close> reports a deadline that
  has not passed, the table holds the lease under this token, expiring no earlier than it, and any
  client's \<open>Acquire\<close> of the work ID served up to that time returns \<open>ErrLeaseHeld\<close>.
\<close>

theorem lease_window_within_lease:
  assumes "pg_inv s0" and "\<And>k. schedule_ok (ae_before (envs k))"
    and "client_acquire postgres cfg envs s0 w opts = Some (s, log, Inr tok)"
    and "pg_issued s0 + 2 * wait_calls envs (length log) < token_limit"
    and "\<And>k. offset_call \<delta> (ae_call (envs k))" and "\<And>k. ce_start (ae_call (envs k)) \<le> now"
    and "fair_run postgres pg_issued cfg rcfg tok \<delta> acts (start_renewal cfg rcfg tok parent now s)"
    and "renew_run postgres cfg rcfg tok acts (start_renewal cfg rcfg tok parent now s) = Some r"
    and "lease_window r = (d, True)" and "rn_now r \<le> d"
  shows "\<exists>row. pg_view (rn_store r) w = Some row \<and> held_by row (toRecord tok) \<and>
    ns d + \<delta> \<le> ns (row_expires row) \<and>
    (pg_issued (rn_store r) < token_limit \<and> ns (clk 0) \<le> ns d + \<delta> \<longrightarrow>
       snd (pg_acquire (pg_quiet None clk) (rn_store r) w h ttl) = Inl ErrLeaseHeld)"
proof -
  note tok = pg.acquire_token [OF assms(1-4)]
  obtain k where k: "tk_deadline tok = time_add (ce_start (ae_call (envs k))) (cf_ttl cfg)"
    using tok(8) by blast
  have near: "ns (tk_deadline tok) \<le> ns now + cf_ttl cfg"
    using k assms(6) [of k] by (simp add: less_eq_instant_def)
  obtain row where row: "pg_view s (tk_work tok) = Some row" "held_by row (toRecord tok)"
    "ns (tk_deadline tok) + \<delta> \<le> ns (row_expires row)"
    using tok(5) tok(7) [of \<delta>] assms(5) by auto
  obtain row' where cov: "pg_inv (rn_store r)" "pg_view (rn_store r) w = Some row'" "held_by row' (toRecord tok)"
    "ns d + \<delta> \<le> ns (row_expires row')"
    using pg.window_covered [OF tok(1) row near assms(7-10)] tok(5) by auto
  have "snd (pg_acquire (pg_quiet None clk) (rn_store r) w h ttl) = Inl ErrLeaseHeld"
    if "pg_issued (rn_store r) < token_limit" "ns (clk 0) \<le> ns d + \<delta>"
    using pg.acquire_held [OF cov(1,2) _ that(1), of clk h ttl] cov(4) that(2)
    by (auto simp: less_eq_instant_def)
  then show ?thesis using cov by blast
qed

theorem lease_window_within_lease_witness:
  "\<exists>r row. renew_run postgres (ex_cfg ''a'') (renewal_defaults (ex_cfg ''a''))
       \<lparr>tk_work = ''w'', tk_holder = ''a'', tk_token = 1, tk_expires = At 1000005, tk_deadline = At 1000005\<rparr> ex_tick
       (start_renewal (ex_cfg ''a'') (renewal_defaults (ex_cfg ''a''))
          \<lparr>tk_work = ''w'', tk_holder = ''a'', tk_token = 1, tk_expires = At 1000005, tk_deadline = At 1000005\<rparr>
          None (At 10) (fst (pg_acquire (pg_quiet None (ex_clock 5)) pg_empty ''w'' ''a'' millisecond))) = Some r \<and>
     lease_window r = (At 1600010, True) \<and> pg_view (rn_store r) ''w'' = Some row \<and> 1600010 \<le> ns (row_expires row)"
proof -
  let ?tok = "\<lparr>tk_work = ''w'', tk_holder = ''a'', tk_token = 1, tk_expires = At 1000005, tk_deadline = At 1000005\<rparr>"
  let ?s = "fst (pg_acquire (pg_quiet None (ex_clock 5)) pg_empty ''w'' ''a'' millisecond)"
  let ?r0 = "start_renewal (ex_cfg ''a'') (renewal_defaults (ex_cfg ''a'')) ?tok None (At 10) ?s"
  have us: "interval_us millisecond = 1000" by (simp add: interval_us_def)
  note defs = ex_renewal_simps ex_pg_simps us
  have acq: "client_acquire postgres (ex_cfg ''a'') (ex_envs_at 5) pg_empty ''w'' [] =
      Some (?s, [OnAcquire ''w'' ?tok 3 None], Inr ?tok)"
    by (simp add: defs)
  have fair: "fair_run postgres pg_issued (ex_cfg ''a'') (renewal_defaults (ex_cfg ''a'')) ?tok 0 ex_tick ?r0"
    by (simp add: defs pg_renew_def sql_renew_def sql_update_def served_at_def)
  obtain r where r: "renew_run postgres (ex_cfg ''a'') (renewal_defaults (ex_cfg ''a'')) ?tok ex_tick ?r0 = Some r"
    "lease_window r = (At 1600010, True)" "rn_now r = At 600010"
    by (simp add: defs pg_renew_def sql_renew_def sql_update_def lease_window_def)
  have "\<exists>row. pg_view (rn_store r) ''w'' = Some row \<and> held_by row (toRecord ?tok) \<and> 1600010 + 0 \<le> ns (row_expires row)"
    using lease_window_within_lease [OF pg_inv_empty _ acq _ _ _ fair r(1,2), of "ex_clock 0" "''b''" 50] r(3)
    by (auto simp: ex_envs_at_def ex_call_def offset_call_def token_limit_def pg_issued_def pg_empty_def time_simps)
  then show ?thesis using r(1,2) by auto
qed

end
