(* ===== verification/Runner.thy ===== *)
theory Runner
  imports Client
begin

text \<open>
  \<open>worker/runner.go\<close>: one run of a work function under a lease.

  The \<open>Lease\<close> interface is the record \<open>lease\<close> of its methods over a world \<open>'w\<close> that holds
  whatever they read and change. \<open>StartRenewal\<close> is the start of renewal, the stop function it
  returns and the cause of the context it returns. Every method is given the context it is called
  with: the caller's; the cleanup context with its timeout, which survives cancellation of the
  caller's; and, for the calls of work functions, the renewal context or \<open>context.Background()\<close>.
  The work function, with everything that happens while it runs, is a function on the world that
  returns or panics.
\<close>

datatype ctx_used = CallerCtx | CleanupCtx duration | RenewalCtx | BackgroundCtx

record 'w lease =
  l_acquire :: "ctx_used \<Rightarrow> 'w \<Rightarrow> string \<Rightarrow> acquire_option list \<Rightarrow> 'w \<times> (gerror + token)"
  l_checkpoint :: "ctx_used \<Rightarrow> 'w \<Rightarrow> token \<Rightarrow> bytes \<Rightarrow> 'w \<times> gerror option"
  l_release :: "ctx_used \<Rightarrow> 'w \<Rightarrow> token \<Rightarrow> exit_mode \<Rightarrow> 'w \<times> gerror option"
  l_read_checkpoint :: "ctx_used \<Rightarrow> 'w \<Rightarrow> token \<Rightarrow> 'w \<times> (gerror + checkpoint)"
  l_start_renewal :: "ctx_used \<Rightarrow> 'w \<Rightarrow> token \<Rightarrow> renewal_option list \<Rightarrow> 'w"
  l_stop_renewal :: "'w \<Rightarrow> 'w"
  l_cause :: "'w \<Rightarrow> gerror option"

datatype work_outcome = Returned bytes "gerror option" | Panicked

datatype run_result = Done "gerror option" | Propagated

type_synonym 'w work_fn = "'w \<Rightarrow> token \<Rightarrow> checkpoint \<Rightarrow> 'w \<times> work_outcome"

record 'w runner_config =
  rg_lease :: "'w lease option"
  rg_fn :: "'w work_fn option"
  rg_acquire :: "acquire_option list"
  rg_renewal :: "renewal_option list"
  rg_cleanup :: duration

record 'w runner =
  ru_lease :: "'w lease"
  ru_fn :: "'w work_fn"
  ru_acquire :: "acquire_option list"
  ru_renewal :: "renewal_option list"
  ru_cleanup :: duration

definition defaultCleanupTimeout :: duration where "defaultCleanupTimeout = 5 * second"

definition NewRunner :: "'w runner_config \<Rightarrow> gerror + 'w runner" where
  "NewRunner cfg =
     (case rg_lease cfg of
        None \<Rightarrow> Inl (ConfigError ''worker: lease is required'')
      | Some L \<Rightarrow>
          (case rg_fn cfg of
             None \<Rightarrow> Inl (ConfigError ''worker: work function is required'')
           | Some fn \<Rightarrow>
               Inr \<lparr>ru_lease = L, ru_fn = fn, ru_acquire = rg_acquire cfg, ru_renewal = rg_renewal cfg,
                    ru_cleanup = (if rg_cleanup cfg \<le> 0 then defaultCleanupTimeout else rg_cleanup cfg)\<rparr>))"

text \<open>The exit mode and the result that the work function's error selects.\<close>

definition work_mode :: "gerror option \<Rightarrow> exit_mode \<times> gerror option" where
  "work_mode err =
     (if err_matches err ErrRetire then (ExitRetired, None)
      else if err = None then (ExitFinished, err)
      else (ExitAbandoned, err))"

text \<open>Step 9: release, and what its error does to the result.\<close>

definition run_release :: "'w runner \<Rightarrow> 'w \<Rightarrow> token \<Rightarrow> exit_mode \<Rightarrow> gerror option \<Rightarrow> 'w \<times> gerror option" where
  "run_release r w tok mode result =
     (let (w', relErr) = l_release (ru_lease r) (CleanupCtx (ru_cleanup r)) w tok mode
      in case relErr of
           None \<Rightarrow> (w', result)
         | Some e \<Rightarrow>
             if errors_is e ErrFenced then (w', Some ErrFenced)
             else if result = None then (w', Some (Wrap ''worker: release'' e))
             else (w', result))"

text \<open>Steps 6 to 9, after renewal has stopped with \<open>cause\<close>.\<close>

definition run_finish ::
  "'w runner \<Rightarrow> 'w \<Rightarrow> token \<Rightarrow> bytes \<Rightarrow> gerror option \<Rightarrow> gerror option \<Rightarrow> 'w \<times> gerror option" where
  "run_finish r w tok finalState workErr cause =
     (if err_matches workErr ErrFenced \<or> err_matches cause ErrFenced then (w, Some ErrFenced)
      else if err_matches cause ErrLeaseWindowExhausted then
        (w, if workErr \<noteq> None then workErr else map_option (Wrap ''worker'') cause)
      else
        let (mode, result) = work_mode workErr
        in if finalState = None then run_release r w tok mode result
           else
             let (w', cpErr) = l_checkpoint (ru_lease r) (CleanupCtx (ru_cleanup r)) w tok finalState
             in case cpErr of
                  None \<Rightarrow> run_release r w' tok mode result
                | Some e \<Rightarrow>
                    if errors_is e ErrFenced then (w', Some ErrFenced)
                    else run_release r w' tok ExitAbandoned
                           (if result = None then Some (Wrap ''worker: checkpoint'' e) else result))"

definition runner_run :: "'w runner \<Rightarrow> 'w \<Rightarrow> string \<Rightarrow> 'w \<times> run_result" where
  "runner_run r w workID =
     (let L = ru_lease r; (w1, acq) = l_acquire L CallerCtx w workID (ru_acquire r)
      in case acq of
           Inl e \<Rightarrow> (w1, Done (Some (Wrap ''worker: acquire'' e)))
         | Inr tok \<Rightarrow>
             let (w2, rd) = l_read_checkpoint L CallerCtx w1 tok
             in case rd of
                  Inl e \<Rightarrow>
                    (w2, Done (Some (if errors_is e ErrFenced then ErrFenced
                                     else Wrap ''worker: read checkpoint'' e)))
                | Inr cp \<Rightarrow>
                    let w3 = l_start_renewal L CallerCtx w2 tok (ru_renewal r);
                        (w4, out) = ru_fn r w3 tok cp
                    in case out of
                         Panicked \<Rightarrow> (l_stop_renewal L w4, Propagated)
                       | Returned finalState workErr \<Rightarrow>
                           let w5 = l_stop_renewal L w4;
                               (w6, res) = run_finish r w5 tok finalState workErr (l_cause L w5)
                           in (l_stop_renewal L w6, Done res))"

section \<open>Traces of a run\<close>

text \<open>
  Any runner, with every call of its lease and of its work function recorded together with what the
  call returned. A stop is recorded with the cause of the renewal context after it. The last five
  constructors are for \<open>Elect\<close>: its callbacks, its function and its sleeps; \<open>CFn\<close> records how the
  function ended, and the errors of the renewal context and of the caller's context at that point.
\<close>

datatype fn_outcome = FnReturned "gerror option" | FnPanicked

datatype lcall =
    CAcquire string "gerror + token"
  | CRead token "gerror + checkpoint"
  | CStart token
  | CWork token checkpoint work_outcome
  | CStop "gerror option"
  | CCheckpoint ctx_used token bytes "gerror option"
  | CRelease ctx_used token exit_mode "gerror option"
  | CElected token
  | CFn fn_outcome ctx_err ctx_err
  | CLost token
  | CRelinquished token
  | CSleep duration

definition traced_lease :: "'w lease \<Rightarrow> ('w \<times> lcall list) lease" where
  "traced_lease L =
     \<lparr>l_acquire = (\<lambda>c (w, t) i os. let (w', x) = l_acquire L c w i os in ((w', t @ [CAcquire i x]), x)),
      l_checkpoint = (\<lambda>c (w, t) k st. let (w', x) = l_checkpoint L c w k st in ((w', t @ [CCheckpoint c k st x]), x)),
      l_release = (\<lambda>c (w, t) k m. let (w', x) = l_release L c w k m in ((w', t @ [CRelease c k m x]), x)),
      l_read_checkpoint = (\<lambda>c (w, t) k. let (w', x) = l_read_checkpoint L c w k in ((w', t @ [CRead k x]), x)),
      l_start_renewal = (\<lambda>c (w, t) k os. (l_start_renewal L c w k os, t @ [CStart k])),
      l_stop_renewal = (\<lambda>(w, t). let w' = l_stop_renewal L w in (w', t @ [CStop (l_cause L w')])),
      l_cause = (\<lambda>(w, t). l_cause L w)\<rparr>"

definition traced_runner :: "'w runner \<Rightarrow> ('w \<times> lcall list) runner" where
  "traced_runner r =
     \<lparr>ru_lease = traced_lease (ru_lease r),
      ru_fn = (\<lambda>(w, t) k cp. let (w', out) = ru_fn r w k cp in ((w', t @ [CWork k cp out]), out)),
      ru_acquire = ru_acquire r, ru_renewal = ru_renewal r, ru_cleanup = ru_cleanup r\<rparr>"

lemma traced_sel [simp]:
  "l_acquire (traced_lease L) c (w, t) i os = (let (w', x) = l_acquire L c w i os in ((w', t @ [CAcquire i x]), x))"
  "l_checkpoint (traced_lease L) c (w, t) k st =
     (let (w', x) = l_checkpoint L c w k st in ((w', t @ [CCheckpoint c k st x]), x))"
  "l_release (traced_lease L) c (w, t) k m = (let (w', x) = l_release L c w k m in ((w', t @ [CRelease c k m x]), x))"
  "l_read_checkpoint (traced_lease L) c (w, t) k = (let (w', x) = l_read_checkpoint L c w k in ((w', t @ [CRead k x]), x))"
  "l_start_renewal (traced_lease L) c (w, t) k ros = (l_start_renewal L c w k ros, t @ [CStart k])"
  "l_stop_renewal (traced_lease L) (w, t) =
     (l_stop_renewal L w, t @ [CStop (l_cause L (l_stop_renewal L w))])"
  "l_cause (traced_lease L) (w, t) = l_cause L w"
  "ru_lease (traced_runner r) = traced_lease (ru_lease r)"
  "ru_fn (traced_runner r) (w, t) k cp = (let (w', out) = ru_fn r w k cp in ((w', t @ [CWork k cp out]), out))"
  "ru_acquire (traced_runner r) = ru_acquire r" "ru_renewal (traced_runner r) = ru_renewal r"
  "ru_cleanup (traced_runner r) = ru_cleanup r"
  by (simp_all add: traced_lease_def traced_runner_def Let_def)

section \<open>The life cycle of a run\<close>

text \<open>
  What a run owes, said without the code. The lease is still the run's own, as far as it can tell,
  if neither the work function's error nor the cause of the renewal context reports fencing and the
  cause does not report an exhausted window. A release then declares an exit that depends on the
  work function's error and on the error of the final checkpoint, and the result is the first of:
  fencing at the release, the work function's error, the checkpoint's error, the release's error.
\<close>

definition lease_kept :: "gerror option \<Rightarrow> gerror option \<Rightarrow> bool" where
  "lease_kept werr cause \<longleftrightarrow> \<not> err_matches werr ErrFenced \<and> \<not> err_matches cause ErrFenced \<and>
     \<not> err_matches cause ErrLeaseWindowExhausted"

definition exit_due :: "gerror option \<Rightarrow> gerror option \<Rightarrow> exit_mode" where
  "exit_due werr cperr =
     (if cperr \<noteq> None then ExitAbandoned
      else if err_matches werr ErrRetire then ExitRetired
      else if werr = None then ExitFinished
      else ExitAbandoned)"

definition result_due :: "gerror option \<Rightarrow> gerror option \<Rightarrow> gerror option \<Rightarrow> gerror option" where
  "result_due werr cperr relerr =
     (if err_matches relerr ErrFenced then Some ErrFenced
      else if werr \<noteq> None \<and> \<not> err_matches werr ErrRetire then werr
      else if cperr \<noteq> None then map_option (Wrap ''worker: checkpoint'') cperr
      else map_option (Wrap ''worker: release'') relerr)"

text \<open>
  The sequences of calls a run may make and what they return, with the run's result; \<open>c\<close> is the
  cleanup context. The last \<open>CStop\<close> of each is the deferred, idempotent stop. There is a release
  only where the lease is kept, and a final checkpoint exactly where there is a final state too.
\<close>

inductive lifecycle :: "ctx_used \<Rightarrow> string \<Rightarrow> lcall list \<Rightarrow> run_result \<Rightarrow> bool" where
  not_acquired: "lifecycle c w [CAcquire w (Inl e)] (Done (Some (Wrap ''worker: acquire'' e)))"
| not_read: "lifecycle c w [CAcquire w (Inr tok), CRead tok (Inl e)]
    (Done (Some (if errors_is e ErrFenced then ErrFenced else Wrap ''worker: read checkpoint'' e)))"
| panicked: "lifecycle c w [CAcquire w (Inr tok), CRead tok (Inr cp), CStart tok, CWork tok cp Panicked, CStop cause]
    Propagated"
| fenced: "err_matches werr ErrFenced \<or> err_matches cause ErrFenced \<Longrightarrow>
    lifecycle c w [CAcquire w (Inr tok), CRead tok (Inr cp), CStart tok, CWork tok cp (Returned st werr), CStop cause,
      CStop late] (Done (Some ErrFenced))"
| exhausted: "\<not> err_matches werr ErrFenced \<Longrightarrow> \<not> errors_is e ErrFenced \<Longrightarrow> errors_is e ErrLeaseWindowExhausted \<Longrightarrow>
    lifecycle c w [CAcquire w (Inr tok), CRead tok (Inr cp), CStart tok, CWork tok cp (Returned st werr), CStop (Some e),
      CStop late] (Done (if werr = None then Some (Wrap ''worker'' e) else werr))"
| fenced_at_checkpoint: "lease_kept werr cause \<Longrightarrow> errors_is e ErrFenced \<Longrightarrow>
    lifecycle c w [CAcquire w (Inr tok), CRead tok (Inr cp), CStart tok, CWork tok cp (Returned (Some s) werr), CStop cause,
      CCheckpoint c tok (Some s) (Some e), CStop late] (Done (Some ErrFenced))"
| released_as_is: "lease_kept werr cause \<Longrightarrow>
    lifecycle c w [CAcquire w (Inr tok), CRead tok (Inr cp), CStart tok, CWork tok cp (Returned None werr), CStop cause,
      CRelease c tok (exit_due werr None) relerr, CStop late] (Done (result_due werr None relerr))"
| released_with_state: "lease_kept werr cause \<Longrightarrow> \<not> err_matches cperr ErrFenced \<Longrightarrow>
    lifecycle c w [CAcquire w (Inr tok), CRead tok (Inr cp), CStart tok, CWork tok cp (Returned (Some s) werr), CStop cause,
      CCheckpoint c tok (Some s) cperr, CRelease c tok (exit_due werr cperr) relerr, CStop late]
      (Done (result_due werr cperr relerr))"

text \<open>A nil result of these is a release, recorded, of a lease that was kept, as finished or retired.\<close>

lemma result_due_None:
  "result_due werr cperr relerr = None \<longleftrightarrow>
     relerr = None \<and> cperr = None \<and> exit_due werr cperr \<in> {ExitFinished, ExitRetired}"
  by (cases werr; cases cperr; cases relerr) (auto simp: result_due_def exit_due_def)

lemma lifecycle_nil:
  assumes "lifecycle c w t (Done None)"
  shows "\<exists>tok m. CRelease c tok m None \<in> set t \<and> (m = ExitFinished \<or> m = ExitRetired)"
  using assms by cases (auto simp: result_due_None dest: sym split: if_splits)

lemma work_mode_cases:
  "work_mode err = (m, res) \<Longrightarrow> m = exit_due err None \<and>
     res = (if err_matches err ErrRetire then None else err)"
  by (cases err) (auto simp: work_mode_def exit_due_def split: if_splits)

text \<open>Releasing: one more call, whose error takes second place to the result so far.\<close>

abbreviation result_so_far :: "gerror option \<Rightarrow> gerror option \<Rightarrow> gerror option" where
  "result_so_far werr cperr \<equiv>
     (let result = (if err_matches werr ErrRetire then None else werr)
      in if result = None then map_option (Wrap ''worker: checkpoint'') cperr else result)"

lemma run_release_traced:
  obtains w' relerr where "run_release (traced_runner r) (w, t) tok m (result_so_far werr cperr) =
    ((w', t @ [CRelease (CleanupCtx (ru_cleanup r)) tok m relerr]), result_due werr cperr relerr)"
proof -
  obtain w' relerr where rel: "l_release (ru_lease r) (CleanupCtx (ru_cleanup r)) w tok m = (w', relerr)"
    by (cases "l_release (ru_lease r) (CleanupCtx (ru_cleanup r)) w tok m")
  show ?thesis
    by (rule that [of w' relerr])
      (cases werr; cases cperr; cases relerr; simp add: rel run_release_def result_due_def)
qed

lemma run_finish_fenced:
  "err_matches werr ErrFenced \<or> err_matches cause ErrFenced \<Longrightarrow>
   run_finish r w tok st werr cause = (w, Some ErrFenced)"
  by (simp add: run_finish_def)

lemma run_finish_exhausted:
  "\<not> err_matches werr ErrFenced \<Longrightarrow> \<not> errors_is e ErrFenced \<Longrightarrow> errors_is e ErrLeaseWindowExhausted \<Longrightarrow>
   run_finish r w tok st werr (Some e) = (w, if werr = None then Some (Wrap ''worker'' e) else werr)"
  by (simp add: run_finish_def)

lemma run_finish_as_is:
  assumes "lease_kept werr cause"
  obtains w' relerr where "run_finish (traced_runner r) (w, t) tok None werr cause =
    ((w', t @ [CRelease (CleanupCtx (ru_cleanup r)) tok (exit_due werr None) relerr]), result_due werr None relerr)"
proof -
  obtain m result where mode: "work_mode werr = (m, result)" by (cases "work_mode werr")
  then have fin: "run_finish (traced_runner r) (w, t) tok None werr cause =
      run_release (traced_runner r) (w, t) tok (exit_due werr None) (result_so_far werr None)"
    using assms work_mode_cases [OF mode] by (simp add: run_finish_def lease_kept_def)
  show ?thesis by (rule run_release_traced) (rule that, subst fin)
qed

lemma run_finish_with_state:
  assumes "lease_kept werr cause"
  obtains w' e where "errors_is e ErrFenced"
      "run_finish (traced_runner r) (w, t) tok (Some s) werr cause =
        ((w', t @ [CCheckpoint (CleanupCtx (ru_cleanup r)) tok (Some s) (Some e)]), Some ErrFenced)"
    | w' cperr relerr where "\<not> err_matches cperr ErrFenced"
      "run_finish (traced_runner r) (w, t) tok (Some s) werr cause =
        ((w', t @ [CCheckpoint (CleanupCtx (ru_cleanup r)) tok (Some s) cperr,
                   CRelease (CleanupCtx (ru_cleanup r)) tok (exit_due werr cperr) relerr]), result_due werr cperr relerr)"
proof -
  let ?c = "CleanupCtx (ru_cleanup r)"
  obtain m result where mode: "work_mode werr = (m, result)" by (cases "work_mode werr")
  note wm = work_mode_cases [OF mode]
  obtain w1 cperr where cp: "l_checkpoint (ru_lease r) ?c w tok (Some s) = (w1, cperr)"
    by (cases "l_checkpoint (ru_lease r) ?c w tok (Some s)")
  let ?t = "t @ [CCheckpoint ?c tok (Some s) cperr]"
  consider e where "cperr = Some e" "errors_is e ErrFenced" | "\<not> err_matches cperr ErrFenced" by (cases cperr) auto
  then show ?thesis
  proof cases
    case (1 e)
    have "run_finish (traced_runner r) (w, t) tok (Some s) werr cause = ((w1, ?t), Some ErrFenced)"
      using assms mode cp 1 by (simp add: run_finish_def lease_kept_def)
    then show ?thesis using that(1) [OF 1(2)] 1(1) by simp
  next
    case 2
    have fin: "run_finish (traced_runner r) (w, t) tok (Some s) werr cause =
        run_release (traced_runner r) (w1, ?t) tok (exit_due werr cperr) (result_so_far werr cperr)"
    proof (cases cperr)
      case None
      then show ?thesis using assms mode cp wm by (simp add: run_finish_def lease_kept_def)
    next
      case (Some e)
      then show ?thesis using assms mode cp wm 2 by (simp add: run_finish_def lease_kept_def exit_due_def)
    qed
    obtain w' relerr where "run_release (traced_runner r) (w1, ?t) tok (exit_due werr cperr) (result_so_far werr cperr) =
        ((w', ?t @ [CRelease ?c tok (exit_due werr cperr) relerr]), result_due werr cperr relerr)"
      by (rule run_release_traced)
    with fin show ?thesis using that(2) [OF 2, of w' relerr] by simp
  qed
qed

section \<open>Properties\<close>

text \<open>After the work function has returned, a run takes one of the life cycle's ends.\<close>

lemma run_finish_traced:
  assumes "run_finish (traced_runner r)
      (w, [CAcquire i (Inr tok), CRead tok (Inr cp), CStart tok, CWork tok cp (Returned st werr), CStop cause])
      tok st werr cause = ((w', t), res)"
  shows "lifecycle (CleanupCtx (ru_cleanup r)) i (t @ [CStop late]) (Done res)"
proof -
  let ?t = "[CAcquire i (Inr tok), CRead tok (Inr cp), CStart tok, CWork tok cp (Returned st werr), CStop cause]"
  consider "err_matches werr ErrFenced \<or> err_matches cause ErrFenced"
    | e where "\<not> err_matches werr ErrFenced" "cause = Some e" "\<not> errors_is e ErrFenced" "errors_is e ErrLeaseWindowExhausted"
    | "lease_kept werr cause" "st = None"
    | s where "lease_kept werr cause" "st = Some s"
    by (cases cause; cases st) (auto simp: lease_kept_def)
  then show ?thesis
  proof cases
    case 1
    then show ?thesis using assms lifecycle.fenced [OF 1] by (auto simp: run_finish_fenced [OF 1])
  next
    case (2 e)
    then show ?thesis
      using assms 2(2) lifecycle.exhausted [OF 2(1,3,4)]
      by (auto simp: run_finish_exhausted [OF 2(1,3,4)] simp del: if_split split del: if_split)
  next
    case 3
    show ?thesis
      by (rule run_finish_as_is [OF 3(1), of r w ?t tok])
        (use 3 assms lifecycle.released_as_is [OF 3(1)] in auto)
  next
    case (4 s)
    show ?thesis
      by (rule run_finish_with_state [OF 4(1), of r w ?t tok s])
        (use 4 assms lifecycle.fenced_at_checkpoint [OF 4(1)] lifecycle.released_with_state [OF 4(1)] in auto)
  qed
qed

text \<open>Every run is one of the life cycle's.\<close>

lemma run_calls:
  assumes "NewRunner cfg = Inr r" and "runner_run (traced_runner r) (w, []) workID = ((w', t), res)"
  shows "0 < ru_cleanup r" and "lifecycle (CleanupCtx (ru_cleanup r)) workID t res"
proof -
  show "0 < ru_cleanup r"
    using assms(1) by (auto simp: NewRunner_def defaultCleanupTimeout_def split: option.splits)
  let ?L = "ru_lease r"
  obtain w1 acq where acq: "l_acquire ?L CallerCtx w workID (ru_acquire r) = (w1, acq)"
    by (cases "l_acquire ?L CallerCtx w workID (ru_acquire r)")
  show "lifecycle (CleanupCtx (ru_cleanup r)) workID t res"
  proof (cases acq)
    case (Inl e)
    then show ?thesis using assms(2) acq by (auto simp: runner_run_def intro: lifecycle.not_acquired)
  next
    case (Inr tok)
    obtain w2 rd where rd: "l_read_checkpoint ?L CallerCtx w1 tok = (w2, rd)"
      by (cases "l_read_checkpoint ?L CallerCtx w1 tok")
    show ?thesis
    proof (cases rd)
      case (Inl e)
      then show ?thesis
        using assms(2) acq rd \<open>acq = Inr tok\<close> lifecycle.not_read [of _ workID tok e]
        by (simp add: runner_run_def split: if_splits)
    next
      case (Inr cp)
      obtain w4 out where fn: "ru_fn r (l_start_renewal ?L CallerCtx w2 tok (ru_renewal r)) tok cp = (w4, out)"
        by (cases "ru_fn r (l_start_renewal ?L CallerCtx w2 tok (ru_renewal r)) tok cp")
      let ?w5 = "l_stop_renewal ?L w4"
      let ?t = "[CAcquire workID (Inr tok), CRead tok (Inr cp), CStart tok, CWork tok cp out, CStop (l_cause ?L ?w5)]"
      show ?thesis
      proof (cases out)
        case Panicked
        then show ?thesis
          using assms(2) acq rd fn \<open>acq = Inr tok\<close> \<open>rd = Inr cp\<close>
          by (auto simp: runner_run_def intro: lifecycle.panicked)
      next
        case (Returned st werr)
        obtain w6 t6 e where fin: "run_finish (traced_runner r) (?w5, ?t) tok st werr (l_cause ?L ?w5) = ((w6, t6), e)"
          by (metis surj_pair)
        have "t = t6 @ [CStop (l_cause ?L (l_stop_renewal ?L w6))]" "res = Done e"
          using assms(2) acq rd fn fin \<open>acq = Inr tok\<close> \<open>rd = Inr cp\<close> Returned
          by (auto simp: runner_run_def)
        then show ?thesis using run_finish_traced [OF fin [unfolded Returned]] by simp
      qed
    qed
  qed
qed

text \<open>
  C13. The life cycle of a run. Whatever the lease client and the work function do, \<open>Run\<close> calls them
  in one of the orders of \<open>lifecycle\<close>, and what the calls return decides which one and its result. It
  stops renewal before it checkpoints or releases. If the work function's error or the cause of the
  renewal context reports fencing it returns \<open>ErrFenced\<close>, and if the cause reports an exhausted window
  it returns the work function's error or else that cause: both without a checkpoint or a release,
  and there is none after a panic or a failed read either. Otherwise it writes the final state once
  if there is one, and unless that is fenced releases once: as finished, retired or abandoned after
  the work function's error, and as abandoned if the write failed. Both calls are on the cleanup
  context, with a positive timeout. Nil means a recorded release as finished or retired.
\<close>

theorem run_lifecycle:
  assumes "NewRunner cfg = Inr r" and "runner_run (traced_runner r) (w, []) workID = ((w', t), res)"
  shows "0 < ru_cleanup r \<and> lifecycle (CleanupCtx (ru_cleanup r)) workID t res \<and>
    (res = Done None \<longrightarrow>
      (\<exists>tok m. CRelease (CleanupCtx (ru_cleanup r)) tok m None \<in> set t \<and> (m = ExitFinished \<or> m = ExitRetired)))"
  using run_calls [OF assms] lifecycle_nil by blast

section \<open>The runner on the lease client\<close>

text \<open>
  The lease client as a \<open>Lease\<close>: the world is the backend's store, the environments of the calls to
  come (what other clients do before each, and what surrounds it), the cause of the renewal context
  and the observer's log. Renewal itself runs while the work function does, so its effect is part of
  the work function's. An \<open>Acquire\<close> that never returns is cut short by cancellation.
\<close>

record 's cworld =
  cw_store :: 's
  cw_envs :: "nat \<Rightarrow> attempt_env"
  cw_n :: nat
  cw_cause :: ctx_err
  cw_log :: "event list"

definition cw_op ::
  "'s backend \<Rightarrow> (call_env \<Rightarrow> 's \<Rightarrow> 's \<times> event list \<times> 'x) \<Rightarrow> 's cworld \<Rightarrow> 's cworld \<times> 'x" where
  "cw_op b f w =
     (let env = cw_envs w (cw_n w); (s', evs, x) = f (ae_call env) (b_run b (ae_before env) (cw_store w))
      in (w\<lparr>cw_store := s', cw_n := Suc (cw_n w), cw_log := cw_log w @ evs\<rparr>, x))"

definition client_lease :: "'s backend \<Rightarrow> client_config \<Rightarrow> 's cworld lease" where
  "client_lease b cfg =
     \<lparr>l_acquire = (\<lambda>c w i os.
        case client_acquire b cfg (\<lambda>k. cw_envs w (cw_n w + k)) (cw_store w) i os of
          None \<Rightarrow> (w, Inl (Wrap ''worklease: acquire cancelled'' CtxCanceled))
        | Some (s', evs, x) \<Rightarrow>
            (w\<lparr>cw_store := s', cw_n := cw_n w + length evs, cw_log := cw_log w @ evs\<rparr>, x)),
      l_checkpoint = (\<lambda>c w k st. cw_op b (\<lambda>env s. client_checkpoint b cfg env s k st) w),
      l_release = (\<lambda>c w k m. cw_op b (\<lambda>env s. client_release b cfg env s k m) w),
      l_read_checkpoint = (\<lambda>c w k. cw_op b (\<lambda>env s. client_read_checkpoint b cfg env s k) w),
      l_start_renewal = (\<lambda>c w k os. w),
      l_stop_renewal = (\<lambda>w. w),
      l_cause = cw_cause\<rparr>"

lemma client_lease_sel [simp]:
  "l_checkpoint (client_lease b cfg) c w k st = cw_op b (\<lambda>env s. client_checkpoint b cfg env s k st) w"
  "l_release (client_lease b cfg) c w k m = cw_op b (\<lambda>env s. client_release b cfg env s k m) w"
  "l_read_checkpoint (client_lease b cfg) c w k = cw_op b (\<lambda>env s. client_read_checkpoint b cfg env s k) w"
  "l_start_renewal (client_lease b cfg) c w k os' = w" "l_stop_renewal (client_lease b cfg) w = w"
  "l_cause (client_lease b cfg) w = cw_cause w"
  by (simp_all add: client_lease_def)

text \<open>What the success of a run came through.\<close>

lemma run_release_success:
  assumes "run_release r w tok m result = (w', None)"
  shows "result = None \<and> l_release (ru_lease r) (CleanupCtx (ru_cleanup r)) w tok m = (w', None)"
  using assms by (auto simp: run_release_def Let_def split: prod.splits option.splits if_splits)

lemma run_finish_success:
  assumes "run_finish r w tok st werr cause = (w', None)"
  obtains w1 m where "\<not> err_matches cause ErrFenced" "\<not> err_matches cause ErrLeaseWindowExhausted"
    "m = (if err_matches werr ErrRetire then ExitRetired else ExitFinished)"
    "werr = None \<or> err_matches werr ErrRetire"
    "case st of None \<Rightarrow> w1 = w
     | Some s \<Rightarrow> l_checkpoint (ru_lease r) (CleanupCtx (ru_cleanup r)) w tok (Some s) = (w1, None)"
    "l_release (ru_lease r) (CleanupCtx (ru_cleanup r)) w1 tok m = (w', None)"
proof -
  have ok: "\<not> err_matches werr ErrFenced" "\<not> err_matches cause ErrFenced"
    "\<not> err_matches cause ErrLeaseWindowExhausted"
    using assms by (cases cause, auto simp: run_finish_def split: if_splits)+
  obtain m result where mode: "work_mode werr = (m, result)" by (cases "work_mode werr")
  have m: "result = None \<Longrightarrow> (werr = None \<or> err_matches werr ErrRetire) \<and>
      m = (if err_matches werr ErrRetire then ExitRetired else ExitFinished)"
    using mode by (auto simp: work_mode_def split: if_splits)
  show ?thesis
  proof (cases st)
    case None
    then have "run_release r w tok m result = (w', None)"
      using assms ok mode by (simp add: run_finish_def)
    note rel = run_release_success [OF this]
    show ?thesis
      by (rule that [of m w]) (use ok m [OF conjunct1 [OF rel]] rel None in simp_all)
  next
    case (Some s)
    obtain w1 e where cp: "l_checkpoint (ru_lease r) (CleanupCtx (ru_cleanup r)) w tok (Some s) = (w1, e)"
      by (cases "l_checkpoint (ru_lease r) (CleanupCtx (ru_cleanup r)) w tok (Some s)")
    have "e = None"
      using assms ok mode cp Some by (auto simp: run_finish_def split: option.splits if_splits
          dest!: run_release_success)
    then have "run_release r w1 tok m result = (w', None)"
      using assms ok mode cp Some by (simp add: run_finish_def)
    note rel = run_release_success [OF this]
    show ?thesis
      by (rule that [of m w1]) (use ok m [OF conjunct1 [OF rel]] rel Some cp \<open>e = None\<close> in simp_all)
  qed
qed

lemma runner_success:
  assumes "runner_run r w workID = (w', Done None)"
  obtains w1 tok w2 cp w4 st werr w6 where
    "l_acquire (ru_lease r) CallerCtx w workID (ru_acquire r) = (w1, Inr tok)"
    "l_read_checkpoint (ru_lease r) CallerCtx w1 tok = (w2, Inr cp)"
    "ru_fn r (l_start_renewal (ru_lease r) CallerCtx w2 tok (ru_renewal r)) tok cp = (w4, Returned st werr)"
    "run_finish r (l_stop_renewal (ru_lease r) w4) tok st werr
       (l_cause (ru_lease r) (l_stop_renewal (ru_lease r) w4)) = (w6, None)"
    "w' = l_stop_renewal (ru_lease r) w6"
  using assms
  by (auto simp: runner_run_def Let_def split: prod.splits sum.splits work_outcome.splits)

lemma foreign_only_step:
  assumes "row_step clk call w n (Some r) ro'" and "held_by r rec" and "foreign rec call"
    and "unat (row_token r) \<le> n" and "n \<le> n'"
  shows "ro' = Some r \<or> superseded ro' n' rec"
  using assms by cases (auto simp: superseded_def held_by_def)

text \<open>Other clients' calls: well-formed, and none made with the token.\<close>

definition others_ok :: "token \<Rightarrow> schedule \<Rightarrow> bool" where
  "others_ok tok cs \<longleftrightarrow> list_all (\<lambda>(c, clk, call). call_ok call \<and> foreign (toRecord tok) call) cs"

lemma others_ok_schedule: "others_ok tok cs \<Longrightarrow> schedule_ok cs"
  by (auto simp: others_ok_def schedule_ok_def list_all_iff)

context lease_backend
begin

lemma others_keep_row:
  assumes "inv s" and "room s cs" and "others_ok tok cs" and "view s (tk_work tok) = Some r"
    and "held_by r (toRecord tok)"
  shows "view (b_run b cs s) (tk_work tok) = Some r \<or>
    superseded (view (b_run b cs s) (tk_work tok)) (issued (b_run b cs s)) (toRecord tok)"
  using assms
proof (induction cs arbitrary: s)
  case (Cons e cs)
  obtain c clk call where e: "e = (c, clk, call)" by (cases e)
  have sched: "schedule_ok (e # cs)" using Cons.prems(3) by (rule others_ok_schedule)
  note st = room_Cons [OF Cons.prems(1) Cons.prems(2) [unfolded e] sched [unfolded e]]
  let ?s = "b_call b c clk call s"
  have "view ?s (tk_work tok) = Some r \<or> superseded (view ?s (tk_work tok)) (issued ?s) (toRecord tok)"
    by (rule foreign_only_step [OF call_step(4) [OF Cons.prems(1) st(1,2), where c = c and clk = clk and
          w = "tk_work tok", unfolded Cons.prems(4)]])
       (use Cons.prems(3,5) e token_issued [OF Cons.prems(1,4)]
          call_step(2) [OF Cons.prems(1) st(1,2), where c = c and clk = clk] in \<open>auto simp: others_ok_def\<close>)
  then show ?case
  proof
    assume "view ?s (tk_work tok) = Some r"
    then show ?thesis using Cons.IH [OF st(4,5)] Cons.prems(3,5) e by (simp add: others_ok_def)
  next
    assume "superseded (view ?s (tk_work tok)) (issued ?s) (toRecord tok)"
    then show ?thesis using run_superseded [OF st(4,5,3), of "toRecord tok"] e by simp
  qed
qed simp

text \<open>A final checkpoint, the calls of others and a release, all successful, leave exactly this row.\<close>

lemma client_checkpoint_wrote:
  assumes "inv s" and "issued s < token_limit" and "client_checkpoint b cfg env s tok st = (s', evs, None)"
  shows "inv s' \<and> issued s' = issued s \<and> (\<exists>row. view s' (tk_work tok) = Some row \<and> held_by row (toRecord tok) \<and>
    row_checkpoint row = normalize_state st)"
proof -
  obtain t err where call: "b_checkpoint b (ce_ctx env) (ce_clk env) s (toRecord tok) st (cf_ttl cfg) = (t, err)"
    by (cases "b_checkpoint b (ce_ctx env) (ce_clk env) s (toRecord tok) st (cf_ttl cfg)")
  have err: "err = None" "t = s'"
    using assms(3) call by (auto simp: client_checkpoint_def op_error_def split: if_splits option.splits)
  have "ce_ctx env = None"
  proof (cases "ce_ctx env")
    case (Some e)
    obtain e' where "b_checkpoint b (Some e) (ce_clk env) s (toRecord tok) st (cf_ttl cfg) = (s, Some e')"
      using checkpoint_ctx by blast
    then show ?thesis using call err Some by simp
  qed simp
  then show ?thesis
    using checkpoint_total [OF assms(1), of "ce_clk env" "toRecord tok" st "cf_ttl cfg"] call err
    by (auto simp: held_by_def)
qed

lemma client_release_recorded:
  assumes "inv s" and "client_release b cfg env s tok m = (s', evs, None)"
  shows "inv s' \<and> declarable m \<and> (\<exists>row row'. view s (tk_work tok) = Some row \<and> held_by row (toRecord tok) \<and>
    view s' (tk_work tok) = Some row' \<and> held_by row' (toRecord tok) \<and> row_exit row' = m \<and>
    row_checkpoint row' = row_checkpoint row)"
proof -
  obtain t err where call: "b_release b (ce_ctx env) (ce_clk env) s (toRecord tok) m = (t, err)"
    by (cases "b_release b (ce_ctx env) (ce_clk env) s (toRecord tok) m")
  have err: "err = None" "t = s'" "declarable m"
    using assms(2) call
    by (auto simp: client_release_def op_error_def declarable_def split: if_splits option.splits)
  have "ce_ctx env = None"
  proof (cases "ce_ctx env")
    case (Some e)
    obtain e' where "b_release b (Some e) (ce_clk env) s (toRecord tok) m = (s, Some e')"
      using release_ctx [OF err(3)] by blast
    then show ?thesis using call err Some by simp
  qed simp
  then show ?thesis
    using release_total [OF assms(1), of "ce_clk env" "toRecord tok" m] call err
    by (auto simp: held_by_def)
qed

text \<open>
  A run that returns nil: the work function returned, and the store now holds the token's row with
  the declared exit and the final state, for the next holder to inherit.
\<close>

lemma run_records_exit:
  assumes "ru_lease r = client_lease b cfg" and "runner_run r w workID = (w', Done None)"
    and work: "\<And>w1 tok w2 cp w4 out. l_acquire (client_lease b cfg) CallerCtx w workID (ru_acquire r) = (w1, Inr tok) \<Longrightarrow>
      l_read_checkpoint (client_lease b cfg) CallerCtx w1 tok = (w2, Inr cp) \<Longrightarrow>
      ru_fn r w2 tok cp = (w4, out) \<Longrightarrow> inv (cw_store w4) \<and>
      (\<forall>n. others_ok tok (ae_before (cw_envs w4 n))) \<and>
      issued (cw_store w4) + 2 * (length (ae_before (cw_envs w4 (cw_n w4))) +
        length (ae_before (cw_envs w4 (Suc (cw_n w4)))) + 2) < token_limit"
  shows "\<exists>w1 tok w3 cp w4 st werr row. l_acquire (client_lease b cfg) CallerCtx w workID (ru_acquire r) = (w1, Inr tok) \<and>
    l_read_checkpoint (client_lease b cfg) CallerCtx w1 tok = (w3, Inr cp) \<and> ru_fn r w3 tok cp = (w4, Returned st werr) \<and>
    view (cw_store w') (tk_work tok) = Some row \<and> held_by row (toRecord tok) \<and>
    row_exit row = (if err_matches werr ErrRetire then ExitRetired else ExitFinished) \<and>
    (werr = None \<or> err_matches werr ErrRetire) \<and>
    (\<forall>s. st = Some s \<longrightarrow> row_checkpoint row = normalize_state (Some s))"
proof -
  obtain w1 w2 tok cp w4 st werr w6 where
    start: "l_acquire (client_lease b cfg) CallerCtx w workID (ru_acquire r) = (w1, Inr tok)"
      "l_read_checkpoint (client_lease b cfg) CallerCtx w1 tok = (w2, Inr cp)"
    and run: "ru_fn r w2 tok cp = (w4, Returned st werr)"
      "run_finish r w4 tok st werr (cw_cause w4) = (w6, None)" "w' = w6"
    using runner_success [OF assms(2)] unfolding assms(1) by (metis client_lease_sel(4,5,6))
  note w4 = work [OF start run(1)]
  obtain w5 m where fin: "m = (if err_matches werr ErrRetire then ExitRetired else ExitFinished)"
    "werr = None \<or> err_matches werr ErrRetire"
    "case st of None \<Rightarrow> w5 = w4
     | Some s \<Rightarrow> l_checkpoint (ru_lease r) (CleanupCtx (ru_cleanup r)) w4 tok (Some s) = (w5, None)"
    "l_release (ru_lease r) (CleanupCtx (ru_cleanup r)) w5 tok m = (w6, None)"
    using run_finish_success [OF run(2)] by metis
  let ?s5 = "cw_store w5"
  let ?cs = "ae_before (cw_envs w5 (cw_n w5))"
  have w5: "inv ?s5 \<and> others_ok tok ?cs \<and> room ?s5 ?cs \<and>
    (\<forall>s. st = Some s \<longrightarrow> (\<exists>row. view ?s5 (tk_work tok) = Some row \<and> held_by row (toRecord tok) \<and>
       row_checkpoint row = normalize_state (Some s)))"
  proof (cases st)
    case None
    then show ?thesis using fin(3) w4 by (simp add: room_def)
  next
    case (Some s)
    let ?env = "cw_envs w4 (cw_n w4)"
    let ?t = "b_run b (ae_before ?env) (cw_store w4)"
    obtain s' evs x where cp: "client_checkpoint b cfg (ae_call ?env) ?t tok (Some s) = (s', evs, x)"
      by (cases "client_checkpoint b cfg (ae_call ?env) ?t tok (Some s)")
    have cp': "x = None" "w5 = w4\<lparr>cw_store := s', cw_n := Suc (cw_n w4), cw_log := cw_log w4 @ evs\<rparr>"
      using fin(3) Some assms(1) cp by (auto simp: cw_op_def Let_def)
    have sched: "schedule_ok (ae_before ?env)" and "room (cw_store w4) (ae_before ?env)"
      using w4 others_ok_schedule by (auto simp: room_def)
    then have t: "inv ?t" "issued ?t \<le> issued (cw_store w4) + 2 * length (ae_before ?env)"
      using run_inv [of "cw_store w4" "ae_before ?env"] w4 by auto
    have "issued ?t < token_limit" using t(2) w4 by simp
    from client_checkpoint_wrote [OF t(1) this cp [unfolded cp'(1)]] show ?thesis
      using w4 t(2) cp'(2) Some by (simp add: room_def)
  qed
  obtain s' evs where rel: "client_release b cfg (ae_call (cw_envs w5 (cw_n w5))) (b_run b ?cs ?s5) tok m = (s', evs, None)"
    "cw_store w6 = s'"
    using fin(4) assms(1) by (auto simp: cw_op_def Let_def split: prod.splits)
  have inv: "inv (b_run b ?cs ?s5)" using run_inv [of ?s5 ?cs] w5 others_ok_schedule by blast
  obtain row row' where row: "view (b_run b ?cs ?s5) (tk_work tok) = Some row" "held_by row (toRecord tok)"
    "view s' (tk_work tok) = Some row'" "held_by row' (toRecord tok)" "row_exit row' = m"
    "row_checkpoint row' = row_checkpoint row"
    using client_release_recorded [OF inv rel(1)] by blast
  have "row_checkpoint row = normalize_state (Some s)" if "st = Some s" for s
    using others_keep_row [of ?s5 ?cs tok] w5 that row(1,2) by (auto simp: superseded_def held_by_def)
  then show ?thesis using start run(1,3) row rel(2) fin(1,2) by (intro exI conjI) auto
qed

end

definition ex_lease :: "memory_backend cworld lease" where
  "ex_lease = client_lease memory (ex_cfg ''a'')"

definition ex_world :: "memory_backend cworld" where
  "ex_world = \<lparr>cw_store = memory_new, cw_envs = ex_envs, cw_n = 0, cw_cause = None, cw_log = []\<rparr>"

definition ex_run_config :: "memory_backend cworld runner_config" where
  "ex_run_config = \<lparr>rg_lease = Some ex_lease, rg_fn = Some (\<lambda>w tok cp. (w, Returned (Some [7]) None)),
     rg_acquire = [], rg_renewal = [], rg_cleanup = 0\<rparr>"

definition ex_runner :: "memory_backend cworld runner" where
  "ex_runner = \<lparr>ru_lease = ex_lease, ru_fn = (\<lambda>w tok cp. (w, Returned (Some [7]) None)),
     ru_acquire = [], ru_renewal = [], ru_cleanup = 5 * second\<rparr>"

lemma ex_NewRunner: "NewRunner ex_run_config = Inr ex_runner"
  by (simp add: NewRunner_def ex_run_config_def ex_runner_def defaultCleanupTimeout_def)

lemmas ex_run_simps =
  ex_lease_def ex_world_def ex_runner_def client_lease_def cw_op_def ex_client_simps ex_envs_def
  runner_run_def run_finish_def run_release_def work_mode_def
  client_checkpoint_def client_release_def client_read_checkpoint_def mem_checkpoint_def mem_release_def
  mem_read_checkpoint_def fenced_events_def op_error_def toRecord_def releaseGracePeriod_def

lemma ex_run:
  obtains w' where "runner_run ex_runner ex_world ''w'' = (w', Done None)"
    "\<exists>row. cw_store w' = \<lparr>records = [(''w'', row)], seq = 1\<rparr> \<and> row_exit row = ExitFinished \<and> row_checkpoint row = Some [7]"
  by (simp add: ex_run_simps)

definition ex_run_trace :: "lcall list" where
  "ex_run_trace =
     (let tok = ex_token ''a'' 1 1000005; c = CleanupCtx (5 * second)
      in [CAcquire ''w'' (Inr tok), CRead tok (Inr zero_checkpoint), CStart tok,
          CWork tok zero_checkpoint (Returned (Some [7]) None), CStop None,
          CCheckpoint c tok (Some [7]) None, CRelease c tok ExitFinished None, CStop None])"

lemma ex_traced_run:
  obtains w' where "runner_run (traced_runner ex_runner) (ex_world, []) ''w'' =
    ((w', ex_run_trace), Done None)"
  by (simp add: ex_run_simps zero_checkpoint_def ex_run_trace_def)

theorem run_lifecycle_witness:
  "lifecycle (CleanupCtx (5 * second)) ''w'' ex_run_trace (Done None)"
proof (rule ex_traced_run)
  fix w' assume run: "runner_run (traced_runner ex_runner) (ex_world, []) ''w'' =
    ((w', ex_run_trace), Done None)"
  show ?thesis using run_lifecycle [OF ex_NewRunner run] by (simp add: ex_runner_def)
qed

text \<open>
  C26. A nil result is a recorded exit. If \<open>Run\<close> over the memory backend returns nil, the work
  function ran and returned nil or \<open>ErrRetire\<close>, and what the next holder of the work ID inherits
  is the final state it returned, if any, exit finished (retired after \<open>ErrRetire\<close>), and this
  holder's ID; whatever other clients did before the checkpoint and the release.
\<close>

theorem run_nil_is_recorded:
  assumes "ru_lease r = client_lease memory cfg" and "runner_run r w workID = (w', Done None)"
    and "\<And>w1 tok w2 cp w4 out. l_acquire (client_lease memory cfg) CallerCtx w workID (ru_acquire r) = (w1, Inr tok) \<Longrightarrow>
      l_read_checkpoint (client_lease memory cfg) CallerCtx w1 tok = (w2, Inr cp) \<Longrightarrow>
      ru_fn r w2 tok cp = (w4, out) \<Longrightarrow> mem_inv (cw_store w4) \<and>
      (\<forall>n. others_ok tok (ae_before (cw_envs w4 n))) \<and>
      mem_issued (cw_store w4) + 2 * (length (ae_before (cw_envs w4 (cw_n w4))) +
        length (ae_before (cw_envs w4 (Suc (cw_n w4)))) + 2) < token_limit"
  shows "\<exists>w2 tok cp w4 st werr. ru_fn r w2 tok cp = (w4, Returned st werr) \<and>
    (werr = None \<or> err_matches werr ErrRetire) \<and>
    (let next = inherited (mem_view (cw_store w') (tk_work tok))
     in cp_prev_exit next = (if err_matches werr ErrRetire then ExitRetired else ExitFinished) \<and>
        cp_prev_holder next = tk_holder tok \<and>
        (\<forall>s. st = Some s \<longrightarrow> cp_state next = normalize_state (Some s)))"
  using mem.run_records_exit [OF assms]
  by (fastforce simp: inherited_def held_by_def Let_def)

theorem run_nil_is_recorded_witness:
  "\<exists>w' w2 tok cp w4 st werr. runner_run ex_runner ex_world ''w'' = (w', Done None) \<and>
     ru_fn ex_runner w2 tok cp = (w4, Returned st werr) \<and>
     cp_prev_exit (inherited (mem_view (cw_store w') (tk_work tok))) \<in> {ExitFinished, ExitRetired}"
proof (rule ex_run)
  fix w' assume run: "runner_run ex_runner ex_world ''w'' = (w', Done None)"
  have L: "ru_lease ex_runner = client_lease memory (ex_cfg ''a'')"
    by (simp add: ex_runner_def ex_lease_def)
  have work: "mem_inv (cw_store w4) \<and> (\<forall>n. others_ok tok (ae_before (cw_envs w4 n))) \<and>
      mem_issued (cw_store w4) + 2 * (length (ae_before (cw_envs w4 (cw_n w4))) +
        length (ae_before (cw_envs w4 (Suc (cw_n w4)))) + 2) < token_limit"
    if "l_acquire (client_lease memory (ex_cfg ''a'')) CallerCtx ex_world ''w'' (ru_acquire ex_runner) = (w1, Inr tok)"
      "l_read_checkpoint (client_lease memory (ex_cfg ''a'')) CallerCtx w1 tok = (w2, Inr cp)"
      "ru_fn ex_runner w2 tok cp = (w4, out)" for w1 tok w2 cp w4 out
    using that by (auto simp: ex_run_simps others_ok_def)
  have "\<exists>w2 tok cp w4 st werr. ru_fn ex_runner w2 tok cp = (w4, Returned st werr) \<and>
    (werr = None \<or> err_matches werr ErrRetire) \<and>
    (let next = inherited (mem_view (cw_store w') (tk_work tok))
     in cp_prev_exit next = (if err_matches werr ErrRetire then ExitRetired else ExitFinished) \<and>
        cp_prev_holder next = tk_holder tok \<and>
        (\<forall>s. st = Some s \<longrightarrow> cp_state next = normalize_state (Some s)))"
    by (rule run_nil_is_recorded [OF L run]) (rule work)
  then obtain w2 tok cp w4 st werr where res: "ru_fn ex_runner w2 tok cp = (w4, Returned st werr)"
    "cp_prev_exit (inherited (mem_view (cw_store w') (tk_work tok))) =
       (if err_matches werr ErrRetire then ExitRetired else ExitFinished)"
    unfolding Let_def by blast
  have "cp_prev_exit (inherited (mem_view (cw_store w') (tk_work tok))) \<in> {ExitFinished, ExitRetired}"
    using res(2) by simp
  then show ?thesis using run res(1) by blast
qed

end
