(* ===== verification/Leader.thy ===== *)
theory Leader
  imports Runner
begin

text \<open>
  \<open>leader/leader.go\<close>: \<open>Elect\<close>, one term of leadership.

  The callbacks of the configuration and the function that leads are functions on the world; so is
  a sleep, which stands for the \<open>select\<close> between a timer and the context. \<open>leader_env\<close> holds
  what \<open>Elect\<close> reads besides: the errors of its context and of the renewal context, and the draw
  of \<open>rand.Float64()\<close>.
\<close>

record 'w leader_env =
  le_sleep :: "duration \<Rightarrow> 'w \<Rightarrow> 'w"
  le_ctx_err :: "'w \<Rightarrow> ctx_err"
  le_renew_err :: "'w \<Rightarrow> ctx_err"
  le_draw :: "'w \<Rightarrow> int"

record 'w elect_config =
  ec_acquire :: "acquire_option list"
  ec_renewal :: "renewal_option list"
  ec_idle :: duration
  ec_backoff :: duration
  ec_cleanup :: duration
  ec_on_elected :: "('w \<Rightarrow> token \<Rightarrow> 'w) option"
  ec_on_lost :: "('w \<Rightarrow> token \<Rightarrow> 'w) option"
  ec_on_relinquished :: "('w \<Rightarrow> token \<Rightarrow> 'w) option"

definition defaultIdleInterval :: duration where "defaultIdleInterval = second"

definition idleJitter :: int where "idleJitter = double_0_20"

definition leader_jitterWait :: "int \<Rightarrow> duration \<Rightarrow> duration" where
  "leader_jitterWait draw base = wrap64 (base + fmul (fmul idleJitter (fl (base * fl_unit) 1)) draw div fl_unit)"

definition callback :: "('w \<Rightarrow> token \<Rightarrow> 'w) option \<Rightarrow> 'w \<Rightarrow> token \<Rightarrow> 'w" where
  "callback f w tok = (case f of None \<Rightarrow> w | Some g \<Rightarrow> g w tok)"

definition elect_backoff :: "'w leader_env \<Rightarrow> 'w elect_config \<Rightarrow> 'w \<Rightarrow> 'w" where
  "elect_backoff env cfg w = (if 0 < ec_backoff cfg then le_sleep env (ec_backoff cfg) w else w)"

text \<open>Step 2's pacing of a failed \<open>Acquire\<close>.\<close>

definition elect_pace :: "'w leader_env \<Rightarrow> 'w elect_config \<Rightarrow> 'w \<Rightarrow> gerror \<Rightarrow> 'w" where
  "elect_pace env cfg w e =
     (if errors_is e CtxCanceled \<or> errors_is e CtxDeadlineExceeded then w
      else if errors_is e ErrLeaseHeld then
        (let idle = (if ec_idle cfg \<le> 0 then defaultIdleInterval else ec_idle cfg)
         in le_sleep env (leader_jitterWait (le_draw env w) idle) w)
      else elect_backoff env cfg w)"

text \<open>Steps 8 to 13.\<close>

definition elect_finish ::
  "'w leader_env \<Rightarrow> 'w lease \<Rightarrow> 'w elect_config \<Rightarrow> 'w \<Rightarrow> token \<Rightarrow> gerror option \<Rightarrow> gerror option \<Rightarrow>
   'w \<times> gerror option" where
  "elect_finish env L cfg w tok fnErr cause =
     (if err_matches fnErr ErrFenced \<or> err_matches cause ErrFenced then (w, Some ErrFenced)
      else if err_matches cause ErrLeaseWindowExhausted then
        (elect_backoff env cfg w, if fnErr = None then map_option (Wrap ''leader'') cause else fnErr)
      else
        let (mode, result) = work_mode fnErr;
            cleanup = (if ec_cleanup cfg \<le> 0 then defaultCleanupTimeout else ec_cleanup cfg);
            (w1, relErr) = l_release L (CleanupCtx cleanup) w tok mode;
            w2 = (if relErr = None \<and> mode \<noteq> ExitAbandoned then callback (ec_on_relinquished cfg) w1 tok else w1)
        in if err_matches relErr ErrFenced then (w2, Some ErrFenced)
           else (elect_backoff env cfg w2,
                 if relErr \<noteq> None \<and> result = None then map_option (Wrap ''leader: release'') relErr else result))"

definition elect ::
  "'w leader_env \<Rightarrow> 'w \<Rightarrow> 'w lease option \<Rightarrow> string \<Rightarrow> 'w elect_config \<Rightarrow> ('w \<Rightarrow> 'w \<times> fn_outcome) option \<Rightarrow>
   'w \<times> run_result" where
  "elect env w lease workID cfg fn =
     (case lease of
        None \<Rightarrow> (w, Done (Some (ConfigError ''leader: lease is required'')))
      | Some L \<Rightarrow>
          (case fn of
             None \<Rightarrow> (w, Done (Some (ConfigError ''leader: function is required'')))
           | Some f \<Rightarrow>
               let (w1, acq) = l_acquire L CallerCtx w workID (ec_acquire cfg)
               in case acq of
                    Inl e \<Rightarrow> (elect_pace env cfg w1 e, Done (Some e))
                  | Inr tok \<Rightarrow>
                      let w2 = callback (ec_on_elected cfg) w1 tok;
                          w3 = l_start_renewal L CallerCtx w2 tok (ec_renewal cfg);
                          (w4, out) = f w3
                      in case out of
                           FnPanicked \<Rightarrow> (l_stop_renewal L w4, Propagated)
                         | FnReturned fnErr \<Rightarrow>
                             let w5 = (if le_renew_err env w4 \<noteq> None \<and> le_ctx_err env w4 = None
                                       then callback (ec_on_lost cfg) w4 tok else w4);
                                 w6 = l_stop_renewal L w5;
                                 (w7, res) = elect_finish env L cfg w6 tok fnErr (l_cause L w6)
                             in (l_stop_renewal L w7, Done res)))"

section \<open>The calls of a term\<close>

text \<open>Any term, with its callbacks, sleeps and function recorded.\<close>

definition traced_env :: "'w leader_env \<Rightarrow> ('w \<times> lcall list) leader_env" where
  "traced_env env =
     \<lparr>le_sleep = (\<lambda>d (w, t). (le_sleep env d w, t @ [CSleep d])), le_ctx_err = (\<lambda>(w, t). le_ctx_err env w),
      le_renew_err = (\<lambda>(w, t). le_renew_err env w), le_draw = (\<lambda>(w, t). le_draw env w)\<rparr>"

definition traced_callback :: "(token \<Rightarrow> lcall) \<Rightarrow> ('w \<Rightarrow> token \<Rightarrow> 'w) option \<Rightarrow> ('w \<times> lcall list \<Rightarrow> token \<Rightarrow> 'w \<times> lcall list) option" where
  "traced_callback c f = Some (\<lambda>(w, t) tok. (callback f w tok, t @ [c tok]))"

definition traced_config :: "'w elect_config \<Rightarrow> ('w \<times> lcall list) elect_config" where
  "traced_config cfg =
     \<lparr>ec_acquire = ec_acquire cfg, ec_renewal = ec_renewal cfg, ec_idle = ec_idle cfg, ec_backoff = ec_backoff cfg,
      ec_cleanup = ec_cleanup cfg, ec_on_elected = traced_callback CElected (ec_on_elected cfg),
      ec_on_lost = traced_callback CLost (ec_on_lost cfg),
      ec_on_relinquished = traced_callback CRelinquished (ec_on_relinquished cfg)\<rparr>"

definition traced_fn ::
  "'w leader_env \<Rightarrow> ('w \<Rightarrow> 'w \<times> fn_outcome) \<Rightarrow> 'w \<times> lcall list \<Rightarrow> ('w \<times> lcall list) \<times> fn_outcome" where
  "traced_fn env f =
     (\<lambda>(w, t). let (w', out) = f w in ((w', t @ [CFn out (le_renew_err env w') (le_ctx_err env w')]), out))"

definition traced_elect ::
  "'w leader_env \<Rightarrow> 'w \<Rightarrow> 'w lease \<Rightarrow> string \<Rightarrow> 'w elect_config \<Rightarrow> ('w \<Rightarrow> 'w \<times> fn_outcome) \<Rightarrow>
   ('w \<times> lcall list) \<times> run_result" where
  "traced_elect env w L workID cfg f =
     elect (traced_env env) (w, []) (Some (traced_lease L)) workID (traced_config cfg) (Some (traced_fn env f))"

lemma callback_None [simp]: "callback None w tok = w"
  by (simp add: callback_def)

lemma traced_env_sel [simp]:
  "le_sleep (traced_env env) d (w, t) = (le_sleep env d w, t @ [CSleep d])"
  "le_ctx_err (traced_env env) (w, t) = le_ctx_err env w"
  "le_renew_err (traced_env env) (w, t) = le_renew_err env w"
  "le_draw (traced_env env) (w, t) = le_draw env w"
  by (simp_all add: traced_env_def)

lemma traced_config_sel [simp]:
  "ec_acquire (traced_config cfg) = ec_acquire cfg" "ec_renewal (traced_config cfg) = ec_renewal cfg"
  "ec_idle (traced_config cfg) = ec_idle cfg" "ec_backoff (traced_config cfg) = ec_backoff cfg"
  "ec_cleanup (traced_config cfg) = ec_cleanup cfg"
  "callback (ec_on_elected (traced_config cfg)) (w, t) tok = (callback (ec_on_elected cfg) w tok, t @ [CElected tok])"
  "callback (ec_on_lost (traced_config cfg)) (w, t) tok = (callback (ec_on_lost cfg) w tok, t @ [CLost tok])"
  "callback (ec_on_relinquished (traced_config cfg)) (w, t) tok =
     (callback (ec_on_relinquished cfg) w tok, t @ [CRelinquished tok])"
  by (simp_all add: traced_config_def traced_callback_def callback_def)

lemma traced_fn_sel [simp]:
  "traced_fn env f (w, t) =
     (let (w', out) = f w in ((w', t @ [CFn out (le_renew_err env w') (le_ctx_err env w')]), out))"
  by (simp add: traced_fn_def)

text \<open>The sleep of \<open>BackoffInterval\<close>, and the cleanup context.\<close>

definition backoff_calls :: "duration \<Rightarrow> lcall list" where
  "backoff_calls d = (if 0 < d then [CSleep d] else [])"

definition cleanup_ctx :: "duration \<Rightarrow> ctx_used" where
  "cleanup_ctx d = CleanupCtx (if d \<le> 0 then defaultCleanupTimeout else d)"

lemma elect_backoff_traced [simp]:
  "elect_backoff (traced_env env) (traced_config cfg) (w, t) = (elect_backoff env cfg w, t @ backoff_calls (ec_backoff cfg))"
  by (simp add: elect_backoff_def backoff_calls_def)

text \<open>
  \<open>OnLost\<close> is due when the renewal context is done while the caller's is not. The result is the
  first of: fencing at the release, the function's error, the release's error.
\<close>

definition idle_interval :: "'w elect_config \<Rightarrow> duration" where
  "idle_interval cfg = (if ec_idle cfg \<le> 0 then second else ec_idle cfg)"

definition lost_calls :: "ctx_err \<Rightarrow> ctx_err \<Rightarrow> token \<Rightarrow> lcall list" where
  "lost_calls renewErr ctxErr tok = (if renewErr \<noteq> None \<and> ctxErr = None then [CLost tok] else [])"

definition term_result :: "gerror option \<Rightarrow> gerror option \<Rightarrow> gerror option" where
  "term_result fnErr relErr =
     (if fnErr \<noteq> None \<and> \<not> err_matches fnErr ErrRetire then fnErr
      else map_option (Wrap ''leader: release'') relErr)"

abbreviation ctx_ended :: "gerror \<Rightarrow> bool" where
  "ctx_ended e \<equiv> errors_is e CtxCanceled \<or> errors_is e CtxDeadlineExceeded"

text \<open>
  The sequences of calls of one term and what they return, with its result, for an idle interval
  \<open>ii\<close>, a backoff interval \<open>d\<close> and a cleanup context \<open>c\<close>. As for a run, there is a release only where the lease is kept.
\<close>

inductive term_calls :: "duration \<Rightarrow> duration \<Rightarrow> ctx_used \<Rightarrow> string \<Rightarrow> lcall list \<Rightarrow> run_result \<Rightarrow> bool" where
  cancelled: "ctx_ended e \<Longrightarrow> term_calls ii d c w [CAcquire w (Inl e)] (Done (Some e))"
| held_elsewhere: "\<not> ctx_ended e \<Longrightarrow> errors_is e ErrLeaseHeld \<Longrightarrow>
    term_calls ii d c w [CAcquire w (Inl e), CSleep (leader_jitterWait draw ii)] (Done (Some e))"
| not_elected: "\<not> ctx_ended e \<Longrightarrow> \<not> errors_is e ErrLeaseHeld \<Longrightarrow>
    term_calls ii d c w (CAcquire w (Inl e) # backoff_calls d) (Done (Some e))"
| panicked: "term_calls ii d c w [CAcquire w (Inr tok), CElected tok, CStart tok, CFn FnPanicked re ce, CStop cause] Propagated"
| fenced: "err_matches fnErr ErrFenced \<or> err_matches cause ErrFenced \<Longrightarrow>
    term_calls ii d c w ([CAcquire w (Inr tok), CElected tok, CStart tok, CFn (FnReturned fnErr) re ce] @ lost_calls re ce tok @
      [CStop cause, CStop late]) (Done (Some ErrFenced))"
| exhausted: "\<not> err_matches fnErr ErrFenced \<Longrightarrow> \<not> errors_is e ErrFenced \<Longrightarrow> errors_is e ErrLeaseWindowExhausted \<Longrightarrow>
    term_calls ii d c w ([CAcquire w (Inr tok), CElected tok, CStart tok, CFn (FnReturned fnErr) re ce] @ lost_calls re ce tok @
      [CStop (Some e)] @ backoff_calls d @ [CStop late]) (Done (if fnErr = None then Some (Wrap ''leader'' e) else fnErr))"
| fenced_at_release: "lease_kept fnErr cause \<Longrightarrow> errors_is e ErrFenced \<Longrightarrow>
    term_calls ii d c w ([CAcquire w (Inr tok), CElected tok, CStart tok, CFn (FnReturned fnErr) re ce] @ lost_calls re ce tok @
      [CStop cause, CRelease c tok (exit_due fnErr None) (Some e), CStop late]) (Done (Some ErrFenced))"
| relinquished: "lease_kept fnErr cause \<Longrightarrow> \<not> err_matches relErr ErrFenced \<Longrightarrow>
    term_calls ii d c w ([CAcquire w (Inr tok), CElected tok, CStart tok, CFn (FnReturned fnErr) re ce] @ lost_calls re ce tok @
      [CStop cause, CRelease c tok (exit_due fnErr None) relErr] @
      (if relErr = None \<and> exit_due fnErr None \<noteq> ExitAbandoned then [CRelinquished tok] else []) @
      backoff_calls d @ [CStop late]) (Done (term_result fnErr relErr))"

lemma term_result_None:
  "term_result fnErr relErr = None \<longleftrightarrow> relErr = None \<and> exit_due fnErr None \<noteq> ExitAbandoned"
  by (cases fnErr; cases relErr) (auto simp: term_result_def exit_due_def)

lemma term_nil:
  assumes "term_calls ii d c w t (Done None)"
  shows "\<exists>tok. CRelinquished tok \<in> set t"
  using assms by cases (auto dest!: term_result_None [THEN iffD1, OF sym] split: if_splits)

text \<open>The three ways \<open>elect_finish\<close> goes.\<close>

lemma elect_finish_fenced:
  "err_matches fnErr ErrFenced \<or> err_matches cause ErrFenced \<Longrightarrow>
   elect_finish env L cfg w tok fnErr cause = (w, Some ErrFenced)"
  by (simp add: elect_finish_def)

lemma elect_finish_exhausted:
  assumes "\<not> err_matches fnErr ErrFenced" and "\<not> errors_is e ErrFenced" and "errors_is e ErrLeaseWindowExhausted"
  shows "elect_finish env L cfg w tok fnErr (Some e) =
    (elect_backoff env cfg w, if fnErr = None then Some (Wrap ''leader'' e) else fnErr)"
  using assms by (simp add: elect_finish_def)

lemma elect_finish_release:
  assumes "lease_kept fnErr cause"
    and "l_release L (cleanup_ctx (ec_cleanup cfg)) w tok (exit_due fnErr None) = (w1, rel)"
  shows "elect_finish env L cfg w tok fnErr cause =
    (let w2 = (if rel = None \<and> exit_due fnErr None \<noteq> ExitAbandoned then callback (ec_on_relinquished cfg) w1 tok else w1)
     in if err_matches rel ErrFenced then (w2, Some ErrFenced)
        else (elect_backoff env cfg w2, term_result fnErr rel))"
proof -
  obtain m result where mode: "work_mode fnErr = (m, result)" by (cases "work_mode fnErr")
  note wm = work_mode_cases [OF mode]
  show ?thesis
    using assms mode wm
    by (cases rel; cases fnErr) (simp_all add: elect_finish_def cleanup_ctx_def lease_kept_def term_result_def)
qed

text \<open>After the function has returned, a term takes one of these ends.\<close>

lemma elect_finish_traced:
  assumes "elect_finish (traced_env env) (traced_lease L) (traced_config cfg)
      (w, [CAcquire i (Inr tok), CElected tok, CStart tok, CFn (FnReturned fnErr) re ce] @ lost_calls re ce tok @ [CStop cause])
      tok fnErr cause = ((w', t), res)"
  shows "term_calls (idle_interval cfg) (ec_backoff cfg) (cleanup_ctx (ec_cleanup cfg)) i (t @ [CStop late]) (Done res)"
proof -
  let ?env = "traced_env env" and ?L = "traced_lease L" and ?cfg = "traced_config cfg"
  let ?t = "[CAcquire i (Inr tok), CElected tok, CStart tok, CFn (FnReturned fnErr) re ce] @ lost_calls re ce tok @ [CStop cause]"
  consider "err_matches fnErr ErrFenced \<or> err_matches cause ErrFenced"
    | e where "cause = Some e" "\<not> err_matches fnErr ErrFenced" "\<not> errors_is e ErrFenced" "errors_is e ErrLeaseWindowExhausted"
    | "lease_kept fnErr cause"
    by (cases cause) (auto simp: lease_kept_def)
  then show ?thesis
  proof cases
    case 1
    then show ?thesis using assms fenced [OF 1] by (auto simp: elect_finish_fenced [OF 1])
  next
    case (2 e)
    then have "t = ?t @ backoff_calls (ec_backoff cfg)" "res = (if fnErr = None then Some (Wrap ''leader'' e) else fnErr)"
      using assms by (auto simp: elect_finish_exhausted [OF 2(2,3,4)])
    then show ?thesis
      using exhausted [OF 2(2,3,4), of "idle_interval cfg" "ec_backoff cfg" _ i tok re ce late] 2(1) by simp
  next
    case 3
    let ?m = "exit_due fnErr None"
    obtain w1 rel where rel: "l_release L (cleanup_ctx (ec_cleanup cfg)) w tok ?m = (w1, rel)"
      by (cases "l_release L (cleanup_ctx (ec_cleanup cfg)) w tok ?m")
    let ?t1 = "?t @ [CRelease (cleanup_ctx (ec_cleanup cfg)) tok ?m rel]"
    have "l_release ?L (cleanup_ctx (ec_cleanup ?cfg)) (w, ?t) tok ?m = ((w1, ?t1), rel)"
      using rel by simp
    note fin = elect_finish_release [OF 3 this, of ?env]
    show ?thesis
    proof (cases "err_matches rel ErrFenced")
      case True
      then obtain e where e: "rel = Some e" "errors_is e ErrFenced" by (cases rel) auto
      then have "t = ?t1" "res = Some ErrFenced" using fin assms by auto
      then show ?thesis using fenced_at_release [OF 3 e(2), of "idle_interval cfg" "ec_backoff cfg" _ i tok re ce late] e(1) by simp
    next
      case False
      have "t = ?t1 @ (if rel = None \<and> ?m \<noteq> ExitAbandoned then [CRelinquished tok] else []) @ backoff_calls (ec_backoff cfg)"
        "res = term_result fnErr rel"
        using fin assms False by (auto simp: Let_def split: if_splits)
      then show ?thesis
        using relinquished [OF 3 False, of "idle_interval cfg" "ec_backoff cfg" "cleanup_ctx (ec_cleanup cfg)" i tok re ce late] by simp
    qed
  qed
qed

text \<open>A failed \<open>Acquire\<close> ends the term too.\<close>

lemma elect_pace_traced:
  assumes "elect_pace (traced_env env) (traced_config cfg) (w, [CAcquire i (Inl e)]) e = (w', t)"
  shows "term_calls (idle_interval cfg) (ec_backoff cfg) c i t (Done (Some e))"
proof (cases "ctx_ended e")
  case True
  then have "t = [CAcquire i (Inl e)]" using assms by (simp add: elect_pace_def)
  then show ?thesis using cancelled [OF True] by simp
next
  case False
  then show ?thesis
    using assms held_elsewhere [OF False] not_elected [OF False]
    by (auto simp: elect_pace_def idle_interval_def defaultIdleInterval_def Let_def split: if_splits)
qed

section \<open>Properties\<close>

text \<open>
  C15. A term of leadership. Whatever the lease client, the callbacks and the function do, \<open>Elect\<close>
  calls them in one of the orders of \<open>term_calls\<close>, and what the calls return decides which one and
  its result. A failed \<open>Acquire\<close> ends the term with its error: at once for a context error, after one
  wait of the jittered idle interval (1s by default) if another holds the lease, after the backoff otherwise. An elected leader is told before
  renewal starts, and the function runs once; \<open>OnLost\<close> is called exactly if the renewal context is
  done then and the caller's is not. Renewal stops before anything is released. If the function's
  error or the cause of the renewal context reports fencing the result is \<open>ErrFenced\<close>, and if the
  cause reports an exhausted window it is the function's error or else that cause: both without a
  release, and there is none after a panic. Otherwise there is one release, on the cleanup context,
  as finished, retired or abandoned after the function's error, and \<open>OnRelinquished\<close> exactly if it
  was recorded as finished or retired. The backoff is slept on every non-fencing path and on no
  fencing path, and nil means relinquished.
\<close>

theorem elect_term:
  assumes "traced_elect env w L workID cfg f = ((w', t), res)"
  shows "term_calls (idle_interval cfg) (ec_backoff cfg) (cleanup_ctx (ec_cleanup cfg)) workID t res \<and>
    (res = Done None \<longrightarrow> (\<exists>tok. CRelinquished tok \<in> set t))"
proof -
  obtain w1 acq where acq: "l_acquire L CallerCtx w workID (ec_acquire cfg) = (w1, acq)"
    by (cases "l_acquire L CallerCtx w workID (ec_acquire cfg)")
  have "term_calls (idle_interval cfg) (ec_backoff cfg) (cleanup_ctx (ec_cleanup cfg)) workID t res"
  proof (cases acq)
    case (Inl e)
    then have "elect_pace (traced_env env) (traced_config cfg) (w1, [CAcquire workID (Inl e)]) e = (w', t)"
      "res = Done (Some e)"
      using assms acq by (simp_all add: traced_elect_def elect_def)
    then show ?thesis using elect_pace_traced by simp
  next
    case (Inr tok)
    let ?w3 = "l_start_renewal L CallerCtx (callback (ec_on_elected cfg) w1 tok) tok (ec_renewal cfg)"
    obtain w4 out where f: "f ?w3 = (w4, out)" by (cases "f ?w3")
    define re ce where "re = le_renew_err env w4" and "ce = le_ctx_err env w4"
    let ?t = "[CAcquire workID (Inr tok), CElected tok, CStart tok, CFn out re ce]"
    show ?thesis
    proof (cases out)
      case FnPanicked
      then have "t = ?t @ [CStop (l_cause L (l_stop_renewal L w4))]" "res = Propagated"
        using assms acq Inr f by (auto simp: traced_elect_def elect_def re_def ce_def)
      then show ?thesis using panicked FnPanicked by simp
    next
      case (FnReturned fnErr)
      define w5 where "w5 = (if re \<noteq> None \<and> ce = None then callback (ec_on_lost cfg) w4 tok else w4)"
      let ?w6 = "l_stop_renewal L w5"
      obtain w7 t7 e where fin: "elect_finish (traced_env env) (traced_lease L) (traced_config cfg)
          (?w6, ?t @ lost_calls re ce tok @ [CStop (l_cause L ?w6)]) tok fnErr (l_cause L ?w6) = ((w7, t7), e)"
        by (metis surj_pair)
      have "t = t7 @ [CStop (l_cause L (l_stop_renewal L w7))]" "res = Done e"
        using assms acq Inr f FnReturned fin
        by (auto simp: traced_elect_def elect_def w5_def lost_calls_def re_def ce_def split: if_splits)
      then show ?thesis using elect_finish_traced [OF fin [unfolded FnReturned]] by simp
    qed
  qed
  then show ?thesis using term_nil by blast
qed

definition ex_env :: "memory_backend cworld leader_env" where
  "ex_env = \<lparr>le_sleep = (\<lambda>d w. w), le_ctx_err = (\<lambda>w. None), le_renew_err = (\<lambda>w. None), le_draw = (\<lambda>w. 0)\<rparr>"

definition ex_elect :: "memory_backend cworld elect_config" where
  "ex_elect = \<lparr>ec_acquire = [], ec_renewal = [], ec_idle = 0, ec_backoff = 7, ec_cleanup = 0,
     ec_on_elected = None, ec_on_lost = None, ec_on_relinquished = None\<rparr>"

lemmas ex_elect_simps =
  ex_env_def ex_elect_def traced_elect_def elect_def elect_finish_def elect_pace_def elect_backoff_def
  backoff_calls_def defaultCleanupTimeout_def

definition ex_term_trace :: "lcall list" where
  "ex_term_trace =
     (let tok = ex_token ''a'' 1 1000005
      in [CAcquire ''w'' (Inr tok), CElected tok, CStart tok, CFn (FnReturned None) None None, CStop None,
          CRelease (CleanupCtx (5 * second)) tok ExitFinished None, CRelinquished tok, CSleep 7, CStop None])"

lemma ex_term:
  obtains w' where "traced_elect ex_env ex_world ex_lease ''w'' ex_elect (\<lambda>w. (w, FnReturned None)) =
    ((w', ex_term_trace), Done None)"
  by (simp add: ex_elect_simps ex_run_simps ex_term_trace_def)

theorem elect_term_witness:
  "term_calls second 7 (CleanupCtx (5 * second)) ''w'' ex_term_trace (Done None)"
proof (rule ex_term)
  fix w' assume run: "traced_elect ex_env ex_world ex_lease ''w'' ex_elect (\<lambda>w. (w, FnReturned None)) =
    ((w', ex_term_trace), Done None)"
  show ?thesis
    using elect_term [OF run] by (simp add: ex_elect_def idle_interval_def cleanup_ctx_def defaultCleanupTimeout_def)
qed

lemma leader_jitterWait_range:
  assumes "0 \<le> base" and "base \<le> 2 ^ 49" and "0 \<le> draw" and "draw < fl_unit"
  shows "base \<le> leader_jitterWait draw base" and "5 * leader_jitterWait draw base \<le> 6 * base"
proof -
  let ?x = "fmul (fmul double_0_20 (fl (base * fl_unit) 1)) draw div fl_unit"
  have x: "0 \<le> ?x" "5 * ?x \<le> base" using fifth_jitter_range [OF assms] by simp_all
  then have "wrap64 (base + ?x) = base + ?x" using assms by (intro wrap64_id) (simp add: is_int64_def)
  then show "base \<le> leader_jitterWait draw base" and "5 * leader_jitterWait draw base \<le> 6 * base"
    using x by (simp_all add: leader_jitterWait_def idleJitter_def)
qed

text \<open>
  Pacing of a failed election. After an \<open>Acquire\<close> error \<open>Elect\<close> returns that error
  unchanged, without electing: at once for a context error; after one wait of between the idle
  interval (1s if not positive) and 1.2 times it when another holder has the lease; and after the
  backoff interval, if positive, otherwise. The floating-point jitter stays within its bounds for
  idle intervals up to \<open>2 ^ 49\<close> ns (6 days).
\<close>

theorem elect_failed_pacing:
  assumes "l_acquire L CallerCtx w workID (ec_acquire cfg) = (w1, Inl e)"
    and "ec_idle cfg \<le> 2 ^ 49" and "0 \<le> le_draw env w1" and "le_draw env w1 < fl_unit"
  shows "\<exists>w' sl. traced_elect env w L workID cfg f = ((w', CAcquire workID (Inl e) # sl), Done (Some e)) \<and>
    (if errors_is e CtxCanceled \<or> errors_is e CtxDeadlineExceeded then sl = []
     else if errors_is e ErrLeaseHeld then
       (let idle = if ec_idle cfg \<le> 0 then second else ec_idle cfg
        in \<exists>d. sl = [CSleep d] \<and> idle \<le> d \<and> 5 * d \<le> 6 * idle)
     else sl = backoff_calls (ec_backoff cfg))"
proof -
  let ?idle = "if ec_idle cfg \<le> 0 then second else ec_idle cfg"
  have "?idle \<le> leader_jitterWait (le_draw env w1) ?idle \<and> 5 * leader_jitterWait (le_draw env w1) ?idle \<le> 6 * ?idle"
    using leader_jitterWait_range [of ?idle "le_draw env w1"] assms(2-4) by (auto split: if_splits)
  then show ?thesis
    using assms(1) by (auto simp: traced_elect_def elect_def elect_pace_def defaultIdleInterval_def Let_def)
qed

theorem elect_failed_pacing_witness:
  "\<exists>w' d. traced_elect ex_env (ex_world\<lparr>cw_store := ex_mem (ex_row ''b'' 2 10)\<rparr>) ex_lease ''w'' ex_elect
      (\<lambda>w. (w, FnReturned None)) =
     ((w', [CAcquire ''w'' (Inl (Wrap ''worklease: Acquire'' ErrLeaseHeld)), CSleep d]), Done (Some (Wrap ''worklease: Acquire'' ErrLeaseHeld))) \<and> second \<le> d"
proof -
  obtain w1 where acq: "l_acquire ex_lease CallerCtx (ex_world\<lparr>cw_store := ex_mem (ex_row ''b'' 2 10)\<rparr>) ''w'' (ec_acquire ex_elect) =
      (w1, Inl (Wrap ''worklease: Acquire'' ErrLeaseHeld))"
    by (simp add: ex_run_simps ex_elect_def)
  show ?thesis
    using elect_failed_pacing [OF acq, of ex_env "\<lambda>w. (w, FnReturned None)"]
    by (auto simp: ex_elect_def ex_env_def Let_def)
qed

end
