(* ===== verification/Pool.thy ===== *)
theory Pool
  imports Runner
begin

text \<open>
  \<open>pool/pool.go\<close>: a pool of slots, one per work ID.

  Every slot is a goroutine that loops over \<open>Runner.Run\<close>. A slot is in a run before its work
  function, in its work function, in a run after it, asleep, or has exited. \<open>pool_step\<close> gives the
  state after one action of one slot, or of the caller that cancels the context; the outcome of a
  run and of a work function is part of the action. \<open>pl_ctx\<close> is the error of the internal context
  \<open>runCtx\<close>, \<open>pl_active\<close> the set \<open>ActiveSlots\<close> lists.
\<close>

section \<open>Construction\<close>

definition pool_ErrConfigInvalid :: gerror where
  "pool_ErrConfigInvalid = ConfigError ''pool: invalid configuration''"

definition pool_ErrLeaseRequired :: gerror where
  "pool_ErrLeaseRequired = Wrap ''pool: lease is required'' pool_ErrConfigInvalid"

definition ErrEmptyWorkIDs :: gerror where
  "ErrEmptyWorkIDs = Wrap ''pool: WorkIDs must not be empty'' pool_ErrConfigInvalid"

definition ErrEmptyWorkID :: gerror where
  "ErrEmptyWorkID = Wrap ''pool: work ID must not be empty'' pool_ErrConfigInvalid"

definition ErrDuplicateWorkID :: gerror where
  "ErrDuplicateWorkID = Wrap ''pool: duplicate work ID'' pool_ErrConfigInvalid"

definition ErrWithWaitForLeaseProhibited :: gerror where
  "ErrWithWaitForLeaseProhibited = Wrap ''pool: WithWaitForLease is prohibited in AcquireOptions'' pool_ErrConfigInvalid"

definition pool_ErrWorkFnRequired :: gerror where
  "pool_ErrWorkFnRequired = Wrap ''pool: work function is required'' pool_ErrConfigInvalid"

definition Permanent :: "gerror option \<Rightarrow> gerror" where
  "Permanent err = PermErr True err"

record pool_config =
  pc_work_ids :: "string list"
  pc_acquire :: "acquire_option list"
  pc_renewal :: "renewal_option list"
  pc_cleanup :: duration
  pc_idle :: duration
  pc_rerun :: duration
  pc_backoff :: duration

text \<open>Step 3 of \<open>New\<close>: the first empty or repeated work ID, in index order.\<close>

fun check_work_ids :: "nat \<Rightarrow> (string \<times> nat) list \<Rightarrow> string list \<Rightarrow> gerror option" where
  "check_work_ids i firstIndex [] = None"
| "check_work_ids i firstIndex (workID # ids) =
     (if workID = '''' then Some (Wrap ''pool: New: WorkIDs[]'' ErrEmptyWorkID)
      else case map_of firstIndex workID of
             Some first \<Rightarrow> Some (Wrap ''pool: New: WorkIDs[] and WorkIDs[] are both '' ErrDuplicateWorkID)
           | None \<Rightarrow> check_work_ids (i + 1) (AList.update workID i firstIndex) ids)"

definition default_interval :: "duration \<Rightarrow> duration" where
  "default_interval d = (if d \<le> 0 then second else d)"

definition pool_new :: "'l option \<Rightarrow> pool_config \<Rightarrow> 'f option \<Rightarrow> gerror + 'l \<times> pool_config \<times> 'f" where
  "pool_new lease cfg fn =
     (case lease of
        None \<Rightarrow> Inl pool_ErrLeaseRequired
      | Some L \<Rightarrow>
          if pc_work_ids cfg = [] then Inl ErrEmptyWorkIDs
          else
            (case check_work_ids 0 [] (pc_work_ids cfg) of
               Some e \<Rightarrow> Inl e
             | None \<Rightarrow>
                 if HasWaitForLease (pc_acquire cfg) then Inl ErrWithWaitForLeaseProhibited
                 else
                   (case fn of
                      None \<Rightarrow> Inl pool_ErrWorkFnRequired
                    | Some f \<Rightarrow>
                        Inr (L, cfg\<lparr>pc_idle := default_interval (pc_idle cfg),
                                    pc_rerun := default_interval (pc_rerun cfg),
                                    pc_backoff := default_interval (pc_backoff cfg)\<rparr>, f))))"

section \<open>The slots\<close>

text \<open>
  The runner a slot makes for each iteration. Its work function is the adapter that marks the slot
  active around the pool's own function; the adapter's two ends are the actions \<open>EnterWork\<close> and
  \<open>LeaveWork\<close> below, and the rest of the run is \<open>RunReturns\<close>.
\<close>

definition slot_runner :: "'w lease \<Rightarrow> pool_config \<Rightarrow> 'w work_fn \<Rightarrow> gerror + 'w runner" where
  "slot_runner L cfg slotFn =
     NewRunner \<lparr>rg_lease = Some L, rg_fn = Some slotFn, rg_acquire = pc_acquire cfg,
       rg_renewal = pc_renewal cfg, rg_cleanup = pc_cleanup cfg\<rparr>"

text \<open>The switch after a run: the first case that matches.\<close>

datatype slot_action = DoRetire | DoQuit | DoRerun | DoLost | DoDead | DoIdle | DoBackoff

definition slot_decide :: "gerror option \<Rightarrow> bool \<Rightarrow> ctx_err \<Rightarrow> slot_action" where
  "slot_decide runErr retired ctx =
     (if runErr = None \<and> retired then DoRetire
      else if ctx \<noteq> None then DoQuit
      else case runErr of
             None \<Rightarrow> DoRerun
           | Some e \<Rightarrow>
               if errors_is e ErrFenced then DoLost
               else if errors_as_permanent e = Some True then DoDead
               else if errors_is e ErrLeaseHeld then DoIdle
               else DoBackoff)"

definition pool_jitterWait :: "int \<Rightarrow> duration \<Rightarrow> duration" where
  "pool_jitterWait draw base =
     wrap64 (base + fmul (fmul draw double_0_20) (fl (base * fl_unit) 1) div fl_unit)"

datatype pool_event =
    OnSlotAcquired nat
  | OnSlotLost nat
  | OnSlotBackoff nat gerror duration
  | OnSlotDead nat gerror
  | OnSlotRetired nat

datatype exit_reason = ExitRetire | ExitCancel | ExitDead

datatype slot =
    Running
  | Working
  | Finishing bool
  | Asleep duration
  | Gone exit_reason

record pool_state =
  pl_slots :: "slot list"
  pl_dead :: nat
  pl_ctx :: ctx_err
  pl_active :: "nat set"
  pl_log :: "pool_event list"

definition pool_start :: "pool_config \<Rightarrow> ctx_err \<Rightarrow> pool_state" where
  "pool_start cfg ctx =
     \<lparr>pl_slots = map (\<lambda>_. Running) (pc_work_ids cfg), pl_dead = 0, pl_ctx = ctx, pl_active = {}, pl_log = []\<rparr>"

datatype pool_action =
    EnterWork nat
  | LeaveWork nat "gerror option"
  | RunReturns nat "gerror option" int
  | Wake nat
  | SleepCut nat
  | CancelRun gerror

text \<open>What a slot does after its run returned \<open>runErr\<close>.\<close>

definition run_returned :: "pool_config \<Rightarrow> nat \<Rightarrow> gerror option \<Rightarrow> bool \<Rightarrow> int \<Rightarrow> pool_state \<Rightarrow> pool_state" where
  "run_returned cfg i runErr retired draw p =
     (let goto = (\<lambda>s evs. p\<lparr>pl_slots := (pl_slots p)[i := s], pl_log := pl_log p @ evs\<rparr>)
      in case slot_decide runErr retired (pl_ctx p) of
           DoRetire \<Rightarrow> goto (Gone ExitRetire) [OnSlotRetired i]
         | DoQuit \<Rightarrow> goto (Gone ExitCancel) []
         | DoRerun \<Rightarrow> goto (Asleep (pool_jitterWait draw (pc_rerun cfg))) []
         | DoLost \<Rightarrow> goto Running [OnSlotLost i]
         | DoDead \<Rightarrow>
             (goto (Gone ExitDead) [OnSlotDead i (the runErr)])
               \<lparr>pl_dead := pl_dead p + 1,
                pl_ctx := (if pl_dead p + 1 = length (pc_work_ids cfg) \<and> pl_ctx p = None
                           then Some CtxCanceled else pl_ctx p)\<rparr>
         | DoIdle \<Rightarrow> goto (Asleep (pool_jitterWait draw (pc_idle cfg))) []
         | DoBackoff \<Rightarrow> goto (Asleep (pc_backoff cfg)) [OnSlotBackoff i (the runErr) (pc_backoff cfg)])"

fun pool_step :: "pool_config \<Rightarrow> pool_action \<Rightarrow> pool_state \<Rightarrow> pool_state option" where
  "pool_step cfg (EnterWork i) p =
     (if i < length (pl_slots p) \<and> pl_slots p ! i = Running
      then Some (p\<lparr>pl_slots := (pl_slots p)[i := Working], pl_active := insert i (pl_active p),
                   pl_log := pl_log p @ [OnSlotAcquired i]\<rparr>)
      else None)"
| "pool_step cfg (LeaveWork i err) p =
     (if i < length (pl_slots p) \<and> pl_slots p ! i = Working
      then Some (p\<lparr>pl_slots := (pl_slots p)[i := Finishing (err_matches err ErrRetire)],
                   pl_active := pl_active p - {i}\<rparr>)
      else None)"
| "pool_step cfg (RunReturns i runErr draw) p =
     (if i < length (pl_slots p)
      then (case pl_slots p ! i of
              Running \<Rightarrow> if runErr = None then None else Some (run_returned cfg i runErr False draw p)
            | Finishing retired \<Rightarrow> Some (run_returned cfg i runErr retired draw p)
            | _ \<Rightarrow> None)
      else None)"
| "pool_step cfg (Wake i) p =
     (if i < length (pl_slots p)
      then (case pl_slots p ! i of
              Asleep d \<Rightarrow> Some (p\<lparr>pl_slots := (pl_slots p)[i := Running]\<rparr>) | _ \<Rightarrow> None)
      else None)"
| "pool_step cfg (SleepCut i) p =
     (if i < length (pl_slots p) \<and> pl_ctx p \<noteq> None
      then (case pl_slots p ! i of
              Asleep d \<Rightarrow> Some (p\<lparr>pl_slots := (pl_slots p)[i := Gone ExitCancel]\<rparr>) | _ \<Rightarrow> None)
      else None)"
| "pool_step cfg (CancelRun e) p = (if pl_ctx p = None then Some (p\<lparr>pl_ctx := Some e\<rparr>) else None)"

fun pool_run :: "pool_config \<Rightarrow> pool_action list \<Rightarrow> pool_state \<Rightarrow> pool_state option" where
  "pool_run cfg [] p = Some p"
| "pool_run cfg (a # as) p = (case pool_step cfg a p of None \<Rightarrow> None | Some p' \<Rightarrow> pool_run cfg as p')"

fun gone :: "slot \<Rightarrow> bool" where
  "gone (Gone r) = True"
| "gone s = False"

text \<open>What \<open>Run\<close> returns once every slot has exited.\<close>

definition pool_result :: "pool_config \<Rightarrow> pool_state \<Rightarrow> gerror option option" where
  "pool_result cfg p =
     (if list_all gone (pl_slots p)
      then Some (if pl_dead p = length (pc_work_ids cfg) then Some ErrAllSlotsDead else None)
      else None)"

definition active_slots :: "pool_config \<Rightarrow> pool_state \<Rightarrow> string set" where
  "active_slots cfg p = (\<lambda>i. pc_work_ids cfg ! i) ` pl_active p"

section \<open>Invariants\<close>

lemma pool_run_invariant:
  assumes "\<And>a p p'. P p \<Longrightarrow> pool_step cfg a p = Some p' \<Longrightarrow> P p'"
  shows "P p \<Longrightarrow> pool_run cfg as p = Some p' \<Longrightarrow> P p'"
  by (induction as arbitrary: p) (auto split: option.splits intro: assms)

text \<open>The enabled steps: where the slot was, where it goes, and what else changes.\<close>

lemma pool_stepE:
  assumes "pool_step cfg a p = Some p'"
  obtains (enter) i where "a = EnterWork i" "i < length (pl_slots p)" "pl_slots p ! i = Running"
      "p' = p\<lparr>pl_slots := (pl_slots p)[i := Working], pl_active := insert i (pl_active p),
              pl_log := pl_log p @ [OnSlotAcquired i]\<rparr>"
  | (leave) i err where "a = LeaveWork i err" "i < length (pl_slots p)" "pl_slots p ! i = Working"
      "p' = p\<lparr>pl_slots := (pl_slots p)[i := Finishing (err_matches err ErrRetire)], pl_active := pl_active p - {i}\<rparr>"
  | (returns) i err draw retired where "a = RunReturns i err draw" "i < length (pl_slots p)"
      "pl_slots p ! i = Running \<and> err \<noteq> None \<and> \<not> retired \<or> pl_slots p ! i = Finishing retired"
      "p' = run_returned cfg i err retired draw p"
  | (wake) i d where "a = Wake i" "i < length (pl_slots p)" "pl_slots p ! i = Asleep d"
      "p' = p\<lparr>pl_slots := (pl_slots p)[i := Running]\<rparr>"
  | (cut) i d where "a = SleepCut i" "i < length (pl_slots p)" "pl_slots p ! i = Asleep d" "pl_ctx p \<noteq> None"
      "p' = p\<lparr>pl_slots := (pl_slots p)[i := Gone ExitCancel]\<rparr>"
  | (cancelled) e where "a = CancelRun e" "pl_ctx p = None" "p' = p\<lparr>pl_ctx := Some e\<rparr>"
proof (cases a)
  case (EnterWork i)
  with assms show ?thesis by (intro enter [of i]) (auto split: if_splits)
next
  case (LeaveWork i err)
  with assms show ?thesis by (intro leave [of i err]) (auto split: if_splits)
next
  case (RunReturns i err draw)
  with assms show ?thesis
    by (cases "pl_slots p ! i") (auto split: if_splits intro: returns [of i err draw False] returns [of i err draw])
next
  case (Wake i)
  with assms show ?thesis by (cases "pl_slots p ! i") (auto split: if_splits intro: wake [of i])
next
  case (SleepCut i)
  with assms show ?thesis by (cases "pl_slots p ! i") (auto split: if_splits intro: cut [of i])
next
  case (CancelRun e)
  with assms show ?thesis by (intro cancelled [of e]) (auto split: if_splits)
qed

text \<open>The branches of the switch, with what each needs.\<close>

lemma run_returned_cases:
  obtains (retire) "err = None" "retired" "run_returned cfg i err retired draw p =
      p\<lparr>pl_slots := (pl_slots p)[i := Gone ExitRetire], pl_log := pl_log p @ [OnSlotRetired i]\<rparr>"
  | (quit) "pl_ctx p \<noteq> None" "run_returned cfg i err retired draw p = p\<lparr>pl_slots := (pl_slots p)[i := Gone ExitCancel]\<rparr>"
  | (asleep) d evs where "pl_ctx p = None" "evs = [] \<or> (\<exists>e. err = Some e \<and> evs = [OnSlotBackoff i e d])"
      "run_returned cfg i err retired draw p =
         p\<lparr>pl_slots := (pl_slots p)[i := Asleep d], pl_log := pl_log p @ evs\<rparr>"
  | (lost) e where "err = Some e" "errors_is e ErrFenced" "pl_ctx p = None" "run_returned cfg i err retired draw p =
      p\<lparr>pl_slots := (pl_slots p)[i := Running], pl_log := pl_log p @ [OnSlotLost i]\<rparr>"
  | (dead) e where "err = Some e" "errors_as_permanent e = Some True" "pl_ctx p = None"
      "run_returned cfg i err retired draw p =
         p\<lparr>pl_slots := (pl_slots p)[i := Gone ExitDead], pl_log := pl_log p @ [OnSlotDead i e],
           pl_dead := pl_dead p + 1,
           pl_ctx := (if pl_dead p + 1 = length (pc_work_ids cfg) then Some CtxCanceled else None)\<rparr>"
proof (cases "slot_decide err retired (pl_ctx p)")
  case DoRetire
  then show ?thesis by (intro retire) (auto simp: slot_decide_def run_returned_def Let_def split: if_splits option.splits)
next
  case DoQuit
  then show ?thesis by (intro quit) (auto simp: slot_decide_def run_returned_def Let_def split: if_splits option.splits)
next
  case DoRerun
  then show ?thesis
    by (intro asleep [of "[]" "pool_jitterWait draw (pc_rerun cfg)"])
       (auto simp: slot_decide_def run_returned_def Let_def split: if_splits option.splits)
next
  case DoLost
  then obtain e where "err = Some e" by (auto simp: slot_decide_def split: if_splits option.splits)
  with DoLost show ?thesis
    by (intro lost [of e]) (auto simp: slot_decide_def run_returned_def Let_def split: if_splits)
next
  case DoDead
  then obtain e where "err = Some e" by (auto simp: slot_decide_def split: if_splits option.splits)
  with DoDead show ?thesis
    by (intro dead [of e]) (auto simp: slot_decide_def run_returned_def Let_def split: if_splits)
next
  case DoIdle
  then show ?thesis
    by (intro asleep [of "[]" "pool_jitterWait draw (pc_idle cfg)"])
       (auto simp: slot_decide_def run_returned_def Let_def split: if_splits option.splits)
next
  case DoBackoff
  then show ?thesis
    by (intro asleep [of "[OnSlotBackoff i (the err) (pc_backoff cfg)]" "pc_backoff cfg"])
       (auto simp: slot_decide_def run_returned_def Let_def split: if_splits option.splits)
qed

text \<open>The counters: the dead count is the number of dead slots, and the active set is exact.\<close>

definition dead_slots :: "slot list \<Rightarrow> nat set" where
  "dead_slots xs = {i. i < length xs \<and> xs ! i = Gone ExitDead}"

definition counts :: "nat \<Rightarrow> nat \<Rightarrow> nat set \<Rightarrow> slot list \<Rightarrow> bool" where
  "counts n d active xs \<longleftrightarrow> length xs = n \<and> d = card (dead_slots xs) \<and>
     active = {i. i < length xs \<and> xs ! i = Working}"

abbreviation count_inv :: "pool_config \<Rightarrow> pool_state \<Rightarrow> bool" where
  "count_inv cfg p \<equiv> counts (length (pc_work_ids cfg)) (pl_dead p) (pl_active p) (pl_slots p)"

lemma dead_slots_finite [simp]: "finite (dead_slots xs)"
  by (simp add: dead_slots_def)

lemma dead_slots_other:
  "i < length xs \<Longrightarrow> xs ! i \<noteq> Gone ExitDead \<Longrightarrow> s \<noteq> Gone ExitDead \<Longrightarrow> dead_slots (xs[i := s]) = dead_slots xs"
  by (auto simp: dead_slots_def nth_list_update)

lemma dead_slots_insert: "i < length xs \<Longrightarrow> dead_slots (xs[i := Gone ExitDead]) = insert i (dead_slots xs)"
  by (auto simp: dead_slots_def nth_list_update)

lemma counts_other:
  assumes "counts n d active xs" and "i < length xs" and "xs ! i \<noteq> Gone ExitDead" and "xs ! i \<noteq> Working"
    and "s \<noteq> Gone ExitDead" and "s \<noteq> Working"
  shows "counts n d active (xs[i := s])"
  using assms dead_slots_other [of i xs s] by (auto simp: counts_def nth_list_update)

lemma counts_enter:
  assumes "counts n d active xs" and "i < length xs" and "xs ! i = Running"
  shows "counts n d (insert i active) (xs[i := Working])"
  using assms dead_slots_other [of i xs Working] by (auto simp: counts_def nth_list_update)

lemma counts_leave:
  assumes "counts n d active xs" and "i < length xs" and "xs ! i = Working"
  shows "counts n d (active - {i}) (xs[i := Finishing b])"
  using assms dead_slots_other [of i xs "Finishing b"] by (auto simp: counts_def nth_list_update)

lemma counts_dead:
  assumes "counts n d active xs" and "i < length xs" and "xs ! i \<noteq> Gone ExitDead" and "xs ! i \<noteq> Working"
  shows "counts n (Suc d) active (xs[i := Gone ExitDead])"
proof -
  have "i \<notin> dead_slots xs" using assms(3) by (simp add: dead_slots_def)
  then show ?thesis
    using assms dead_slots_insert [of i xs] by (auto simp: counts_def nth_list_update)
qed

lemma count_inv_returned:
  assumes "count_inv cfg p" and "i < length (pl_slots p)"
    and "pl_slots p ! i \<noteq> Gone ExitDead" and "pl_slots p ! i \<noteq> Working"
  shows "count_inv cfg (run_returned cfg i err retired draw p)"
  by (cases rule: run_returned_cases [of err retired cfg i draw p])
     (simp_all add: counts_other [OF assms] counts_dead [OF assms])

lemma count_inv_step:
  assumes "count_inv cfg p" and "pool_step cfg a p = Some p'"
  shows "count_inv cfg p'"
  using assms(2)
proof (cases rule: pool_stepE)
  case (returns i err draw retired)
  then show ?thesis using count_inv_returned [OF assms(1) returns(2)] by auto
next
  case (enter i)
  then show ?thesis using counts_enter [OF assms(1)] by simp
next
  case (leave i err)
  then show ?thesis using counts_leave [OF assms(1)] by simp
next
  case (wake i d)
  then show ?thesis using counts_other [OF assms(1)] by simp
next
  case (cut i d)
  then show ?thesis using counts_other [OF assms(1)] by simp
next
  case (cancelled e)
  then show ?thesis using assms(1) by simp
qed

lemma count_inv_start: "count_inv cfg (pool_start cfg ctx)"
  by (auto simp: counts_def pool_start_def dead_slots_def)

section \<open>Properties\<close>

lemma check_work_ids_error:
  "check_work_ids i seen ids = Some e \<Longrightarrow> errors_is e pool_ErrConfigInvalid \<and> errors_is e ErrConfigInvalid"
  by (induction ids arbitrary: i seen)
     (auto simp: ErrEmptyWorkID_def ErrDuplicateWorkID_def pool_ErrConfigInvalid_def split: if_splits option.splits)

lemma check_work_ids_None:
  "check_work_ids i seen ids = None \<longleftrightarrow> '''' \<notin> set ids \<and> distinct ids \<and> set ids \<inter> dom (map_of seen) = {}"
  by (induction ids arbitrary: i seen) (auto split: option.splits)

text \<open>
  Construction. \<open>New\<close> builds a pool exactly when a lease and a work function are given, the
  work IDs are non-empty, distinct and not the empty string, and \<open>WithWaitForLease\<close> is not among
  the acquire options; the pool has the configuration given, with positive intervals. Every error
  matches both \<open>pool.ErrConfigInvalid\<close> and \<open>worklease.ErrConfigInvalid\<close>.
\<close>

theorem pool_new_validates:
  "case pool_new lease cfg fn of
     Inr (L, cfg', f) \<Rightarrow> lease = Some L \<and> fn = Some f \<and> pc_work_ids cfg \<noteq> [] \<and> distinct (pc_work_ids cfg) \<and>
       '''' \<notin> set (pc_work_ids cfg) \<and> \<not> HasWaitForLease (pc_acquire cfg) \<and>
       pc_work_ids cfg' = pc_work_ids cfg \<and> pc_acquire cfg' = pc_acquire cfg \<and>
       pc_renewal cfg' = pc_renewal cfg \<and> pc_cleanup cfg' = pc_cleanup cfg \<and>
       0 < pc_idle cfg' \<and> 0 < pc_rerun cfg' \<and> 0 < pc_backoff cfg'
   | Inl e \<Rightarrow> (lease = None \<or> fn = None \<or> pc_work_ids cfg = [] \<or> \<not> distinct (pc_work_ids cfg) \<or>
       '''' \<in> set (pc_work_ids cfg) \<or> HasWaitForLease (pc_acquire cfg)) \<and>
       errors_is e pool_ErrConfigInvalid \<and> errors_is e ErrConfigInvalid"
proof (cases lease)
  case None
  then show ?thesis by (simp add: pool_new_def pool_ErrLeaseRequired_def pool_ErrConfigInvalid_def)
next
  case (Some L)
  note lease = this
  show ?thesis
  proof (cases "check_work_ids 0 [] (pc_work_ids cfg)")
    case None
    then show ?thesis
      using lease check_work_ids_None [of 0 "[]" "pc_work_ids cfg"]
      by (cases fn) (auto simp: pool_new_def ErrEmptyWorkIDs_def ErrWithWaitForLeaseProhibited_def
          pool_ErrWorkFnRequired_def pool_ErrConfigInvalid_def default_interval_def)
  next
    case (Some e)
    then show ?thesis
      using lease check_work_ids_error [OF Some] check_work_ids_None [of 0 "[]" "pc_work_ids cfg"]
      by (auto simp: pool_new_def ErrEmptyWorkIDs_def pool_ErrConfigInvalid_def)
  qed
qed

text \<open>Until the context is cancelled from outside, only the last death cancels it.\<close>

definition all_dead :: "pool_state \<Rightarrow> bool" where
  "all_dead p \<longleftrightarrow> list_all (\<lambda>s. s = Gone ExitDead) (pl_slots p)"

lemma card_full: "S \<subseteq> {..<n} \<Longrightarrow> card S = n \<longleftrightarrow> S = {..<n}"
  by (metis card_lessThan card_subset_eq finite_lessThan)

lemma counts_all_dead: "counts n d active xs \<Longrightarrow> d = n \<longleftrightarrow> list_all (\<lambda>s. s = Gone ExitDead) xs"
  using card_full [of "dead_slots xs" n] by (auto simp: counts_def dead_slots_def list_all_length)

fun is_cancel :: "pool_action \<Rightarrow> bool" where
  "is_cancel (CancelRun e) = True"
| "is_cancel a = False"

definition quiet_inv :: "pool_state \<Rightarrow> bool" where
  "quiet_inv p \<longleftrightarrow> pl_ctx p = None \<and> Gone ExitCancel \<notin> set (pl_slots p) \<or> all_dead p"

lemma set_update_subset: "x \<in> set (xs[i := y]) \<Longrightarrow> x = y \<or> x \<in> set xs"
  using set_update_subset_insert by fastforce

lemma quiet_inv_step:
  assumes "quiet_inv p" and "count_inv cfg p" and "pool_step cfg a p = Some p'" and "\<not> is_cancel a"
  shows "quiet_inv p'"
proof -
  have alive: False if "all_dead p" "i < length (pl_slots p)" "pl_slots p ! i \<noteq> Gone ExitDead" for i
    using that by (auto simp: all_dead_def list_all_length)
  note inv' = count_inv_step [OF assms(2,3)]
  show ?thesis
    using assms(3)
  proof (cases rule: pool_stepE)
    case (returns i err draw retired)
    have quiet: "pl_ctx p = None" "Gone ExitCancel \<notin> set (pl_slots p)"
      using assms(1) alive [of i] returns(2,3) by (auto simp: quiet_inv_def)
    show ?thesis
      using quiet counts_all_dead [OF inv'] unfolding returns(4)
      by (cases rule: run_returned_cases [of err retired cfg i draw p])
         (auto simp: quiet_inv_def all_dead_def dest!: set_update_subset)
  next
    case (enter i)
    then show ?thesis using assms(1) alive [of i] by (auto simp: quiet_inv_def dest!: set_update_subset)
  next
    case (leave i err)
    then show ?thesis using assms(1) alive [of i] by (auto simp: quiet_inv_def dest!: set_update_subset)
  next
    case (wake i d)
    then show ?thesis using assms(1) alive [of i] by (auto simp: quiet_inv_def dest!: set_update_subset)
  next
    case (cut i d)
    then show ?thesis using assms(1) alive [of i] by (auto simp: quiet_inv_def)
  next
    case (cancelled e)
    then show ?thesis using assms(4) by simp
  qed
qed

lemma quiet_run:
  "pool_run cfg as p = Some p' \<Longrightarrow> quiet_inv p \<Longrightarrow> count_inv cfg p \<Longrightarrow> \<not> list_ex is_cancel as \<Longrightarrow> quiet_inv p'"
  by (induction as arbitrary: p)
     (auto split: option.splits dest: quiet_inv_step count_inv_step)

lemma quiet_inv_start: "quiet_inv (pool_start cfg None)"
  by (auto simp: quiet_inv_def pool_start_def)

text \<open>
  C16. The result of \<open>Run\<close>. In every reachable state \<open>ActiveSlots\<close> lists exactly the work IDs
  whose work function is executing. Once every slot has exited, \<open>Run\<close> returns
  \<open>ErrAllSlotsDead\<close> if every slot died of a permanent error, and nil otherwise. If nobody cancels
  the context, the pool's own cancellation happens only when every slot is dead already, so it
  never interrupts a slot, and a nil result means that some slot retired.
\<close>

theorem pool_run_result:
  assumes "pool_run cfg as (pool_start cfg ctx) = Some p"
  shows "active_slots cfg p = {pc_work_ids cfg ! i | i. i < length (pc_work_ids cfg) \<and> pl_slots p ! i = Working} \<and>
    (pool_result cfg p = Some (Some ErrAllSlotsDead) \<longleftrightarrow> all_dead p) \<and>
    (pool_result cfg p = Some None \<longleftrightarrow> list_all gone (pl_slots p) \<and> \<not> all_dead p) \<and>
    (ctx = None \<and> \<not> list_ex is_cancel as \<longrightarrow>
       (pl_ctx p \<noteq> None \<longrightarrow> all_dead p) \<and> (pool_result cfg p = Some None \<longrightarrow> Gone ExitRetire \<in> set (pl_slots p)))"
proof -
  have inv: "count_inv cfg p"
    by (rule pool_run_invariant [where P = "count_inv cfg", OF _ count_inv_start assms]) (rule count_inv_step)
  have dead: "all_dead p \<Longrightarrow> list_all gone (pl_slots p)"
    by (auto simp: all_dead_def list_all_iff)
  note res = counts_all_dead [OF inv, folded all_dead_def] dead
  have quiet: "(pl_ctx p \<noteq> None \<longrightarrow> all_dead p) \<and> (pool_result cfg p = Some None \<longrightarrow> Gone ExitRetire \<in> set (pl_slots p))"
    if "ctx = None" "\<not> list_ex is_cancel as"
  proof -
    have q: "quiet_inv p" by (rule quiet_run) (use assms that quiet_inv_start count_inv_start in auto)
    have "Gone ExitRetire \<in> set (pl_slots p)"
      if all: "list_all gone (pl_slots p)" "\<not> all_dead p"
    proof -
      obtain s where s: "s \<in> set (pl_slots p)" "s \<noteq> Gone ExitDead" using all(2) by (auto simp: all_dead_def list_all_iff)
      moreover obtain r where "s = Gone r" using all(1) s(1) by (cases s) (auto simp: list_all_iff)
      moreover have "s \<noteq> Gone ExitCancel" using q all(2) s(1) by (auto simp: quiet_inv_def)
      ultimately show ?thesis by (cases r) auto
    qed
    then show ?thesis using q res by (auto simp: quiet_inv_def pool_result_def split: if_splits)
  qed
  have "active_slots cfg p = {pc_work_ids cfg ! i | i. i < length (pc_work_ids cfg) \<and> pl_slots p ! i = Working}"
    using inv by (auto simp: active_slots_def counts_def)
  moreover have "pool_result cfg p = Some (Some ErrAllSlotsDead) \<longleftrightarrow> all_dead p"
    using res by (auto simp: pool_result_def)
  moreover have "pool_result cfg p = Some None \<longleftrightarrow> list_all gone (pl_slots p) \<and> \<not> all_dead p"
    using res by (auto simp: pool_result_def)
  ultimately show ?thesis using quiet by blast
qed

definition ex_pool :: pool_config where
  "ex_pool = \<lparr>pc_work_ids = [''a'', ''b''], pc_acquire = [], pc_renewal = [], pc_cleanup = 0, pc_idle = 5, pc_rerun = 5, pc_backoff = 5\<rparr>"

definition ex_pool_actions :: "pool_action list" where
  "ex_pool_actions =
     [EnterWork 0, EnterWork 1, LeaveWork 1 (Some ErrRetire), LeaveWork 0 (Some (PermErr True None)),
      RunReturns 0 (Some (PermErr True None)) 0, RunReturns 1 None 0]"

definition ex_pool_end :: pool_state where
  "ex_pool_end = \<lparr>pl_slots = [Gone ExitDead, Gone ExitRetire], pl_dead = 1, pl_ctx = None, pl_active = {},
     pl_log = [OnSlotAcquired 0, OnSlotAcquired 1, OnSlotDead 0 (PermErr True None), OnSlotRetired 1]\<rparr>"

lemma ex_pool_run: "pool_run ex_pool ex_pool_actions (pool_start ex_pool None) = Some ex_pool_end"
  by (simp add: ex_pool_def ex_pool_actions_def ex_pool_end_def pool_start_def run_returned_def slot_decide_def Let_def)

theorem pool_run_result_witness:
  "pool_result ex_pool ex_pool_end = Some None \<and> Gone ExitRetire \<in> set (pl_slots ex_pool_end)"
proof -
  have "pool_result ex_pool ex_pool_end = Some None" "\<not> list_ex is_cancel ex_pool_actions"
    by (simp_all add: pool_result_def ex_pool_end_def ex_pool_def ex_pool_actions_def)
  then show ?thesis using pool_run_result [OF ex_pool_run] by blast
qed

text \<open>What a slot has reported, against where it is.\<close>

fun slot_of :: "pool_event \<Rightarrow> nat" where
  "slot_of (OnSlotAcquired i) = i"
| "slot_of (OnSlotLost i) = i"
| "slot_of (OnSlotBackoff i e d) = i"
| "slot_of (OnSlotDead i e) = i"
| "slot_of (OnSlotRetired i) = i"

fun final_event :: "pool_event \<Rightarrow> bool" where
  "final_event (OnSlotDead i e) = True"
| "final_event (OnSlotRetired i) = True"
| "final_event e = False"

definition reports :: "nat \<Rightarrow> pool_event list \<Rightarrow> pool_event list" where
  "reports i log = filter (\<lambda>e. slot_of e = i) log"

lemma reports_append [simp]: "reports i (xs @ ys) = reports i xs @ reports i ys"
  by (simp add: reports_def)

lemma reports_single [simp]:
  "reports i [] = []" "reports i [e] = (if slot_of e = i then [e] else [])"
  by (simp_all add: reports_def)

text \<open>The report sequences a slot may have made when it is where it is.\<close>

fun reported :: "nat \<Rightarrow> slot \<Rightarrow> pool_event list \<Rightarrow> bool" where
  "reported i Working evs \<longleftrightarrow> (\<exists>pre. evs = pre @ [OnSlotAcquired i] \<and> \<not> list_ex final_event pre)"
| "reported i (Finishing b) evs \<longleftrightarrow> (\<exists>pre. evs = pre @ [OnSlotAcquired i] \<and> \<not> list_ex final_event pre)"
| "reported i (Gone ExitRetire) evs \<longleftrightarrow>
     (\<exists>pre. evs = pre @ [OnSlotAcquired i, OnSlotRetired i] \<and> \<not> list_ex final_event pre)"
| "reported i (Gone ExitDead) evs \<longleftrightarrow>
     (\<exists>pre e. evs = pre @ [OnSlotDead i e] \<and> errors_as_permanent e = Some True \<and> \<not> list_ex final_event pre)"
| "reported i s evs \<longleftrightarrow> \<not> list_ex final_event evs"

definition report_inv :: "pool_state \<Rightarrow> bool" where
  "report_inv p \<longleftrightarrow> (\<forall>i < length (pl_slots p). reported i (pl_slots p ! i) (reports i (pl_log p)))"

lemma reported_calm: "reported i s evs \<Longrightarrow> \<not> gone s \<Longrightarrow> \<not> list_ex final_event evs"
  by (cases s) auto

lemma report_inv_update:
  assumes "report_inv p" and "pl_slots p' = (pl_slots p)[i := s]" and "pl_log p' = pl_log p @ evs"
    and "list_all (\<lambda>e. slot_of e = i) evs"
    and "reported i (pl_slots p ! i) (reports i (pl_log p)) \<Longrightarrow> reported i s (reports i (pl_log p) @ evs)"
  shows "report_inv p'"
proof -
  have own: "reports i evs = evs" using assms(4) by (simp add: reports_def list_all_iff filter_id_conv)
  have other: "reports j evs = []" if "j \<noteq> i" for j
    using assms(4) that by (auto simp: reports_def list_all_iff filter_empty_conv)
  show ?thesis
    unfolding report_inv_def
  proof (intro allI impI)
    fix j assume "j < length (pl_slots p')"
    then have "reported j (pl_slots p ! j) (reports j (pl_log p))" and "j < length (pl_slots p)"
      using assms(1,2) by (simp_all add: report_inv_def)
    then show "reported j (pl_slots p' ! j) (reports j (pl_log p'))"
      using assms(2,3,5) own other [of j] by (cases "j = i") simp_all
  qed
qed

lemma report_inv_same:
  "report_inv p \<Longrightarrow> pl_slots p' = pl_slots p \<Longrightarrow> pl_log p' = pl_log p \<Longrightarrow> report_inv p'"
  by (simp add: report_inv_def)

lemma report_inv_returned:
  assumes "report_inv p" and "i < length (pl_slots p)"
    and was: "pl_slots p ! i = Running \<and> \<not> retired \<or> pl_slots p ! i = Finishing retired"
  shows "report_inv (run_returned cfg i err retired draw p)"
proof (cases rule: run_returned_cases [of err retired cfg i draw p])
  case retire
  then have "pl_slots p ! i = Finishing True" using was by auto
  then show ?thesis unfolding retire(3) by (intro report_inv_update [OF assms(1)]) auto
next
  case quit
  have "reported i (Gone ExitCancel) evs" if "reported i (pl_slots p ! i) evs" for evs
    using reported_calm [OF that] was by auto
  then show ?thesis
    unfolding quit(2) by (intro report_inv_update [OF assms(1), where evs = "[]" and s = "Gone ExitCancel" and i = i]) auto
next
  case (asleep d evs)
  have "reported i (Asleep d) (old @ evs)" if "reported i (pl_slots p ! i) old" for old
    using reported_calm [OF that] was asleep(2) by auto
  then show ?thesis
    using asleep(2) unfolding asleep(3) by (intro report_inv_update [OF assms(1), where evs = evs]) auto
next
  case (lost e)
  have "reported i Running (old @ [OnSlotLost i])" if "reported i (pl_slots p ! i) old" for old
    using reported_calm [OF that] was by auto
  then show ?thesis unfolding lost(4) by (intro report_inv_update [OF assms(1)]) auto
next
  case (dead e)
  have "reported i (Gone ExitDead) (old @ [OnSlotDead i e])" if "reported i (pl_slots p ! i) old" for old
    using reported_calm [OF that] was dead(2) by auto
  then show ?thesis unfolding dead(4) by (intro report_inv_update [OF assms(1)]) auto
qed

lemma report_inv_step:
  assumes "report_inv p" and "pool_step cfg a p = Some p'"
  shows "report_inv p'"
  using assms(2)
proof (cases rule: pool_stepE)
  case (returns i err draw retired)
  then show ?thesis using report_inv_returned [OF assms(1) returns(2)] by auto
next
  case (enter i)
  then show ?thesis by (intro report_inv_update [OF assms(1), where evs = "[OnSlotAcquired i]" and s = Working and i = i]) auto
next
  case (leave i err)
  then show ?thesis by (intro report_inv_update [OF assms(1), where evs = "[]" and s = "Finishing (err_matches err ErrRetire)" and i = i]) auto
next
  case (wake i d)
  then show ?thesis by (intro report_inv_update [OF assms(1), where evs = "[]" and s = Running and i = i]) auto
next
  case (cut i d)
  then show ?thesis by (intro report_inv_update [OF assms(1), where evs = "[]" and s = "Gone ExitCancel" and i = i]) auto
next
  case (cancelled e)
  then show ?thesis by (intro report_inv_same [OF assms(1)]) auto
qed

lemma report_inv_start: "report_inv (pool_start cfg ctx)"
  by (auto simp: report_inv_def pool_start_def)

text \<open>
  C28. The reports of a slot. In every reachable state, the events reported for a slot fit where it
  is: while it executes its work function the last one is \<open>OnSlotAcquired\<close>; one that retired has
  reported \<open>OnSlotRetired\<close> last, right after \<open>OnSlotAcquired\<close>; one that died has reported
  \<open>OnSlotDead\<close> last, with a permanent error; no other event is final, so a slot reports at most one
  of the two, once.
\<close>

theorem pool_slot_reports:
  assumes "pool_run cfg as (pool_start cfg ctx) = Some p" and "i < length (pc_work_ids cfg)"
  shows "reported i (pl_slots p ! i) (reports i (pl_log p))"
proof -
  have "report_inv p"
    by (rule pool_run_invariant [where P = report_inv, OF _ report_inv_start assms(1)]) (rule report_inv_step)
  moreover have "count_inv cfg p"
    by (rule pool_run_invariant [where P = "count_inv cfg", OF _ count_inv_start assms(1)]) (rule count_inv_step)
  ultimately show ?thesis using assms(2) by (simp add: report_inv_def counts_def)
qed

theorem pool_slot_reports_witness:
  "reported 0 (Gone ExitDead) [OnSlotAcquired 0, OnSlotDead 0 (PermErr True None)] \<and>
   reported 1 (Gone ExitRetire) [OnSlotAcquired 1, OnSlotRetired 1]"
  using pool_slot_reports [OF ex_pool_run, of 0] pool_slot_reports [OF ex_pool_run, of 1]
  by (simp add: ex_pool_end_def ex_pool_def reports_def)

section \<open>Draining\<close>

text \<open>How many steps a slot can still take once the context is done.\<close>

fun steps_left :: "slot \<Rightarrow> nat" where
  "steps_left (Asleep d) = 5"
| "steps_left Running = 4"
| "steps_left Working = 3"
| "steps_left (Finishing b) = 2"
| "steps_left (Gone r) = 0"

definition work_left :: "pool_state \<Rightarrow> nat" where
  "work_left p = sum_list (map steps_left (pl_slots p))"

lemma work_left_update:
  assumes "i < length xs" and "steps_left s < steps_left (xs ! i)"
  shows "sum_list (map steps_left (xs[i := s])) < sum_list (map steps_left xs)"
proof -
  have "sum_list (map steps_left xs) = steps_left (xs ! i) + sum_list (map steps_left (take i xs @ drop (Suc i) xs))"
    using assms(1) by (subst id_take_nth_drop [of i xs]) simp_all
  moreover have "sum_list (map steps_left (xs[i := s])) = steps_left s + sum_list (map steps_left (take i xs @ drop (Suc i) xs))"
    using assms(1) by (subst upd_conv_take_nth_drop) simp_all
  ultimately show ?thesis using assms(2) by simp
qed

text \<open>A run that ends when the context is done is the slot's last.\<close>

lemma run_returned_done:
  assumes "pl_ctx p \<noteq> None"
  obtains r where "r \<noteq> ExitDead" "run_returned cfg i err retired draw p =
    p\<lparr>pl_slots := (pl_slots p)[i := Gone r], pl_log := pl_log p @ (if r = ExitRetire then [OnSlotRetired i] else [])\<rparr>"
proof (cases rule: run_returned_cases [of err retired cfg i draw p])
  case retire
  then show ?thesis by (intro that [of ExitRetire]) simp_all
next
  case quit
  then show ?thesis by (intro that [of ExitCancel]) simp_all
qed (use assms in simp_all)

lemma drain_step:
  assumes "pool_step cfg a p = Some p'" and "pl_ctx p \<noteq> None"
  shows "work_left p' < work_left p \<and> pl_ctx p' \<noteq> None \<and> pl_dead p' = pl_dead p"
  using assms(1)
proof (cases rule: pool_stepE)
  case (returns i err draw retired)
  then have "2 \<le> steps_left (pl_slots p ! i)" by auto
  then show ?thesis
    using work_left_update [OF returns(2)] assms(2) unfolding returns(4)
    by (rule_tac run_returned_done [OF assms(2), of cfg i err retired draw]) (simp add: work_left_def)
next
  case (enter i)
  then show ?thesis using work_left_update [of i "pl_slots p" Working] assms(2) by (simp add: work_left_def)
next
  case (leave i err)
  then show ?thesis
    using work_left_update [of i "pl_slots p" "Finishing (err_matches err ErrRetire)"] assms(2)
    by (simp add: work_left_def)
next
  case (wake i d)
  then show ?thesis using work_left_update [of i "pl_slots p" Running] assms(2) by (simp add: work_left_def)
next
  case (cut i d)
  then show ?thesis using work_left_update [of i "pl_slots p" "Gone ExitCancel"] assms(2) by (simp add: work_left_def)
next
  case (cancelled e)
  then show ?thesis using assms(2) by simp
qed

lemma drain_run:
  "pool_run cfg as p = Some p' \<Longrightarrow> pl_ctx p \<noteq> None \<Longrightarrow>
   length as + work_left p' \<le> work_left p \<and> pl_dead p' = pl_dead p"
proof (induction as arbitrary: p)
  case (Cons a as)
  then obtain q where "pool_step cfg a p = Some q" "pool_run cfg as q = Some p'"
    by (auto split: option.splits)
  then show ?case using drain_step [of cfg a p q] Cons.IH [of q] Cons.prems(2) by force
qed simp

lemma work_left_bound: "work_left p \<le> 5 * length (pl_slots p)"
proof -
  have "sum_list (map steps_left xs) \<le> 5 * length xs" for xs
  proof (induction xs)
    case (Cons s xs)
    then show ?case by (cases s) auto
  qed simp
  then show ?thesis by (simp add: work_left_def)
qed

text \<open>A slot that has not exited can always move on.\<close>

lemma slot_not_stuck:
  assumes "i < length (pl_slots p)" and "\<not> gone (pl_slots p ! i)"
  shows "\<exists>a. pool_step cfg a p \<noteq> None"
proof (cases "pl_slots p ! i")
  case Running
  then show ?thesis using assms by (intro exI [of _ "EnterWork i"]) simp
next
  case Working
  then show ?thesis using assms by (intro exI [of _ "LeaveWork i None"]) simp
next
  case (Finishing b)
  then show ?thesis using assms by (intro exI [of _ "RunReturns i None 0"]) simp
next
  case (Asleep d)
  then show ?thesis using assms by (intro exI [of _ "Wake i"]) simp
next
  case (Gone r)
  then show ?thesis using assms by simp
qed

text \<open>
  C29. Draining. Once the context is done, a pool takes at most five more steps per slot, whatever
  the order, and no further slot counts as dead; and it never gets stuck before \<open>Run\<close> returns: as
  long as a slot has not exited, some step is possible. The steps of a slot include the return of
  its work function and of its run, which the code waits for.
\<close>

theorem pool_drains:
  assumes "pool_run cfg as p = Some p'" and "pl_ctx p \<noteq> None"
  shows "length as \<le> 5 * length (pl_slots p) \<and> pl_dead p' = pl_dead p \<and>
    (pool_result cfg p' = None \<longrightarrow> (\<exists>a. pool_step cfg a p' \<noteq> None))"
proof -
  have "\<exists>a. pool_step cfg a p' \<noteq> None" if "pool_result cfg p' = None"
  proof -
    obtain i where "i < length (pl_slots p')" "\<not> gone (pl_slots p' ! i)"
      using \<open>pool_result cfg p' = None\<close> by (auto simp: pool_result_def list_all_length split: if_splits)
    then show ?thesis by (rule slot_not_stuck)
  qed
  then show ?thesis using drain_run [OF assms] work_left_bound [of p] by simp
qed

theorem pool_drains_witness:
  "\<exists>p'. pool_run ex_pool [EnterWork 0, LeaveWork 0 None, RunReturns 0 None 0] (pool_start ex_pool (Some CtxCanceled)) = Some p' \<and>
     (3 :: nat) \<le> 10 \<and> (\<exists>a. pool_step ex_pool a p' \<noteq> None)"
proof -
  obtain p' where run: "pool_run ex_pool [EnterWork 0, LeaveWork 0 None, RunReturns 0 None 0]
      (pool_start ex_pool (Some CtxCanceled)) = Some p'" and res: "pool_result ex_pool p' = None"
    by (simp add: ex_pool_def pool_start_def run_returned_def slot_decide_def Let_def pool_result_def)
  show ?thesis using pool_drains [OF run] run res by (simp add: pool_start_def ex_pool_def)
qed

section \<open>Pacing\<close>

lemma pool_jitterWait_range:
  assumes "0 \<le> base" and "base \<le> 2 ^ 49" and "0 \<le> draw" and "draw < fl_unit"
  shows "base \<le> pool_jitterWait draw base" and "5 * pool_jitterWait draw base \<le> 6 * base"
proof -
  let ?x = "fmul (fmul draw double_0_20) (fl (base * fl_unit) 1) div fl_unit"
  have x: "0 \<le> ?x" "5 * ?x \<le> base" using fifth_jitter_range_left [OF assms] by simp_all
  then have "wrap64 (base + ?x) = base + ?x" using assms by (intro wrap64_id) (simp add: is_int64_def)
  then show "base \<le> pool_jitterWait draw base" and "5 * pool_jitterWait draw base \<le> 6 * base"
    using x by (simp_all add: pool_jitterWait_def)
qed

definition paced :: "duration \<Rightarrow> duration \<Rightarrow> bool" where
  "paced base d \<longleftrightarrow> base \<le> d \<and> 5 * d \<le> 6 * base"

text \<open>
  What a slot does after a run, while the context is not done. After a fencing error it runs
  again at once and reports the loss; after a permanent error it exits; after \<open>ErrLeaseHeld\<close> or nil
  it sleeps between the idle (rerun) interval and 1.2 times it, silently; after any other error it
  reports and sleeps the backoff interval; and after nil with \<open>ErrRetire\<close> it exits. An error that is
  both a fencing and a permanent error counts as fencing, and one that is permanent and
  \<open>ErrLeaseHeld\<close> as permanent.
\<close>

theorem pool_reaction:
  assumes "pool_step cfg (RunReturns i err draw) p = Some p'" and "pl_ctx p = None"
    and "pc_idle cfg \<in> {0..2 ^ 49}" and "pc_rerun cfg \<in> {0..2 ^ 49}" and "0 \<le> draw" and "draw < fl_unit"
  shows "\<exists>s evs. pl_slots p' = (pl_slots p)[i := s] \<and> pl_log p' = pl_log p @ evs \<and>
    (case err of
       None \<Rightarrow>
         if pl_slots p ! i = Finishing True then s = Gone ExitRetire \<and> evs = [OnSlotRetired i]
         else (\<exists>d. s = Asleep d \<and> paced (pc_rerun cfg) d) \<and> evs = []
     | Some e \<Rightarrow>
         if errors_is e ErrFenced then s = Running \<and> evs = [OnSlotLost i]
         else if errors_as_permanent e = Some True then s = Gone ExitDead \<and> evs = [OnSlotDead i e]
         else if errors_is e ErrLeaseHeld then (\<exists>d. s = Asleep d \<and> paced (pc_idle cfg) d) \<and> evs = []
         else s = Asleep (pc_backoff cfg) \<and> evs = [OnSlotBackoff i e (pc_backoff cfg)])"
proof -
  have jit: "paced (pc_idle cfg) (pool_jitterWait draw (pc_idle cfg))"
    "paced (pc_rerun cfg) (pool_jitterWait draw (pc_rerun cfg))"
    using pool_jitterWait_range [of "pc_idle cfg" draw] pool_jitterWait_range [of "pc_rerun cfg" draw] assms(3-6)
    by (simp_all add: paced_def)
  from assms(1) obtain retired where step: "p' = run_returned cfg i err retired draw p"
    "pl_slots p ! i = Running \<and> err \<noteq> None \<and> \<not> retired \<or> pl_slots p ! i = Finishing retired"
    by (cases rule: pool_stepE) auto
  show ?thesis
  proof (cases err)
    case None
    then show ?thesis
      using step jit(2) assms(2) by (cases retired) (auto simp: run_returned_def slot_decide_def Let_def)
  next
    case (Some e)
    then show ?thesis
      using step(1) jit(1) assms(2) by (auto simp: run_returned_def slot_decide_def Let_def)
  qed
qed

theorem pool_reaction_witness:
  "\<exists>p' d. pool_step ex_pool (RunReturns 1 (Some (Wrap ''worker: acquire'' ErrLeaseHeld)) (fl_unit div 2)) (pool_start ex_pool None) = Some p' \<and>
     pl_slots p' = [Running, Asleep d] \<and> 5 \<le> d \<and> d \<le> 6"
proof -
  obtain p' where run: "pool_step ex_pool (RunReturns 1 (Some (Wrap ''worker: acquire'' ErrLeaseHeld)) (fl_unit div 2))
      (pool_start ex_pool None) = Some p'"
    by (simp add: ex_pool_def pool_start_def)
  obtain d where "pl_slots p' = [Running, Asleep d]" "paced 5 d"
    using pool_reaction [OF run] by (auto simp: pool_start_def ex_pool_def)
  then show ?thesis using run by (auto simp: paced_def)
qed

section \<open>The shape of a slot's run\<close>

definition work_calls :: "lcall list \<Rightarrow> nat" where
  "work_calls t = length (filter (\<lambda>c. case c of CWork tok cp out \<Rightarrow> True | _ \<Rightarrow> False) t)"

lemma lifecycle_work_calls:
  "lifecycle c w t res \<Longrightarrow> work_calls t \<le> 1 \<and> (res = Done None \<longrightarrow> work_calls t = 1)"
  by (induction rule: lifecycle.induct) (auto simp: work_calls_def split: if_splits)

text \<open>
  A slot's run has the shape the steps assume. The runner a slot makes always exists, and
  whatever the lease client does, a run of it enters the work function at most once, and once if it
  returns nil: so a run that never entered it returns an error, as \<open>RunReturns\<close> requires of a slot
  that is not past its work function. Its final checkpoint and release are bounded by the pool's
  cleanup timeout, or 5s if that is not positive.
\<close>

theorem slot_run_shape:
  "\<exists>r. slot_runner L cfg slotFn = Inr r \<and>
     ru_cleanup r = (if pc_cleanup cfg \<le> 0 then 5 * second else pc_cleanup cfg) \<and>
     (\<forall>w w' t workID res. runner_run (traced_runner r) (w, []) workID = ((w', t), res) \<longrightarrow>
        work_calls t \<le> 1 \<and> (res = Done None \<longrightarrow> work_calls t = 1))"
proof -
  obtain r where r: "slot_runner L cfg slotFn = Inr r"
    "ru_cleanup r = (if pc_cleanup cfg \<le> 0 then 5 * second else pc_cleanup cfg)"
    by (simp add: slot_runner_def NewRunner_def defaultCleanupTimeout_def)
  have "work_calls t \<le> 1 \<and> (res = Done None \<longrightarrow> work_calls t = 1)"
    if "runner_run (traced_runner r) (w, []) workID = ((w', t), res)" for w w' t workID res
    using run_calls [OF r(1) [unfolded slot_runner_def] that] lifecycle_work_calls by blast
  then show ?thesis using r by blast
qed

theorem slot_run_shape_witness:
  "\<exists>w'. runner_run (traced_runner ex_runner) (ex_world, []) ''w'' = ((w', ex_run_trace), Done None) \<and>
     work_calls ex_run_trace = 1"
proof (rule ex_traced_run)
  fix w' assume run: "runner_run (traced_runner ex_runner) (ex_world, []) ''w'' = ((w', ex_run_trace), Done None)"
  have "slot_runner ex_lease ex_pool (\<lambda>w tok cp. (w, Returned (Some [7]) None)) = Inr ex_runner"
    by (simp add: slot_runner_def NewRunner_def ex_pool_def ex_runner_def defaultCleanupTimeout_def)
  then have "work_calls ex_run_trace = 1"
    using slot_run_shape [of ex_lease ex_pool "\<lambda>w tok cp. (w, Returned (Some [7]) None)"] run by auto
  then show ?thesis using run by blast
qed

theorem pool_new_validates_witness:
  "errors_is (Wrap ''pool: New: WorkIDs[] and WorkIDs[] are both '' ErrDuplicateWorkID) pool_ErrConfigInvalid \<and>
   \<not> distinct [''a'', ''b'', ''a'']"
  using pool_new_validates [where lease = "Some ()" and cfg = "ex_pool\<lparr>pc_work_ids := [''a'', ''b'', ''a'']\<rparr>" and fn = "Some ()"]
  by (simp add: pool_new_def ex_pool_def ErrDuplicateWorkID_def)

end
