(* ===== verification/Vacuum.thy ===== *)
theory Vacuum
  imports Client
begin

text \<open>
  \<open>vacuum.go\<close>: the sweep of old rows, with its validation and its observer.

  A \<open>Vacuum\<close> is the backend it was built with; \<open>None\<close> stands for one that \<open>NewVacuum\<close> did not
  build. \<open>Sweep\<close> makes one backend call between two readings of the local clock, as the methods of
  the lease client do, and reports it.
\<close>

section \<open>The vacuum\<close>

datatype sweep_event =
  OnSweep (sw_options: sweep_options) (sw_deleted: int) (sw_dur: duration) (sw_err: "gerror option")

definition ErrRetentionRequired :: gerror where
  "ErrRetentionRequired = ConfigError ''worklease: retention must be greater than zero''"

definition NewVacuum :: "'s backend option \<Rightarrow> gerror + 's backend option" where
  "NewVacuum b = (case b of None \<Rightarrow> Inl ErrNilBackend | Some b \<Rightarrow> Inr (Some b))"

definition vacuum_sweep ::
  "'s backend option \<Rightarrow> call_env \<Rightarrow> 's \<Rightarrow> sweep_options \<Rightarrow> 's \<times> sweep_event list \<times> int \<times> gerror option" where
  "vacuum_sweep v env s opts =
     (case v of
        None \<Rightarrow> (s, [], 0, Some ErrNilBackend)
      | Some b \<Rightarrow>
          if so_retention opts \<le> 0 then (s, [], 0, Some ErrRetentionRequired)
          else
            let (s', n, err) = b_sweep b (ce_ctx env) (ce_clk env) s opts
            in (s', [OnSweep opts n (call_dur env) err], n, err))"

section \<open>What a sweep leaves\<close>

text \<open>The rows no sweep may delete: held, declared finished or abandoned, lapsed if not asked for, or young.\<close>

definition protected :: "instant \<Rightarrow> sweep_options \<Rightarrow> row \<Rightarrow> bool" where
  "protected now opts r \<longleftrightarrow>
     now \<le> row_expires r \<or> row_exit r = ExitFinished \<or> row_exit r = ExitAbandoned \<or>
     (row_exit r = ExitNone \<and> \<not> so_include_expired opts) \<or>
     ns now - ns (row_updated r) \<le> so_retention opts - sweep_slack"

lemma protected_not_sweepable:
  "protected now opts r \<Longrightarrow> \<not> (sweepable now opts r \<and> so_retention opts - sweep_slack < ns now - ns (row_updated r))"
  by (auto simp: protected_def sweepable_def)

context lease_backend
begin

text \<open>One call, from every kind of \<open>Vacuum\<close> and under any context.\<close>

lemma vacuum_outcome:
  assumes "inv s" and "is_int64 (so_retention opts)"
    and "vacuum_sweep v env s opts = (s', evs, n, e)" and "v = Some b \<or> v = None"
  shows "inv s' \<and> n = int (card (dom (view s) - dom (view s'))) \<and>
    (\<forall>w r. view s w = Some r \<and> (protected (ce_clk env 0) opts r \<or> e \<noteq> None) \<longrightarrow> view s' w = Some r) \<and>
    (if v = None \<or> so_retention opts \<le> 0 then evs = [] \<and> err_matches e ErrConfigInvalid
     else evs = [OnSweep opts n (call_dur env) e])"
proof (cases "v = None \<or> so_retention opts \<le> 0")
  case True
  then show ?thesis
    using assms by (auto simp: vacuum_sweep_def ErrNilBackend_def ErrRetentionRequired_def split: option.splits)
next
  case False
  then obtain run: "b_sweep b (ce_ctx env) (ce_clk env) s opts = (s', n, e)" "evs = [OnSweep opts n (call_dur env) e]"
    using assms(3,4) by (auto simp: vacuum_sweep_def split: prod.splits)
  show ?thesis
  proof (cases "ce_ctx env")
    case None
    obtain s1 n1 where sw: "b_sweep b None (ce_clk env) s opts = (s1, n1, None)" "inv s1"
      "n1 = int (card (dom (view s) - dom (view s1)))" "\<And>w. view s1 w = view s w \<or> view s1 w = None"
      "\<And>w r. view s w = Some r \<Longrightarrow> view s1 w = None \<Longrightarrow>
         sweepable (ce_clk env 0) opts r \<and> so_retention opts - sweep_slack < ns (ce_clk env 0) - ns (row_updated r)"
      using sweep_ok [OF assms(1,2), of "ce_clk env"] by blast
    have eq: "s1 = s'" "n1 = n" "e = None" using run(1) sw(1) None by simp_all
    have "view s' w = Some r" if "view s w = Some r" "protected (ce_clk env 0) opts r" for w r
      using sw(4) [of w] sw(5) [OF that(1)] protected_not_sweepable [OF that(2)] that(1) eq(1) by auto
    then show ?thesis using sw(2,3) eq False run(2) by simp
  next
    case (Some c)
    obtain c' where "b_sweep b (Some c) (ce_clk env) s opts = (s, 0, Some c')"
      using sweep_ctx [of c "ce_clk env" s opts] by blast
    then show ?thesis using run False assms(1) Some by auto
  qed
qed

text \<open>A deleted row: its holder is fenced for ever, and the next one starts from nothing.\<close>

lemma swept_gone:
  assumes "inv s" and "issued s < token_limit" and "is_int64 (so_retention opts)"
    and "vacuum_sweep (Some b) env s opts = (s1, evs, n, e)"
    and "view s (lr_work rec) = Some r" and "held_by r rec" and "view s1 (lr_work rec) = None"
    and "room s1 cs" and "schedule_ok cs" and "declarable m"
  shows "(let s2 = b_run b cs s1
     in b_checkpoint b None clk' s2 rec st d = (s2, Some ErrFenced) \<and>
        b_renew b None clk' s2 rec d = (s2, Some ErrFenced) \<and>
        b_release b None clk' s2 rec m = (s2, Some ErrFenced) \<and>
        b_read_checkpoint b None clk' s2 rec = (s2, Inl ErrFenced)) \<and>
    (\<exists>s3 rec'. b_acquire b None clk1 s1 (lr_work rec) h ttl = (s3, Inr rec') \<and>
       b_read_checkpoint b None clk2 s3 rec' = (s3, Inr zero_checkpoint))"
proof -
  have changed: "s1 \<noteq> s" using assms(5,7) by auto
  then obtain n' e' where call: "b_sweep b (ce_ctx env) (ce_clk env) s opts = (s1, n', e')"
    using assms(4) by (auto simp: vacuum_sweep_def split: if_splits prod.splits)
  have "ce_ctx env = None"
  proof (cases "ce_ctx env")
    case (Some c)
    obtain c' where "b_sweep b (Some c) (ce_clk env) s opts = (s, 0, Some c')"
      using sweep_ctx [of c "ce_clk env" s opts] by blast
    then show ?thesis using call Some changed by simp
  qed simp
  moreover obtain s' n' where "b_sweep b None (ce_clk env) s opts = (s', n', None)" "inv s'" "issued s' = issued s"
    using sweep_ok [OF assms(1,3), of "ce_clk env"] by blast
  ultimately have s1: "inv s1" "issued s1 = issued s" using call by simp_all
  have "unat (lr_token rec) \<le> issued s1"
    using token_issued [OF assms(1,5)] assms(6) s1(2) by (simp add: held_by_def)
  then have sup: "superseded (view s1 (lr_work rec)) (issued s1) rec"
    using assms(7) by (simp add: superseded_def)
  have "\<exists>s3 rec'. b_acquire b None clk1 s1 (lr_work rec) h ttl = (s3, Inr rec') \<and>
      b_read_checkpoint b None clk2 s3 rec' = (s3, Inr zero_checkpoint)"
    using acquire_inherits [OF s1(1), of "lr_work rec" clk1 h ttl clk2] s1(2) assms(2,7)
    by (auto simp: inherited_def)
  then show ?thesis
    using superseded_fenced [OF conjunct1 [OF run_inv [OF s1(1) assms(8,9)]] run_superseded [OF s1(1) assms(8,9) sup]] assms(10)
    by (simp add: Let_def)
qed

end

section \<open>A sweep of the table\<close>

text \<open>The rows that the \<open>DELETE\<close> does not spare are not protected.\<close>

lemma sql_swept_unprotected:
  assumes "pg_row_ok q p" and "is_int64 (so_retention opts)"
    and "sql_swept now (seconds_us (so_retention opts)) (so_include_expired opts) p"
  shows "\<not> protected now opts (pg_row_view p)"
proof -
  have "interval (seconds_us (so_retention opts)) < ns now - ns (pg_updated_at p) \<and> sweepable now opts (pg_row_view p)"
    using sql_swept_view [OF assms(1), of now "seconds_us (so_retention opts)" "so_include_expired opts" "so_retention opts"]
      assms(3) by (cases opts) simp
  moreover have "so_retention opts - sweep_slack < interval (seconds_us (so_retention opts))"
    using seconds_us_error [OF assms(2)] by (auto simp: interval_def)
  ultimately show ?thesis
    using protected_not_sweepable [of now opts "pg_row_view p"] by (auto simp: pg_row_view_def)
qed

text \<open>The statement's effect, whether or not the driver reports it.\<close>

definition swept_from :: "instant \<Rightarrow> sweep_options \<Rightarrow> pg_db \<Rightarrow> pg_db \<Rightarrow> bool" where
  "swept_from now opts db db' \<longleftrightarrow> pg_inv db' \<and>
     (\<forall>w p. map_of (pg_rows db) w = Some p \<longrightarrow>
        map_of (pg_rows db') w = Some p \<or> map_of (pg_rows db') w = None \<and> \<not> protected now opts (pg_row_view p)) \<and>
     (\<forall>w. map_of (pg_rows db) w = None \<longrightarrow> map_of (pg_rows db') w = None)"

lemma swept_from_refl: "pg_inv db \<Longrightarrow> swept_from now opts db db"
  by (auto simp: swept_from_def)

lemma sql_sweep_outcome:
  assumes "pg_inv db" and "is_int64 (so_retention opts)"
    and "sql_sweep now (seconds_us (so_retention opts)) (so_include_expired opts) db = (db', n)"
  shows "swept_from now opts db db'" and "n = card (dom (map_of (pg_rows db)) - dom (map_of (pg_rows db')))"
proof -
  let ?P = "sql_swept now (seconds_us (so_retention opts)) (so_include_expired opts)"
  have db': "db' = db\<lparr>pg_rows := filter (\<lambda>(w, r). \<not> ?P r) (pg_rows db)\<rparr>"
    and n: "n = length (filter (\<lambda>(w, r). ?P r) (pg_rows db))"
    using assms(3) by (simp_all add: sql_sweep_def)
  have dist: "distinct (map fst (pg_rows db))" using assms(1) by (simp add: pg_inv_def)
  have lookup: "map_of (pg_rows db') w =
      (case map_of (pg_rows db) w of None \<Rightarrow> None | Some r \<Rightarrow> if ?P r then None else Some r)" for w
    using dist by (auto simp: db' map_of_filter_distinct split: option.split)
  show "swept_from now opts db db'"
    unfolding swept_from_def
  proof (intro conjI allI impI)
    show "pg_inv db'" unfolding db' by (rule pg_inv_filter [OF assms(1)])
    fix w p assume w: "map_of (pg_rows db) w = Some p"
    show "map_of (pg_rows db') w = Some p \<or> map_of (pg_rows db') w = None \<and> \<not> protected now opts (pg_row_view p)"
      using sql_swept_unprotected [OF conjunct1 [OF pg_inv_lookup [OF assms(1) w]] assms(2)] w lookup by auto
  qed (simp add: lookup)
  have view: "dom (pg_view d) = dom (map_of (pg_rows d))" for d by (auto simp: pg_view_def)
  show "n = card (dom (map_of (pg_rows db)) - dom (map_of (pg_rows db')))"
    using pg_sweep_count [OF assms(1) db'] unfolding n view .
qed

section \<open>Properties\<close>

text \<open>
  C39. What \<open>Sweep\<close> spares, on PostgreSQL. Whatever the context and whatever the driver does, a
  sweep changes no row but to delete it, and never deletes one that is held, was released as finished
  or abandoned, lapsed undeclared without \<open>IncludeExpired\<close>, or was written less than the retention ago
  (to within two microseconds of rounding), at the \<open>NOW()\<close> of its statement. If the statement
  succeeds, the error is nil and the count returned and reported is exactly the number of rows deleted.
  If it fails, the error is not nil and the count is 0; then nothing was deleted unless the
  statement took effect although its call failed. A \<open>Vacuum\<close> that \<open>NewVacuum\<close> did not build and a
  retention that is not positive are configuration errors, without a backend call or an event.
\<close>

theorem vacuum_spares:
  assumes "pg_inv s" and "is_int64 (so_retention opts)"
    and "vacuum_sweep v env s opts = (s', evs, n, e)" and "v = Some (postgres_in E) \<or> v = None"
  defines "x \<equiv> E (ce_ctx env) (ce_clk env)"
  shows "pg_inv s' \<and>
    (\<forall>w p. map_of (pg_rows s) w = Some p \<longrightarrow> map_of (pg_rows s') w = Some p \<or>
       map_of (pg_rows s') w = None \<and> \<not> protected (env_now x 0) opts (pg_row_view p)) \<and>
    (\<forall>w. map_of (pg_rows s) w = None \<longrightarrow> map_of (pg_rows s') w = None) \<and>
    (if v = None \<or> so_retention opts \<le> 0 then s' = s \<and> n = 0 \<and> evs = [] \<and> err_matches e ErrConfigInvalid
     else evs = [OnSweep opts n (call_dur env) e] \<and>
       (case env_fault x 0 of
          None \<Rightarrow> e = None \<and> n = int (card (dom (map_of (pg_rows s)) - dom (map_of (pg_rows s'))))
        | Some (fault, applied) \<Rightarrow> e \<noteq> None \<and> n = 0 \<and> (applied \<or> s' = s)))"
proof (cases "v = None \<or> so_retention opts \<le> 0")
  case True
  then show ?thesis
    using assms(1,3) by (auto simp: vacuum_sweep_def ErrNilBackend_def ErrRetentionRequired_def split: option.splits)
next
  case False
  obtain s1 k where sql: "sql_sweep (env_now x 0) (seconds_us (so_retention opts)) (so_include_expired opts) s = (s1, k)"
    by (metis surj_pair)
  note sw = sql_sweep_outcome [OF assms(1,2) sql]
  have run: "pg_sweep x s opts = (s', n, e)" and evs: "evs = [OnSweep opts n (call_dur env) e]"
    using assms(3,4) False by (auto simp: vacuum_sweep_def x_def split: prod.splits)
  have "swept_from (env_now x 0) opts s s' \<and>
    (case env_fault x 0 of None \<Rightarrow> e = None \<and> n = int (card (dom (map_of (pg_rows s)) - dom (map_of (pg_rows s'))))
     | Some (fault, applied) \<Rightarrow> e \<noteq> None \<and> n = 0 \<and> (applied \<or> s' = s))"
    using run sw swept_from_refl [OF assms(1)]
    by (cases "env_fault x 0") (auto simp: pg_sweep_def pg_stmt_def sql split: if_splits)
  then show ?thesis using False evs by (simp add: swept_from_def)
qed

text \<open>
  On the memory backend there are no such faults: the count is always exact, and with an error, which
  then is the context's, nothing is deleted.
\<close>

theorem vacuum_spares_memory:
  assumes "mem_inv s" and "is_int64 (so_retention opts)"
    and "vacuum_sweep v env s opts = (s', evs, n, e)" and "v = Some memory \<or> v = None"
  shows "mem_inv s' \<and> n = int (card (dom (mem_view s) - dom (mem_view s'))) \<and>
    (\<forall>w r. mem_view s w = Some r \<and> (protected (ce_clk env 0) opts r \<or> e \<noteq> None) \<longrightarrow> mem_view s' w = Some r) \<and>
    (if v = None \<or> so_retention opts \<le> 0 then evs = [] \<and> err_matches e ErrConfigInvalid
     else evs = [OnSweep opts n (call_dur env) e])"
  by (rule mem.vacuum_outcome [OF assms])

definition ex_sweep_env :: "ctx_err \<Rightarrow> instant \<Rightarrow> call_env" where
  "ex_sweep_env c t = \<lparr>ce_ctx = c, ce_clk = \<lambda>_. t, ce_start = At 0, ce_end = At 3\<rparr>"

text \<open>A statement that deleted the row of a retired lease and whose answer was lost.\<close>

definition ex_lost_sweep :: "ctx_err \<Rightarrow> clock \<Rightarrow> pg_env" where
  "ex_lost_sweep c clk = (pg_quiet c clk)\<lparr>env_fault := (\<lambda>_. Some (ErrNew ''connection reset'', True))\<rparr>"

theorem vacuum_spares_witness:
  "let opts = \<lparr>so_retention = second, so_include_expired = True\<rparr>
   in \<exists>s' n e. vacuum_sweep (Some (postgres_in ex_lost_sweep)) (ex_sweep_env None (At (3 * second))) ex_pg opts =
        (s', [OnSweep opts n 3 e], n, e) \<and> e \<noteq> None \<and> n = 0 \<and> map_of (pg_rows s') ''w'' = None \<and>
      (\<exists>p. map_of (pg_rows ex_pg) ''w'' = Some p \<and> \<not> protected (At (3 * second)) opts (pg_row_view p))"
proof -
  let ?o = "\<lparr>so_retention = second, so_include_expired = True\<rparr>"
  let ?env = "ex_sweep_env None (At (3 * second))"
  obtain p where p: "pg_rows ex_pg = [(''w'', p)]" "pg_exit_mode p = None" "pg_updated_at p = At 0" "pg_expires_at p = At 10000"
    by (simp add: ex_pg_simps)
  have s: "seconds_us second = 1000000" by code_simp
  have run: "vacuum_sweep (Some (postgres_in ex_lost_sweep)) ?env ex_pg ?o =
      (ex_pg\<lparr>pg_rows := []\<rparr>, [OnSweep ?o 0 3 (Some (Wrap ''postgres: Sweep'' (ErrNew ''connection reset'')))], 0,
       Some (Wrap ''postgres: Sweep'' (ErrNew ''connection reset'')))"
    by (simp add: vacuum_sweep_def ex_sweep_env_def ex_lost_sweep_def pg_quiet_def pg_sweep_def pg_stmt_def sql_sweep_def sql_swept_def
        p s interval_def time_add_def time_simps withCtxErr_def call_dur_def time_sub_def sat64_def)
  have "pg_inv ex_pg" by (simp add: ex_pg_simps)
  note spares = vacuum_spares [OF this _ run, of ex_lost_sweep]
  have "\<not> protected (At (3 * second)) ?o (pg_row_view p)"
    using spares p(1) by (simp add: is_int64_def ex_lost_sweep_def pg_quiet_def ex_sweep_env_def)
  then show ?thesis using run p(1) by (simp add: Let_def)
qed

text \<open>
  A deleted row. After a sweep deleted a work ID's row, every operation made with the record
  that held it returns \<open>ErrFenced\<close> and changes nothing, whatever calls came between; and the next
  holder acquires at once and reads the zero checkpoint: no state, \<open>ExitNone\<close>, no previous holder.
\<close>

theorem vacuum_deleted_row:
  assumes "mem_inv s" and "mem_issued s < token_limit" and "is_int64 (so_retention opts)"
    and "vacuum_sweep (Some memory) env s opts = (s1, evs, n, e)"
    and "mem_view s (lr_work rec) = Some r" and "held_by r rec" and "mem_view s1 (lr_work rec) = None"
    and "mem.room s1 cs" and "schedule_ok cs" and "declarable m"
  shows "(let s2 = b_run memory cs s1
     in mem_checkpoint None clk' s2 rec st d = (s2, Some ErrFenced) \<and>
        mem_renew None clk' s2 rec d = (s2, Some ErrFenced) \<and>
        mem_release None clk' s2 rec m = (s2, Some ErrFenced) \<and>
        mem_read_checkpoint None clk' s2 rec = (s2, Inl ErrFenced)) \<and>
    (\<exists>s3 rec'. mem_acquire None clk1 s1 (lr_work rec) h ttl = (s3, Inr rec') \<and>
       mem_read_checkpoint None clk2 s3 rec' = (s3, Inr zero_checkpoint))"
  using mem.swept_gone [OF assms, of clk' st d clk1 h ttl clk2] by simp

theorem vacuum_deleted_row_witness:
  "let s = ex_mem ((ex_row ''a'' 1 10)\<lparr>row_exit := ExitRetired\<rparr>);
       s1 = fst (vacuum_sweep (Some memory) (ex_sweep_env None (At 90)) s \<lparr>so_retention = 40, so_include_expired = False\<rparr>)
   in mem_renew None (ex_clock 95) s1 (ex_rec ''a'' 1 10) 50 = (s1, Some ErrFenced)"
proof -
  let ?s = "ex_mem ((ex_row ''a'' 1 10)\<lparr>row_exit := ExitRetired\<rparr>)"
  let ?o = "\<lparr>so_retention = 40, so_include_expired = False\<rparr>"
  let ?env = "ex_sweep_env None (At 90)"
  have run: "vacuum_sweep (Some memory) ?env ?s ?o = (memory_new\<lparr>seq := 1\<rparr>, [OnSweep ?o 1 3 None], 1, None)"
    by (simp add: vacuum_sweep_def ex_sweep_env_def ex_simps mem_sweep_def time_sub_def sat64_def memory_new_def
        call_dur_def)
  have "mem_renew None (ex_clock 95) (memory_new\<lparr>seq := 1\<rparr>) (ex_rec ''a'' 1 10) 50 = (memory_new\<lparr>seq := 1\<rparr>, Some ErrFenced)"
    using vacuum_deleted_row [OF _ _ _ run, of "ex_rec ''a'' 1 10" _ "[]" ExitFinished "ex_clock 95" None 50 "ex_clock 96" "''b''" 50 "ex_clock 97"]
    by (simp add: ex_simps is_int64_def memory_new_def declarable_iff mem.room_def token_limit_def)
  then show ?thesis unfolding Let_def run by simp
qed

end
