(* ===== verification/Codec.thy ===== *)
theory Codec
  imports Runner
begin

text \<open>
  \<open>checkpoint/codec.go\<close>: typed checkpoints.

  The \<open>Codec\<close> interface is the record \<open>codec\<close> of its two methods; \<open>Unmarshal\<close> decodes into a
  variable, so it takes the variable's value and returns the new one with its error. What a codec
  does is a parameter; that it decodes what it encoded is a hypothesis where it is needed. The
  theorem follows a value through \<open>Encode\<close>, the client's \<open>Checkpoint\<close>, the backend and the next
  holder's \<open>ReadCheckpoint\<close> and \<open>Decode\<close>.
\<close>

section \<open>Encode and Decode\<close>

record 'a codec =
  co_marshal :: "'a \<Rightarrow> gerror + bytes"
  co_unmarshal :: "bytes \<Rightarrow> 'a \<Rightarrow> 'a \<times> gerror option"

definition Encode :: "'a codec \<Rightarrow> 'a \<Rightarrow> gerror + bytes" where
  "Encode codec v =
     (case co_marshal codec v of
        Inl err \<Rightarrow> Inl (Wrap ''checkpoint: Encode'' err)
      | Inr data \<Rightarrow> Inr data)"

definition Decode :: "'a codec \<Rightarrow> 'a \<Rightarrow> bytes \<Rightarrow> gerror + 'a" where
  "Decode codec zero data =
     (if data = None then Inr zero
      else
        let (v, err) = co_unmarshal codec data zero
        in case err of
             Some e \<Rightarrow> Inl (Wrap ''checkpoint: Decode'' e)
           | None \<Rightarrow> Inr v)"

lemma Encode_cases:
  "Encode codec v = Inr data \<Longrightarrow> co_marshal codec v = Inr data"
  by (auto simp: Encode_def split: sum.splits)

text \<open>What a backend stores of an encoding decodes to the value, or to zero when it is empty.\<close>

lemma Decode_stored:
  assumes "co_unmarshal codec data zero = (v, None)"
  shows "Decode codec zero (normalize_state data) = Inr (if slice_len data = 0 then zero else v)"
proof (cases "slice_len data = 0")
  case False
  then have "normalize_state data = data" "data \<noteq> None" by (cases data; simp add: normalize_state_def)+
  then show ?thesis using assms False by (auto simp: Decode_def)
qed (simp add: Decode_def normalize_state_def)

section \<open>A value handed over\<close>

context lease_backend
begin

text \<open>
  After a client's \<open>Checkpoint\<close> succeeded and calls of others followed that did not supersede it,
  the first holder to find the lease lapsed reads the state that was stored.
\<close>

lemma checkpoint_inherited:
  assumes "inv s" and "issued s < token_limit" and "client_checkpoint b cfg env s tok data = (s1, evs, None)"
    and "room s1 cs" and "others_ok tok cs"
    and "view (b_run b cs s1) (tk_work tok) = Some r" and "row_token r = tk_token tok" and "row_expires r < clk 0"
  shows "\<exists>s3 rec cp. b_acquire b None clk (b_run b cs s1) (tk_work tok) h ttl = (s3, Inr rec) \<and>
    b_read_checkpoint b None clk' s3 rec = (s3, Inr cp) \<and> cp_state cp = normalize_state data"
proof -
  let ?s2 = "b_run b cs s1"
  obtain row where s1: "inv s1" "view s1 (tk_work tok) = Some row" "held_by row (toRecord tok)"
    "row_checkpoint row = normalize_state data"
    using client_checkpoint_wrote [OF assms(1-3)] by blast
  have "view ?s2 (tk_work tok) = Some row"
    using others_keep_row [OF s1(1) assms(4,5) s1(2,3)] assms(6,7) by (auto simp: superseded_def toRecord_def)
  then have r: "row_checkpoint r = normalize_state data" using s1(4) assms(6) by simp
  have s2: "inv ?s2" "issued ?s2 < token_limit"
    using run_inv [OF s1(1) assms(4) others_ok_schedule [OF assms(5)]] assms(4) by (auto simp: room_def)
  show ?thesis
    using acquire_inherits [OF s2, of "tk_work tok" clk h ttl clk'] assms(6,8) r
    by (fastforce simp: inherited_def)
qed

end

section \<open>Properties\<close>

text \<open>
  C40. Typed checkpoints survive a holder. If a value is encoded and the client's \<open>Checkpoint\<close> of
  the encoding succeeds, then after any calls of other clients that did not supersede the lease, the
  first holder to find it lapsed acquires it, and decoding the state it reads gives the value; the
  zero value if the encoding was nil or empty, which a backend stores as nil. The codec is assumed to
  decode its own encoding of this one value.
\<close>

theorem typed_checkpoint_handoff:
  assumes "Encode codec v = Inr data"
    and roundtrip: "\<And>d. co_marshal codec v = Inr d \<Longrightarrow> co_unmarshal codec d zero = (v, None)"
    and "mem_inv s" and "mem_issued s < token_limit"
    and "client_checkpoint memory cfg env s tok data = (s1, evs, None)"
    and "mem.room s1 cs" and "others_ok tok cs"
    and "mem_view (b_run memory cs s1) (tk_work tok) = Some r" and "row_token r = tk_token tok"
    and "row_expires r < clk 0"
  shows "\<exists>s3 rec cp. mem_acquire None clk (b_run memory cs s1) (tk_work tok) h ttl = (s3, Inr rec) \<and>
    mem_read_checkpoint None clk' s3 rec = (s3, Inr cp) \<and>
    Decode codec zero (cp_state cp) = Inr (if slice_len data = 0 then zero else v)"
proof -
  have dec: "Decode codec zero (normalize_state data) = Inr (if slice_len data = 0 then zero else v)"
    by (rule Decode_stored) (rule roundtrip [OF Encode_cases [OF assms(1)]])
  show ?thesis
    using mem.checkpoint_inherited [OF assms(3-9), of clk h ttl clk'] assms(10) dec by fastforce
qed

text \<open>A codec of naturals, in unary.\<close>

definition ex_codec :: "nat codec" where
  "ex_codec = \<lparr>co_marshal = (\<lambda>n. Inr (Some (replicate n 1))),
     co_unmarshal = (\<lambda>d n. (slice_len d, None))\<rparr>"

theorem typed_checkpoint_handoff_witness:
  "\<exists>s1 s3 rec cp. client_checkpoint memory (ex_cfg ''a'') (ex_call 5) (ex_mem (ex_row ''a'' 1 10)) (ex_token ''a'' 1 10) (Some [1, 1, 1]) =
       (s1, [OnCheckpoint (ex_token ''a'' 1 10) 3 (call_dur (ex_call 5)) None], None) \<and>
     mem_acquire None (ex_clock 2000000) s1 ''w'' ''b'' 50 = (s3, Inr rec) \<and>
     mem_read_checkpoint None (ex_clock 2000001) s3 rec = (s3, Inr cp) \<and>
     Decode ex_codec 0 (cp_state cp) = Inr 3"
proof -
  let ?tok = "ex_token ''a'' 1 10"
  obtain s1 r where run: "client_checkpoint memory (ex_cfg ''a'') (ex_call 5) (ex_mem (ex_row ''a'' 1 10)) ?tok (Some [1, 1, 1]) =
      (s1, [OnCheckpoint ?tok 3 (call_dur (ex_call 5)) None], None)"
    and s1: "mem_view s1 ''w'' = Some r" "row_token r = 1" "row_expires r < ex_clock 2000000 0" "mem.room s1 []"
    by (simp add: ex_client_simps client_checkpoint_def mem_checkpoint_def fenced_events_def op_error_def toRecord_def
        mem.room_def token_limit_def)
  have enc: "Encode ex_codec 3 = Inr (Some [1, 1, 1])"
    by (simp add: Encode_def ex_codec_def numeral_3_eq_3)
  have "\<exists>s3 rec cp. mem_acquire None (ex_clock 2000000) (b_run memory [] s1) (tk_work ?tok) ''b'' 50 = (s3, Inr rec) \<and>
      mem_read_checkpoint None (ex_clock 2000001) s3 rec = (s3, Inr cp) \<and>
      Decode ex_codec 0 (cp_state cp) = Inr (if slice_len (Some [1, 1, 1]) = 0 then 0 else 3)"
    by (rule typed_checkpoint_handoff [OF enc _ _ _ run])
       (use s1 in \<open>auto simp: ex_codec_def ex_client_simps others_ok_def token_limit_def\<close>)
  then show ?thesis using run by (auto simp: ex_client_simps)
qed

end
