(* ===== verification/Cluster.thy ===== *)
theory Cluster
  imports Renewal
begin

text \<open>
  Many holders on one backend: every process that ever acquired a lease, with its renewal goroutine,
  and everyone else who calls the backend.

  A \<open>session\<close> is one success of \<open>Acquire\<close>: the client's configuration, the offset \<open>ss_delta\<close> of the
  backend's clock from the local one, the token, the renewal started with it, and whether the holder
  still considers itself a holder, that is, has not called \<open>Release\<close> or \<open>Forget\<close>. Closed sessions
  stay: their goroutines, late calls and stale tokens go on acting. An action is one atomic step of
  one process; \<open>cluster_step\<close> runs it with the operations of the client and the renewal on the one
  store. The field \<open>rn_store\<close> of a session's renewal is overwritten with the store at each step.
\<close>

record 's session =
  ss_cfg :: client_config
  ss_rcfg :: renewal_config
  ss_delta :: int
  ss_token :: token
  ss_renewal :: "'s renewal"
  ss_open :: bool

record 's cluster =
  cl_store :: 's
  cl_now :: instant
  cl_sessions :: "'s session list"

text \<open>
  Time passes for all; a client calls \<open>Acquire\<close>; session \<open>i\<close>'s goroutine acts, or its client calls
  \<open>Checkpoint\<close>, \<open>Renew\<close>, \<open>Release\<close> or \<open>Forget\<close>; or someone makes a call that needs no token.
\<close>

datatype cluster_action =
    Elapse duration
  | Contend string client_config renewal_config int call_env
  | Renews nat raction
  | Checkpoints nat call_env bytes
  | RenewsNow nat call_env
  | Releases nat call_env exit_mode
  | Forgets nat call_env
  | Calls ctx_err clock bcall

definition session_renewal :: "'s \<Rightarrow> 's session \<Rightarrow> 's renewal" where
  "session_renewal s ss = (ss_renewal ss)\<lparr>rn_store := s\<rparr>"

text \<open>The local time of a process whose clock is \<open>\<delta>\<close> behind the backend's.\<close>

definition local_now :: "int \<Rightarrow> instant \<Rightarrow> instant" where
  "local_now \<delta> t = time_add t (- \<delta>)"

definition elapse :: "duration \<Rightarrow> 's session \<Rightarrow> 's session" where
  "elapse d ss = ss\<lparr>ss_renewal := (ss_renewal ss)\<lparr>rn_now := time_add (rn_now (ss_renewal ss)) d\<rparr>\<rparr>"

definition on_session ::
  "nat \<Rightarrow> 's cluster \<Rightarrow> ('s session \<Rightarrow> 's \<times> bool) \<Rightarrow> 's cluster option" where
  "on_session i C f =
     (if i < length (cl_sessions C)
      then let ss = cl_sessions C ! i; (s, open) = f ss
           in Some (C\<lparr>cl_store := s, cl_sessions := (cl_sessions C)[i := ss\<lparr>ss_open := open\<rparr>]\<rparr>)
      else None)"

fun cluster_step :: "'s backend \<Rightarrow> cluster_action \<Rightarrow> 's cluster \<Rightarrow> 's cluster option" where
  "cluster_step b (Elapse d) C =
     (if 0 \<le> d then Some (C\<lparr>cl_now := time_add (cl_now C) d, cl_sessions := map (elapse d) (cl_sessions C)\<rparr>)
      else None)"
| "cluster_step b (Contend w cfg rcfg \<delta> env) C =
     (let (s, ev, res) = acquire_attempt b cfg env (cl_store C) w
      in Some (case res of
           Inl e \<Rightarrow> C\<lparr>cl_store := s\<rparr>
         | Inr tok \<Rightarrow>
             C\<lparr>cl_store := s,
               cl_sessions := cl_sessions C @
                 [\<lparr>ss_cfg = cfg, ss_rcfg = rcfg, ss_delta = \<delta>, ss_token = tok,
                   ss_renewal = start_renewal cfg rcfg tok None (local_now \<delta> (cl_now C)) s, ss_open = True\<rparr>]\<rparr>))"
| "cluster_step b (Renews i act) C =
     (case act of
        Pass d \<Rightarrow> None
      | Others cs \<Rightarrow> None
      | _ \<Rightarrow>
          if i < length (cl_sessions C) then
            let ss = cl_sessions C ! i
            in case renew_step b (ss_cfg ss) (ss_rcfg ss) (ss_token ss) act (session_renewal (cl_store C) ss) of
                 None \<Rightarrow> None
               | Some r \<Rightarrow> Some (C\<lparr>cl_store := rn_store r, cl_sessions := (cl_sessions C)[i := ss\<lparr>ss_renewal := r\<rparr>]\<rparr>)
          else None)"
| "cluster_step b (Checkpoints i env st) C =
     on_session i C (\<lambda>ss. (fst (client_checkpoint b (ss_cfg ss) env (cl_store C) (ss_token ss) st), ss_open ss))"
| "cluster_step b (RenewsNow i env) C =
     on_session i C (\<lambda>ss. (fst (client_renew b (ss_cfg ss) env (cl_store C) (ss_token ss)), ss_open ss))"
| "cluster_step b (Releases i env m) C =
     on_session i C (\<lambda>ss. (fst (client_release b (ss_cfg ss) env (cl_store C) (ss_token ss) m), False))"
| "cluster_step b (Forgets i env) C =
     on_session i C (\<lambda>ss. (fst (client_forget b (ss_cfg ss) env (cl_store C) (ss_token ss)), False))"
| "cluster_step b (Calls c clk call) C =
     (case call of
        DoReadCheckpoint rec \<Rightarrow> Some (C\<lparr>cl_store := b_call b c clk call (cl_store C)\<rparr>)
      | DoSweep opts \<Rightarrow> Some (C\<lparr>cl_store := b_call b c clk call (cl_store C)\<rparr>)
      | _ \<Rightarrow> None)"

fun cluster_run :: "'s backend \<Rightarrow> cluster_action list \<Rightarrow> 's cluster \<Rightarrow> 's cluster option" where
  "cluster_run b [] C = Some C"
| "cluster_run b (act # acts) C =
     (case cluster_step b act C of None \<Rightarrow> None | Some C' \<Rightarrow> cluster_run b acts C')"

text \<open>
  The calls of an action read the backend's clock at the current time, which an \<open>Acquire\<close> and the
  local reading before it may precede; retentions are 64-bit.
\<close>

definition reads_now :: "instant \<Rightarrow> clock \<Rightarrow> bool" where
  "reads_now t clk \<longleftrightarrow> mono clk \<and> clk 0 = t"

fun timely :: "cluster_action \<Rightarrow> instant \<Rightarrow> bool" where
  "timely (Elapse d) t \<longleftrightarrow> True"
| "timely (Contend w cfg rcfg \<delta> env) t \<longleftrightarrow> reads_now t (ce_clk env) \<and> ns (ce_start env) + \<delta> \<le> ns t"
| "timely (Renews i act) t \<longleftrightarrow>
     (case act of Serve c clk \<Rightarrow> reads_now t clk | Late c clk \<Rightarrow> reads_now t clk | _ \<Rightarrow> True)"
| "timely (Checkpoints i env st) t \<longleftrightarrow> reads_now t (ce_clk env)"
| "timely (RenewsNow i env) t \<longleftrightarrow> reads_now t (ce_clk env)"
| "timely (Releases i env m) t \<longleftrightarrow> reads_now t (ce_clk env)"
| "timely (Forgets i env) t \<longleftrightarrow> reads_now t (ce_clk env)"
| "timely (Calls c clk call) t \<longleftrightarrow> reads_now t clk \<and> call_ok call"

fun timely_run :: "'s backend \<Rightarrow> cluster_action list \<Rightarrow> 's cluster \<Rightarrow> bool" where
  "timely_run b [] C \<longleftrightarrow> True"
| "timely_run b (act # acts) C \<longleftrightarrow> timely act (cl_now C) \<and>
     (case cluster_step b act C of None \<Rightarrow> True | Some C' \<Rightarrow> timely_run b acts C')"

text \<open>
  The sessions that take themselves for the holder of \<open>w\<close>: open, and \<open>LeaseWindow\<close> reports a
  deadline that the local clock has not passed.
\<close>

definition believes :: "string \<Rightarrow> 's session \<Rightarrow> bool" where
  "believes w ss \<longleftrightarrow> ss_open ss \<and> tk_work (ss_token ss) = w \<and>
     snd (lease_window (ss_renewal ss)) \<and> rn_now (ss_renewal ss) \<le> fst (lease_window (ss_renewal ss))"

definition believers :: "string \<Rightarrow> 's cluster \<Rightarrow> nat list" where
  "believers w C = filter (\<lambda>i. believes w (cl_sessions C ! i)) [0..<length (cl_sessions C)]"

section \<open>A step of the cluster, seen by each session\<close>

text \<open>The backend calls an action makes.\<close>

fun own_calls :: "client_config \<Rightarrow> token \<Rightarrow> raction \<Rightarrow> schedule" where
  "own_calls cfg tok (Serve c clk) = [(c, clk, DoRenew (toRecord tok) (cf_ttl cfg))]"
| "own_calls cfg tok (Late c clk) = [(c, clk, DoRenew (toRecord tok) (cf_ttl cfg))]"
| "own_calls cfg tok _ = []"

lemma renew_step_store:
  assumes "renew_step b cfg rcfg tok act r = Some r'" and "\<And>d. act \<noteq> Pass d" and "\<And>cs. act \<noteq> Others cs"
  shows "rn_store r' = b_run b (own_calls cfg tok act) (rn_store r) \<and> rn_now r' = rn_now r"
  using assms(1)
proof (cases rule: renew_stepE)
  case (pass d)
  then show ?thesis using assms(2) by blast
next
  case (others cs)
  then show ?thesis using assms(3) by blast
qed (auto simp: renew_helpers)

lemma client_ops_store:
  "fst (client_checkpoint b cfg env s tok st) = b_run b [(ce_ctx env, ce_clk env, DoCheckpoint (toRecord tok) st (cf_ttl cfg))] s"
  "fst (client_renew b cfg env s tok) = b_run b [(ce_ctx env, ce_clk env, DoRenew (toRecord tok) (cf_ttl cfg))] s"
  "fst (client_forget b cfg env s tok) = b_run b [(ce_ctx env, ce_clk env, DoForget (toRecord tok))] s"
  "fst (client_release b cfg env s tok m) =
     (if declarable m then b_run b [(ce_ctx env, ce_clk env, DoRelease (toRecord tok) m)] s else s)"
  by (simp_all add: client_checkpoint_def client_renew_def client_forget_def client_release_def declarable_def
      Let_def split: prod.splits)

section \<open>The invariant\<close>

lemma session_renewal_simps [simp]:
  "rn_store (session_renewal s ss) = s" "rn_now (session_renewal s ss) = rn_now (ss_renewal ss)"
  "rn_window (session_renewal s ss) = rn_window (ss_renewal ss)"
  "rn_phase (session_renewal s ss) = rn_phase (ss_renewal ss)"
  "window_inv cfg tok (session_renewal s ss) = window_inv cfg tok (ss_renewal ss)"
  by (simp_all add: session_renewal_def window_inv_def)

context lease_backend
begin

text \<open>
  Local times keep their offset, tokens were issued, and what \<open>Renewal\<close> proves of one renewal holds of
  every open session on the shared store.
\<close>

definition session_ok :: "'s \<Rightarrow> instant \<Rightarrow> 's session \<Rightarrow> bool" where
  "session_ok s t ss \<longleftrightarrow>
     ns (rn_now (ss_renewal ss)) + ss_delta ss = ns t \<and> unat (tk_token (ss_token ss)) \<le> issued s \<and>
     (ss_open ss \<longrightarrow> window_inv (ss_cfg ss) (ss_token ss) (ss_renewal ss) \<and>
        held_inv (ss_delta ss) (ss_cfg ss) (ss_token ss) (session_renewal s ss))"

definition cluster_inv :: "'s cluster \<Rightarrow> bool" where
  "cluster_inv C \<longleftrightarrow> inv (cl_store C) \<and>
     distinct (map (\<lambda>ss. tk_token (ss_token ss)) (cl_sessions C)) \<and>
     list_all (session_ok (cl_store C) (cl_now C)) (cl_sessions C)"

text \<open>Calls of others, and the holder's own that keep its lease.\<close>

lemma session_calls:
  assumes "session_ok s t ss" and "inv s" and "issued s + 2 * length cs < token_limit"
    and "list_all (\<lambda>(c, clk, call). call_ok call \<and> reads_now t clk \<and>
      (ss_open ss \<longrightarrow> holder_or_foreign (ss_cfg ss) (ss_token ss) call)) cs"
  shows "session_ok (b_run b cs s) t ss"
proof -
  have sched: "schedule_ok cs" using assms(4) by (auto simp: schedule_ok_def list_all_iff)
  have mono: "issued s \<le> issued (b_run b cs s)"
    using run_inv [OF assms(2) _ sched] assms(3) by (simp add: room_def)
  have "held_inv (ss_delta ss) (ss_cfg ss) (ss_token ss) (session_renewal (b_run b cs s) ss)" if "ss_open ss"
  proof (rule held_inv_step [where act = "Others cs" and r = "session_renewal s ss" and rcfg = "ss_rcfg ss"])
    show "fair_action issued (ss_cfg ss) (ss_token ss) (ss_delta ss) (Others cs) (session_renewal s ss)"
      using assms(1,3,4) that by (auto simp: session_ok_def reads_now_def served_at_def list_all_iff)
    show "renew_step b (ss_cfg ss) (ss_rcfg ss) (ss_token ss) (Others cs) (session_renewal s ss) =
        Some (session_renewal (b_run b cs s) ss)" by (simp add: session_renewal_def)
  qed (use assms(1) that in \<open>simp_all add: session_ok_def\<close>)
  then show ?thesis using assms(1) mono by (auto simp: session_ok_def)
qed

lemma session_elapse:
  assumes "session_ok s t ss" and "0 \<le> d"
  shows "session_ok s (time_add t d) (elapse d ss)"
proof -
  let ?r = "session_renewal s ss"
  have pass: "renew_step b (ss_cfg ss) (ss_rcfg ss) (ss_token ss) (Pass d) ?r = Some (session_renewal s (elapse d ss))"
    using assms(2) by (simp add: session_renewal_def elapse_def)
  have "window_inv (ss_cfg ss) (ss_token ss) (session_renewal s (elapse d ss)) \<and>
      held_inv (ss_delta ss) (ss_cfg ss) (ss_token ss) (session_renewal s (elapse d ss))" if "ss_open ss"
    using window_inv_step [OF _ pass] held_inv_step [OF _ _ _ pass, of "ss_delta ss"] assms(1) that
    by (auto simp: session_ok_def)
  then show ?thesis using assms(1) by (simp add: session_ok_def elapse_def)
qed

text \<open>A session's goroutine acts: an action of \<open>Renewal\<close> for itself, calls of others for the rest.\<close>

lemma session_renews:
  assumes "session_ok s t ss" and "inv s" and "issued s < token_limit" and "timely (Renews i act) t"
    and "renew_step b (ss_cfg ss) (ss_rcfg ss) (ss_token ss) act (session_renewal s ss) = Some r"
    and "\<And>d. act \<noteq> Pass d" and "\<And>cs. act \<noteq> Others cs"
  shows "session_ok (rn_store r) t (ss\<lparr>ss_renewal := r\<rparr>)"
    and "rn_store r = b_run b (own_calls (ss_cfg ss) (ss_token ss) act) s"
proof -
  have same: "session_renewal (rn_store r) (ss\<lparr>ss_renewal := r\<rparr>) = r" by (simp add: session_renewal_def)
  have r: "rn_store r = b_run b (own_calls (ss_cfg ss) (ss_token ss) act) s" "rn_now r = rn_now (ss_renewal ss)"
    using renew_step_store [OF assms(5-7)] by simp_all
  then show "rn_store r = b_run b (own_calls (ss_cfg ss) (ss_token ss) act) s" by simp
  have "length (own_calls (ss_cfg ss) (ss_token ss) act) \<le> 1" "schedule_ok (own_calls (ss_cfg ss) (ss_token ss) act)"
    by (cases act; simp)+
  moreover from this have "issued s \<le> issued (rn_store r)" if "act = Serve c clk \<or> act = Late c clk" for c clk
    using that r(1) call_step(2) [OF assms(2,3), where c = c and clk = clk and
        call = "DoRenew (toRecord (ss_token ss)) (cf_ttl (ss_cfg ss))"] by auto
  ultimately have mono: "issued s \<le> issued (rn_store r)" using r(1) by (cases act) auto
  have fair: "fair_action issued (ss_cfg ss) (ss_token ss) (ss_delta ss) act (session_renewal s ss)"
    using assms(1,3,4,7) by (cases act) (auto simp: session_ok_def reads_now_def served_at_def)
  have "window_inv (ss_cfg ss) (ss_token ss) r \<and> held_inv (ss_delta ss) (ss_cfg ss) (ss_token ss) r" if "ss_open ss"
    using window_inv_step [OF _ assms(5)] held_inv_step [OF _ _ fair assms(5)] assms(1) that
    by (auto simp: session_ok_def)
  then show "session_ok (rn_store r) t (ss\<lparr>ss_renewal := r\<rparr>)"
    using assms(1) r(2) mono same by (simp add: session_ok_def)
qed

text \<open>A new session, from a successful \<open>Acquire\<close>.\<close>

lemma session_opens:
  assumes "inv s" and "issued s < token_limit" and "acquire_attempt b cfg env s w = (s', ev, Inr tok)"
    and "reads_now t (ce_clk env)" and "ns (ce_start env) + \<delta> \<le> ns t"
  shows "session_ok s' t \<lparr>ss_cfg = cfg, ss_rcfg = rcfg, ss_delta = \<delta>, ss_token = tok,
      ss_renewal = start_renewal cfg rcfg tok None (local_now \<delta> t) s', ss_open = True\<rparr>"
    and "issued s < unat (tk_token tok)"
proof -
  note ok = attempt_ok [OF assms(1-3)]
  have off: "offset_call \<delta> env" using assms(4,5) by (auto simp: offset_call_def reads_now_def)
  obtain row where row: "tk_work tok = w" "view s' w = Some row" "held_by row (toRecord tok)"
    "ns (tk_deadline tok) + \<delta> \<le> ns (row_expires row)" "unat (tk_token tok) = issued s'"
    using ok(4) [OF refl, of \<delta>] off by blast
  have dl: "tk_deadline tok = time_add (ce_start env) (cf_ttl cfg)"
    using assms(3) by (auto simp: acquire_attempt_def Let_def split: sum.splits prod.splits)
  show "issued s < unat (tk_token tok)" using ok(4) [OF refl] by blast
  show "session_ok s' t \<lparr>ss_cfg = cfg, ss_rcfg = rcfg, ss_delta = \<delta>, ss_token = tok,
      ss_renewal = start_renewal cfg rcfg tok None (local_now \<delta> t) s', ss_open = True\<rparr>"
    using ok(1) row dl assms(5)
    by (auto simp: session_ok_def window_inv_def held_inv_def covers_def start_renewal_def session_renewal_def
        initialWindow_def local_now_def)
qed

end

section \<open>Every action keeps the invariant\<close>

text \<open>A call made with a token.\<close>

fun made_with :: "token \<Rightarrow> bcall \<Rightarrow> bool" where
  "made_with tok (DoCheckpoint rec st ttl) \<longleftrightarrow> rec = toRecord tok"
| "made_with tok (DoRenew rec ttl) \<longleftrightarrow> rec = toRecord tok"
| "made_with tok (DoRelease rec m) \<longleftrightarrow> rec = toRecord tok"
| "made_with tok (DoForget rec) \<longleftrightarrow> rec = toRecord tok"
| "made_with tok call \<longleftrightarrow> False"

lemma made_with_foreign:
  "made_with tok call \<Longrightarrow> tk_token tok' \<noteq> tk_token tok \<Longrightarrow> foreign (toRecord tok') call \<and> call_ok call"
  by (cases call) auto

lemma own_calls_made: "list_all (\<lambda>(c, clk, call). made_with tok call) (own_calls cfg tok act)"
  by (cases act) auto

lemma distinct_tokens:
  "distinct (map (\<lambda>ss. tk_token (ss_token ss)) xs) \<Longrightarrow> i < length xs \<Longrightarrow> j < length xs \<Longrightarrow> i \<noteq> j \<Longrightarrow>
   tk_token (ss_token (xs ! i)) \<noteq> tk_token (ss_token (xs ! j))"
  by (fastforce simp: distinct_conv_nth)

context lease_backend
begin

text \<open>A session \<open>i\<close> that makes at most one call with its token, and becomes \<open>ss'\<close>.\<close>

lemma cluster_acts:
  assumes "cluster_inv C" and "issued (cl_store C) + 2 < token_limit" and "i < length (cl_sessions C)"
    and "length cs \<le> 1" and "list_all (\<lambda>(c, clk, call). reads_now (cl_now C) clk \<and> made_with (ss_token (cl_sessions C ! i)) call) cs"
    and "session_ok (b_run b cs (cl_store C)) (cl_now C) ss'" and "ss_token ss' = ss_token (cl_sessions C ! i)"
  shows "cluster_inv (C\<lparr>cl_store := b_run b cs (cl_store C), cl_sessions := (cl_sessions C)[i := ss']\<rparr>) \<and>
    issued (b_run b cs (cl_store C)) \<le> issued (cl_store C) + 2"
proof -
  let ?s = "b_run b cs (cl_store C)"
  have inv: "inv (cl_store C)" and dis: "distinct (map (\<lambda>ss. tk_token (ss_token ss)) (cl_sessions C))"
    and ok: "\<And>j. j < length (cl_sessions C) \<Longrightarrow> session_ok (cl_store C) (cl_now C) (cl_sessions C ! j)"
    using assms(1) by (auto simp: cluster_inv_def list_all_length)
  have room: "issued (cl_store C) + 2 * length cs < token_limit" using assms(2,4) by simp
  have sched: "schedule_ok cs"
    using assms(5) made_with_foreign [of "ss_token (cl_sessions C ! i)" _ "zero_token\<lparr>tk_token := tk_token (ss_token (cl_sessions C ! i)) + 1\<rparr>"]
    by (fastforce simp: schedule_ok_def list_all_iff)
  have run: "inv ?s" "issued ?s \<le> issued (cl_store C) + 2"
    using run_inv [OF inv _ sched] room assms(4) by (auto simp: room_def)
  have others: "session_ok ?s (cl_now C) (cl_sessions C ! j)" if "j < length (cl_sessions C)" "j \<noteq> i" for j
  proof (rule session_calls [OF ok [OF that(1)] inv room])
    show "list_all (\<lambda>(c, clk, call). call_ok call \<and> reads_now (cl_now C) clk \<and>
        (ss_open (cl_sessions C ! j) \<longrightarrow>
          holder_or_foreign (ss_cfg (cl_sessions C ! j)) (ss_token (cl_sessions C ! j)) call)) cs"
      using assms(5) made_with_foreign distinct_tokens [OF dis that(1) assms(3) that(2)]
      by (fastforce simp: list_all_iff holder_or_foreign_def)
  qed
  have "map (\<lambda>ss. tk_token (ss_token ss)) ((cl_sessions C)[i := ss']) = map (\<lambda>ss. tk_token (ss_token ss)) (cl_sessions C)"
    using assms(3,7) by (simp add: map_update list_update_same_conv)
  then show ?thesis
    using run dis others assms(3,6) by (auto simp: cluster_inv_def list_all_length nth_list_update)
qed

lemma cluster_step_inv:
  assumes "cluster_inv C" and "issued (cl_store C) + 2 < token_limit" and "timely act (cl_now C)"
    and "cluster_step b act C = Some C'"
  shows "cluster_inv C' \<and> issued (cl_store C') \<le> issued (cl_store C) + 2"
proof -
  have inv: "inv (cl_store C)" and lim: "issued (cl_store C) < token_limit"
    and ok: "\<And>j. j < length (cl_sessions C) \<Longrightarrow> session_ok (cl_store C) (cl_now C) (cl_sessions C ! j)"
    using assms(1,2) by (auto simp: cluster_inv_def list_all_length)
  let ?s = "cl_store C"
  have op: "cluster_inv C' \<and> issued (cl_store C') \<le> issued ?s + 2"
    if "on_session i C f = Some C'" "f (cl_sessions C ! i) = (b_run b cs ?s, q)" "length cs \<le> 1"
      "list_all (\<lambda>(c, clk, call). reads_now (cl_now C) clk \<and> made_with (ss_token (cl_sessions C ! i)) call) cs"
      "q \<longrightarrow> ss_open (cl_sessions C ! i) \<and> list_all (\<lambda>(c, clk, call). holder_or_foreign (ss_cfg (cl_sessions C ! i)) (ss_token (cl_sessions C ! i)) call) cs"
    for i f cs q
  proof -
    let ?ss = "cl_sessions C ! i"
    have i: "i < length (cl_sessions C)" "C' = C\<lparr>cl_store := b_run b cs ?s, cl_sessions := (cl_sessions C)[i := ?ss\<lparr>ss_open := q\<rparr>]\<rparr>"
      using that(1,2) by (auto simp: on_session_def split: if_splits)
    have "session_ok ?s (cl_now C) (?ss\<lparr>ss_open := q\<rparr>)"
      using ok [OF i(1)] that(5) by (auto simp: session_ok_def session_renewal_def)
    then have "session_ok (b_run b cs ?s) (cl_now C) (?ss\<lparr>ss_open := q\<rparr>)"
    proof (rule session_calls [OF _ inv])
      show "list_all (\<lambda>(c, clk, call). call_ok call \<and> reads_now (cl_now C) clk \<and> (ss_open (?ss\<lparr>ss_open := q\<rparr>) \<longrightarrow>
          holder_or_foreign (ss_cfg (?ss\<lparr>ss_open := q\<rparr>)) (ss_token (?ss\<lparr>ss_open := q\<rparr>)) call)) cs"
        using that(4,5) by (fastforce simp: list_all_iff elim!: made_with.elims)
    qed (use assms(2) that(3) in simp)
    from cluster_acts [OF assms(1,2) i(1) that(3,4) this] show ?thesis using i(2) by simp
  qed
  show ?thesis
  proof (cases act)
    case (Elapse d)
    then have "C' = C\<lparr>cl_now := time_add (cl_now C) d, cl_sessions := map (elapse d) (cl_sessions C)\<rparr>" "0 \<le> d"
      using assms(4) by (auto split: if_splits)
    then show ?thesis
      using assms(1) session_elapse by (auto simp: cluster_inv_def list_all_iff elapse_def comp_def)
  next
    case (Contend w cfg rcfg \<delta> env)
    obtain s ev res where att: "acquire_attempt b cfg env ?s w = (s, ev, res)" by (cases "acquire_attempt b cfg env ?s w")
    have clk: "reads_now (cl_now C) (ce_clk env)" "ns (ce_start env) + \<delta> \<le> ns (cl_now C)"
      using assms(3) Contend by auto
    note a = attempt_ok(1-3) [OF inv lim att]
    have call: "s = b_run b [(ce_ctx env, ce_clk env, DoAcquire w (cf_holder cfg) (cf_ttl cfg))] ?s"
      using att by (auto simp: acquire_attempt_def Let_def split: prod.splits sum.splits)
    have old: "session_ok s (cl_now C) ss" if "ss \<in> set (cl_sessions C)" for ss
    proof -
      have "session_ok ?s (cl_now C) ss" using assms(1) that by (auto simp: cluster_inv_def list_all_iff)
      from session_calls [OF this inv, of "[(ce_ctx env, ce_clk env, DoAcquire w (cf_holder cfg) (cf_ttl cfg))]"]
      show ?thesis using assms(2) clk by (simp add: call holder_or_foreign_def)
    qed
    show ?thesis
    proof (cases res)
      case (Inl e)
      then show ?thesis
        using assms(1,4) Contend att a old by (auto simp: cluster_inv_def list_all_iff)
    next
      case (Inr tok)
      note new = session_opens(1) [OF inv lim att [unfolded Inr] clk, of rcfg] session_opens(2) [OF inv lim att [unfolded Inr] clk]
      have "tk_token tok \<notin> (\<lambda>ss. tk_token (ss_token ss)) ` set (cl_sessions C)"
        using assms(1) new(2) by (auto simp: cluster_inv_def list_all_iff session_ok_def)
      then show ?thesis
        using assms(1,4) Contend att a old new(1) Inr by (auto simp: cluster_inv_def list_all_iff)
    qed
  next
    case (Renews i ract)
    let ?ss = "cl_sessions C ! i"
    from assms(4) Renews obtain r where i: "i < length (cl_sessions C)"
      "renew_step b (ss_cfg ?ss) (ss_rcfg ?ss) (ss_token ?ss) ract (session_renewal ?s ?ss) = Some r"
      "C' = C\<lparr>cl_store := rn_store r, cl_sessions := (cl_sessions C)[i := ?ss\<lparr>ss_renewal := r\<rparr>]\<rparr>"
      and act: "\<And>d. ract \<noteq> Pass d" "\<And>cs. ract \<noteq> Others cs"
      by (auto simp: Let_def split: raction.splits if_splits option.splits)
    note st = session_renews [OF ok [OF i(1)] inv lim assms(3) [unfolded Renews] i(2) act]
    have "list_all (\<lambda>(c, clk, call). reads_now (cl_now C) clk) (own_calls (ss_cfg ?ss) (ss_token ?ss) ract)"
      "length (own_calls (ss_cfg ?ss) (ss_token ?ss) ract) \<le> 1"
      using assms(3) Renews by (cases ract; simp)+
    then have "list_all (\<lambda>(c, clk, call). reads_now (cl_now C) clk \<and> made_with (ss_token ?ss) call) (own_calls (ss_cfg ?ss) (ss_token ?ss) ract)"
      using own_calls_made [of "ss_token ?ss" "ss_cfg ?ss" ract] by (auto simp: list_all_iff)
    from cluster_acts [OF assms(1,2) i(1) _ this, of "?ss\<lparr>ss_renewal := r\<rparr>"] show ?thesis
      using i(3) st \<open>length _ \<le> 1\<close> by simp
  next
    case (Checkpoints i env st)
    show ?thesis
      by (rule op [of i _ "[(ce_ctx env, ce_clk env, DoCheckpoint (toRecord (ss_token (cl_sessions C ! i))) st (cf_ttl (ss_cfg (cl_sessions C ! i))))]"])
         (use assms(3,4) Checkpoints in \<open>auto simp: client_ops_store holder_or_foreign_def\<close>)
  next
    case (RenewsNow i env)
    show ?thesis
      by (rule op [of i _ "[(ce_ctx env, ce_clk env, DoRenew (toRecord (ss_token (cl_sessions C ! i))) (cf_ttl (ss_cfg (cl_sessions C ! i))))]"])
         (use assms(3,4) RenewsNow in \<open>auto simp: client_ops_store holder_or_foreign_def\<close>)
  next
    case (Releases i env m)
    show ?thesis
      by (rule op [of i "\<lambda>ss. (fst (client_release b (ss_cfg ss) env (cl_store C) (ss_token ss) m), False)"
              "if declarable m then [(ce_ctx env, ce_clk env, DoRelease (toRecord (ss_token (cl_sessions C ! i))) m)] else []" False])
         (use assms(3,4) Releases in \<open>auto simp: client_ops_store\<close>)
  next
    case (Forgets i env)
    show ?thesis
      by (rule op [of i _ "[(ce_ctx env, ce_clk env, DoForget (toRecord (ss_token (cl_sessions C ! i))))]" False])
         (use assms(3,4) Forgets in \<open>auto simp: client_ops_store\<close>)
  next
    case (Calls c clk call)
    have ok_call: "C' = C\<lparr>cl_store := b_run b [(c, clk, call)] ?s\<rparr>" "\<And>rec. foreign rec call" "call_ok call" "reads_now (cl_now C) clk"
      using assms(3,4) Calls by (auto split: bcall.splits)
    note a = call_step(1-3) [OF inv lim ok_call(3), of c clk]
    have "session_ok (b_run b [(c, clk, call)] ?s) (cl_now C) ss" if "ss \<in> set (cl_sessions C)" for ss
    proof -
      have "session_ok ?s (cl_now C) ss" using assms(1) that by (auto simp: cluster_inv_def list_all_iff)
      from session_calls [OF this inv, of "[(c, clk, call)]"] show ?thesis
        using assms(2) ok_call by (simp add: holder_or_foreign_def)
    qed
    then show ?thesis using a assms(1) ok_call(1) by (auto simp: cluster_inv_def list_all_iff)
  qed
qed

lemma cluster_run_inv:
  "cluster_inv C \<Longrightarrow> issued (cl_store C) + 2 * length acts < token_limit \<Longrightarrow> timely_run b acts C \<Longrightarrow>
   cluster_run b acts C = Some C' \<Longrightarrow> cluster_inv C'"
proof (induction acts arbitrary: C)
  case (Cons act acts)
  then obtain C1 where C1: "cluster_step b act C = Some C1" "cluster_run b acts C1 = Some C'"
    by (auto split: option.splits)
  note st = cluster_step_inv [OF Cons.prems(1) _ _ C1(1)]
  show ?case
  proof (rule Cons.IH [OF _ _ _ C1(2)])
    show "cluster_inv C1" "issued (cl_store C1) + 2 * length acts < token_limit" "timely_run b acts C1"
      using st Cons.prems(2,3) C1(1) by auto
  qed
qed simp

end

section \<open>At most one holder\<close>

lemma length_le_1:
  assumes "distinct xs" and "\<And>x y. x \<in> set xs \<Longrightarrow> y \<in> set xs \<Longrightarrow> x = y"
  shows "length xs \<le> 1"
proof -
  have "card (set xs) \<le> 1" using assms(2) by (simp add: card_le_Suc0_iff_eq)
  then show ?thesis using distinct_card [OF assms(1)] by simp
qed

context lease_backend
begin

lemma believer_holds:
  assumes "cluster_inv C" and "i \<in> set (believers w C)"
  shows "\<exists>row. view (cl_store C) w = Some row \<and> held_by row (toRecord (ss_token (cl_sessions C ! i))) \<and>
    cl_now C \<le> row_expires row"
proof -
  let ?ss = "cl_sessions C ! i"
  have i: "i < length (cl_sessions C)" "believes w ?ss" using assms(2) by (auto simp: believers_def)
  then have ok: "session_ok (cl_store C) (cl_now C) ?ss" using assms(1) by (simp add: cluster_inv_def list_all_length)
  let ?r = "ss_renewal ?ss"
  have win: "rn_now ?r \<le> rn_window ?r" and w: "tk_work (ss_token ?ss) = w"
    using ok i(2) by (auto simp: believes_def session_ok_def window_inv_def lease_window_def split: if_splits)
  have "covers (ss_delta ?ss) (ss_token ?ss) (rn_now ?r) (cl_store C) (rn_window ?r)"
    using ok i(2) by (simp add: believes_def session_ok_def held_inv_def)
  then obtain row where row: "view (cl_store C) w = Some row" "held_by row (toRecord (ss_token ?ss))"
    "ns (rn_window ?r) + ss_delta ?ss \<le> ns (row_expires row)"
    using win w by (auto simp: covers_def)
  have "ns (rn_now ?r) + ss_delta ?ss = ns (cl_now C)" using ok by (simp add: session_ok_def)
  then show ?thesis using row win by (auto simp: less_eq_instant_def)
qed

lemma one_believer:
  assumes "cluster_inv C"
  shows "length (believers w C) \<le> 1"
proof (rule length_le_1)
  show "distinct (believers w C)" by (simp add: believers_def)
  fix i j assume ij: "i \<in> set (believers w C)" "j \<in> set (believers w C)"
  have "tk_token (ss_token (cl_sessions C ! i)) = tk_token (ss_token (cl_sessions C ! j))"
    using believer_holds [OF assms ij(1)] believer_holds [OF assms ij(2)] by (auto simp: held_by_def)
  then show "i = j"
    using distinct_tokens [of "cl_sessions C" i j] assms ij by (auto simp: cluster_inv_def believers_def)
qed

lemma cluster_holders:
  assumes "inv s" and "issued s + 2 * length acts < token_limit"
    and "timely_run b acts \<lparr>cl_store = s, cl_now = t, cl_sessions = []\<rparr>"
    and "cluster_run b acts \<lparr>cl_store = s, cl_now = t, cl_sessions = []\<rparr> = Some C"
  shows "length (believers w C) \<le> 1 \<and>
    (\<forall>i \<in> set (believers w C). \<exists>row. view (cl_store C) w = Some row \<and>
       held_by row (toRecord (ss_token (cl_sessions C ! i))) \<and> cl_now C \<le> row_expires row)"
proof -
  have "cluster_inv \<lparr>cl_store = s, cl_now = t, cl_sessions = []\<rparr>" using assms(1) by (simp add: cluster_inv_def)
  from cluster_run_inv [OF this _ assms(3,4)] have "cluster_inv C" using assms(2) by simp
  then show ?thesis using one_believer believer_holds by blast
qed

end

text \<open>
  C3. At most one holder. Any number of processes with their own clocks, each a constant offset from
  the database's, acquire, renew from their goroutines, checkpoint, release, forget and sweep in any
  order, with stalled, late and abandoned calls and stale tokens. At every moment at most one open
  session of a work ID still believes to hold it, that is, has a \<open>LeaseWindow\<close> that its clock has not
  passed; and the table holds the lease under exactly that session's token, unexpired.
\<close>

theorem at_most_one_holder:
  assumes "pg_inv db" and "pg_issued db + 2 * length acts < token_limit"
    and "timely_run postgres acts \<lparr>cl_store = db, cl_now = t, cl_sessions = []\<rparr>"
    and "cluster_run postgres acts \<lparr>cl_store = db, cl_now = t, cl_sessions = []\<rparr> = Some C"
  shows "length (believers w C) \<le> 1 \<and>
    (\<forall>i \<in> set (believers w C). \<exists>row. pg_view (cl_store C) w = Some row \<and>
       held_by row (toRecord (ss_token (cl_sessions C ! i))) \<and> cl_now C \<le> row_expires row)"
  by (rule pg.cluster_holders [OF assms])

text \<open>
  Two processes, two hours apart: \<open>a\<close> acquires, stalls past its lease, \<open>b\<close> acquires, and then a late
  write of \<open>a\<close> arrives.
\<close>

definition ex_contend :: "string \<Rightarrow> int \<Rightarrow> int \<Rightarrow> cluster_action" where
  "ex_contend h \<delta> t = Contend ''w'' (ex_cfg h) (renewal_defaults (ex_cfg h)) \<delta>
     \<lparr>ce_ctx = None, ce_clk = ex_clock t, ce_start = At (t - \<delta>), ce_end = At (t - \<delta>)\<rparr>"

definition ex_cluster_run :: "cluster_action list" where
  "ex_cluster_run =
     [ex_contend ''a'' 0 5, Elapse 2000000, ex_contend ''b'' 7200000000000 2000005,
      Checkpoints 0 \<lparr>ce_ctx = None, ce_clk = ex_clock 2000005, ce_start = At 2000005, ce_end = At 2000005\<rparr> None]"

theorem at_most_one_holder_witness:
  "\<exists>C. cluster_run postgres ex_cluster_run \<lparr>cl_store = pg_empty, cl_now = At 5, cl_sessions = []\<rparr> = Some C \<and>
     length (cl_sessions C) = 2 \<and> believers ''w'' C = [1] \<and> length (believers ''w'' C) \<le> 1"
proof -
  let ?C = "\<lparr>cl_store = pg_empty, cl_now = At 5, cl_sessions = []\<rparr>"
  have us: "interval_us millisecond = 1000" by (simp add: interval_us_def)
  have "\<exists>C. cluster_run postgres ex_cluster_run ?C = Some C \<and> length (cl_sessions C) = 2 \<and> believers ''w'' C = [1]"
    and timely: "timely_run postgres ex_cluster_run ?C"
    by (simp_all add: ex_cluster_run_def ex_contend_def ex_client_simps ex_pg_simps us reads_now_def renewal_defaults_def
        start_renewal_def local_now_def initialWindow_def elapse_def on_session_def client_checkpoint_def pg_checkpoint_op_def
        pg_stmt_def sql_checkpoint_def sql_update_def pg_classify_def fenced_events_def op_error_def toRecord_def
        believers_def believes_def lease_window_def upt_conv_Cons)
  then obtain C where run: "cluster_run postgres ex_cluster_run ?C = Some C" "length (cl_sessions C) = 2"
    "believers ''w'' C = [1]" by blast
  have "length (believers ''w'' C) \<le> 1"
    using at_most_one_holder [OF pg_inv_empty _ timely run(1), of "''w''"]
    by (simp add: ex_cluster_run_def pg_issued_def pg_empty_def token_limit_def)
  then show ?thesis using run by blast
qed

end
