(* ===== verification/Migration.thy ===== *)
theory Migration
  imports Codec "HOL-Library.Sublist"
begin

text \<open>
  \<open>examples/cross-tenant-migration/main.go\<close>: a migration that any coordinator can take over, on top
  of the runner, typed checkpoints and the lease client.

  The cursor is the list of migrated tenants. Its codec is a parameter (\<open>checkpoint.JSON()\<close> only
  calls \<open>encoding/json\<close>), and so is the effect of migrating one tenant, a function \<open>mt\<close> on the world
  that returns nil or the error of the renewal context. Log lines are left out.
\<close>

section \<open>The coordinator\<close>

record progress =
  mp_tenants :: "string list"

definition zero_progress :: progress where
  "zero_progress = \<lparr>mp_tenants = []\<rparr>"

type_synonym 'w migrate = "'w \<Rightarrow> string \<Rightarrow> 'w \<times> ctx_err"

text \<open>The loop over the tenants; \<open>migratedSet\<close> is what the cursor held at the start.\<close>

fun migrate_loop ::
  "progress codec \<Rightarrow> 'w lease \<Rightarrow> 'w migrate \<Rightarrow> token \<Rightarrow> string list \<Rightarrow> string list \<Rightarrow> progress \<Rightarrow> 'w \<Rightarrow>
   'w \<times> progress \<times> gerror option" where
  "migrate_loop codec L mt tok migratedSet [] progress w = (w, progress, None)"
| "migrate_loop codec L mt tok migratedSet (tenantID # tenants) progress w =
     (if tenantID \<in> set migratedSet then migrate_loop codec L mt tok migratedSet tenants progress w
      else
        let (w, err) = mt w tenantID
        in case err of
             Some e \<Rightarrow> (w, progress, Some (Wrap (''migrate '' @ tenantID) e))
           | None \<Rightarrow>
               let progress = progress\<lparr>mp_tenants := mp_tenants progress @ [tenantID]\<rparr>
               in case Encode codec progress of
                    Inl e \<Rightarrow> (w, progress, Some (Wrap ''encode checkpoint'' e))
                  | Inr data \<Rightarrow>
                      let (w, err) = l_checkpoint L BackgroundCtx w tok data
                      in case err of
                           Some e \<Rightarrow> (w, progress, Some (Wrap (''checkpoint after '' @ tenantID) e))
                         | None \<Rightarrow> migrate_loop codec L mt tok migratedSet tenants progress w)"

definition migrateTenants ::
  "progress codec \<Rightarrow> 'w lease \<Rightarrow> 'w migrate \<Rightarrow> token \<Rightarrow> string list \<Rightarrow> progress \<Rightarrow> 'w \<Rightarrow>
   'w \<times> progress \<times> gerror option" where
  "migrateTenants codec L mt tok tenants progress w =
     migrate_loop codec L mt tok (mp_tenants progress) tenants progress w"

definition cleanupTimeout :: duration where "cleanupTimeout = 10 * second"

definition migration_work ::
  "progress codec \<Rightarrow> 'w lease \<Rightarrow> 'w migrate \<Rightarrow> string list \<Rightarrow> ('w \<Rightarrow> token \<Rightarrow> 'w) option \<Rightarrow> 'w work_fn" where
  "migration_work codec L mt tenants onStart w tok cp =
     (let w = (case onStart of None \<Rightarrow> w | Some f \<Rightarrow> f w tok)
      in if cp_prev_exit cp = ExitRetired then (w, Returned (cp_state cp) (Some ErrRetire))
         else
           case (if cp_prev_exit cp = ExitExpired \<or> cp_prev_exit cp = ExitAbandoned
                 then Decode codec zero_progress (cp_state cp) else Inr zero_progress) of
             Inl err \<Rightarrow> (w, Returned None (Some err))
           | Inr progress \<Rightarrow>
               let (w, progress, err) = migrateTenants codec L mt tok tenants progress w
               in case err of
                    Some e \<Rightarrow> (w, Returned None (Some e))
                  | None \<Rightarrow>
                      (case Encode codec progress of
                         Inl e \<Rightarrow> (w, Returned None (Some e))
                       | Inr data \<Rightarrow> (w, Returned data (Some ErrRetire))))"

definition newMigrationRunner ::
  "progress codec \<Rightarrow> 'w lease \<Rightarrow> 'w migrate \<Rightarrow> string list \<Rightarrow> ('w \<Rightarrow> token \<Rightarrow> 'w) option \<Rightarrow> gerror + 'w runner" where
  "newMigrationRunner codec L mt tenants onStart =
     NewRunner \<lparr>rg_lease = Some L, rg_fn = Some (migration_work codec L mt tenants onStart),
       rg_acquire = [], rg_renewal = [], rg_cleanup = cleanupTimeout\<rparr>"

section \<open>Effects and checkpoints in order\<close>

text \<open>
  The same with every migration and every call of \<open>Checkpoint\<close> recorded, with its result; \<open>ev\<close> makes
  the event of a call.
\<close>

datatype mevent = Migrate string "gerror option" | Save bytes "gerror option"

definition logged_lease :: "(bytes \<Rightarrow> gerror option \<Rightarrow> 'ev) \<Rightarrow> 'w lease \<Rightarrow> ('w \<times> 'ev list) lease" where
  "logged_lease ev L =
     \<lparr>l_acquire = (\<lambda>c (w, t) i os. let (w', x) = l_acquire L c w i os in ((w', t), x)),
      l_checkpoint = (\<lambda>c (w, t) k st. let (w', e) = l_checkpoint L c w k st in ((w', t @ [ev st e]), e)),
      l_release = (\<lambda>c (w, t) k m. let (w', x) = l_release L c w k m in ((w', t), x)),
      l_read_checkpoint = (\<lambda>c (w, t) k. let (w', x) = l_read_checkpoint L c w k in ((w', t), x)),
      l_start_renewal = (\<lambda>c (w, t) k os. (l_start_renewal L c w k os, t)),
      l_stop_renewal = (\<lambda>(w, t). (l_stop_renewal L w, t)),
      l_cause = (\<lambda>(w, t). l_cause L w)\<rparr>"

definition logged_migrate :: "'w migrate \<Rightarrow> ('w \<times> mevent list) migrate" where
  "logged_migrate mt = (\<lambda>(w, t) i. let (w', e) = mt w i in ((w', t @ [Migrate i e]), e))"

text \<open>The tenants migrated, and the states saved, without an error.\<close>

fun migrated :: "mevent list \<Rightarrow> string list" where
  "migrated [] = []"
| "migrated (Migrate i None # t) = i # migrated t"
| "migrated (ev # t) = migrated t"

fun saved :: "mevent list \<Rightarrow> bytes list" where
  "saved [] = []"
| "saved (Save d None # t) = d # saved t"
| "saved (ev # t) = saved t"

text \<open>The logs of the loop, from the cursor \<open>P\<close> and the tenants to do to the cursor it ends with.\<close>

inductive write_ahead ::
  "progress codec \<Rightarrow> string list \<Rightarrow> string list \<Rightarrow> mevent list \<Rightarrow> string list \<Rightarrow> gerror option \<Rightarrow> bool"
  for codec where
  all_done: "write_ahead codec P [] [] P None"
| recorded: "Encode codec \<lparr>mp_tenants = P @ [x]\<rparr> = Inr d \<Longrightarrow> write_ahead codec (P @ [x]) xs t P' e \<Longrightarrow>
    write_ahead codec P (x # xs) (Migrate x None # Save d None # t) P' e"
| migrate_failed: "write_ahead codec P (x # xs) [Migrate x (Some e)] P (Some (Wrap (''migrate '' @ x) e))"
| encode_failed: "Encode codec \<lparr>mp_tenants = P @ [x]\<rparr> = Inl e \<Longrightarrow>
    write_ahead codec P (x # xs) [Migrate x None] (P @ [x]) (Some (Wrap ''encode checkpoint'' e))"
| save_failed: "Encode codec \<lparr>mp_tenants = P @ [x]\<rparr> = Inr d \<Longrightarrow>
    write_ahead codec P (x # xs) [Migrate x None, Save d (Some e)] (P @ [x]) (Some (Wrap (''checkpoint after '' @ x) e))"

lemma logged_sel [simp]:
  "l_acquire (logged_lease ev L) c (w, t) i os = (let (w', r) = l_acquire L c w i os in ((w', t), r))"
  "l_checkpoint (logged_lease ev L) c (w, t) k st = (let (w', e) = l_checkpoint L c w k st in ((w', t @ [ev st e]), e))"
  "l_release (logged_lease ev L) c (w, t) k m = (let (w', r) = l_release L c w k m in ((w', t), r))"
  "l_read_checkpoint (logged_lease ev L) c (w, t) k = (let (w', r) = l_read_checkpoint L c w k in ((w', t), r))"
  "l_start_renewal (logged_lease ev L) c (w, t) k ros = (l_start_renewal L c w k ros, t)"
  "l_stop_renewal (logged_lease ev L) (w, t) = (l_stop_renewal L w, t)"
  "l_cause (logged_lease ev L) (w, t) = l_cause L w"
  by (simp_all add: logged_lease_def)

lemma logged_migrate_app [simp]:
  "logged_migrate mt (w, t) i = (let (w', e) = mt w i in ((w', t @ [Migrate i e]), e))"
  by (simp add: logged_migrate_def)

lemma progress_update [simp]: "p\<lparr>mp_tenants := ts\<rparr> = \<lparr>mp_tenants = ts\<rparr>"
  by (cases p) simp

lemma migrate_loop_logged:
  "migrate_loop codec (logged_lease Save L) (logged_migrate mt) tok M tenants p (w, t0) = ((w', t1), p', err) \<Longrightarrow>
   \<exists>t. t1 = t0 @ t \<and>
     write_ahead codec (mp_tenants p) (filter (\<lambda>i. i \<notin> set M) tenants) t (mp_tenants p') err"
proof (induction tenants arbitrary: p w t0)
  case (Cons x xs)
  show ?case
  proof (cases "x \<in> set M")
    case True
    then show ?thesis using Cons by simp
  next
    case new: False
    let ?p = "\<lparr>mp_tenants = mp_tenants p @ [x]\<rparr>"
    obtain w1 e where mt: "mt w x = (w1, e)" by (cases "mt w x")
    show ?thesis
    proof (cases e)
      case (Some y)
      then have "t1 = t0 @ [Migrate x (Some y)]" "p' = p" "err = Some (Wrap (''migrate '' @ x) y)"
        using Cons.prems mt new by simp_all
      then show ?thesis using new write_ahead.migrate_failed [of codec _ x] by simp
    next
      case ok: None
      show ?thesis
      proof (cases "Encode codec ?p")
        case (Inl d)
        then have "t1 = t0 @ [Migrate x None]" "p' = ?p" "err = Some (Wrap ''encode checkpoint'' d)"
          using Cons.prems mt new ok by simp_all
        then show ?thesis using new write_ahead.encode_failed [OF Inl] by simp
      next
        case enc: (Inr d)
        obtain w2 e2 where cp: "l_checkpoint L BackgroundCtx w1 tok d = (w2, e2)"
          by (cases "l_checkpoint L BackgroundCtx w1 tok d")
        show ?thesis
        proof (cases e2)
          case None
          then have "migrate_loop codec (logged_lease Save L) (logged_migrate mt) tok M xs ?p
              (w2, t0 @ [Migrate x None, Save d None]) = ((w', t1), p', err)"
            using Cons.prems mt new ok enc cp by simp
          from Cons.IH [OF this] show ?thesis
            using new enc by (auto intro: write_ahead.recorded)
        next
          case (Some y)
          then have "t1 = t0 @ [Migrate x None, Save d (Some y)]" "p' = ?p"
            "err = Some (Wrap (''checkpoint after '' @ x) y)"
            using Cons.prems mt new ok enc cp by simp_all
          then show ?thesis using new write_ahead.save_failed [OF enc] by simp
        qed
      qed
    qed
  qed
qed (auto intro: write_ahead.intros)

section \<open>Properties\<close>

lemma progress_prefix_Cons:
  "prefix u (a # b # t) \<longleftrightarrow> u = [] \<or> u = [a] \<or> (\<exists>u'. u = a # b # u' \<and> prefix u' t)"
  by (cases u; cases "tl u") (auto simp: prefix_Cons)

text \<open>What a log has, at every point where the coordinator may crash.\<close>

lemma write_ahead_log:
  assumes "write_ahead codec P todo t P' err"
  shows "prefix (migrated t) todo" and "P' = P @ migrated t"
    and "err = None \<Longrightarrow> migrated t = todo \<and> length (saved t) = length todo"
    and "prefix u t \<Longrightarrow> length (saved u) \<le> length (migrated u) \<and> length (migrated u) \<le> Suc (length (saved u))"
    and "k < length (saved t) \<Longrightarrow> Encode codec \<lparr>mp_tenants = P @ take (Suc k) todo\<rparr> = Inr (saved t ! k)"
proof -
  show "prefix (migrated t) todo" using assms by induction auto
  show "P' = P @ migrated t" using assms by induction auto
  show "err = None \<Longrightarrow> migrated t = todo \<and> length (saved t) = length todo"
    using assms by induction auto
  show "prefix u t \<Longrightarrow> length (saved u) \<le> length (migrated u) \<and> length (migrated u) \<le> Suc (length (saved u))"
    using assms
  proof (induction arbitrary: u)
    case (recorded P x d xs t P' e)
    then show ?case by (auto simp: progress_prefix_Cons)
  qed (auto simp: prefix_Cons)
  show "k < length (saved t) \<Longrightarrow> Encode codec \<lparr>mp_tenants = P @ take (Suc k) todo\<rparr> = Inr (saved t ! k)"
    using assms
  proof (induction arbitrary: k)
    case (recorded P x d xs t P' e)
    then show ?case by (cases k) auto
  qed auto
qed

lemma migrateTenants_log:
  assumes "migrateTenants codec (logged_lease Save L) (logged_migrate mt) tok tenants p (w, []) = ((w', t), p', err)"
  shows "write_ahead codec (mp_tenants p) (filter (\<lambda>i. i \<notin> set (mp_tenants p)) tenants) t (mp_tenants p') err"
  using migrate_loop_logged [OF assms [unfolded migrateTenants_def]] by auto

text \<open>
  The cursor is never ahead of the work, and at most one tenant behind. Whatever the lease and
  the migrations do, the tenants migrated are, in order, those listed that the cursor did not have,
  up to the failure if there is one; all of them when \<open>migrateTenants\<close> returns nil. At any point of
  its log, where the process may die, the number of states saved is that of the tenants migrated or
  one less, and the \<open>k\<close>-th saved state encodes the old cursor followed by the first \<open>k\<close> of them: a
  successor repeats at most the one migration in flight.
\<close>

theorem migration_writes_ahead:
  assumes "migrateTenants codec (logged_lease Save L) (logged_migrate mt) tok tenants p (w, []) = ((w', t), p', err)"
  shows "let todo = filter (\<lambda>i. i \<notin> set (mp_tenants p)) tenants
    in prefix (migrated t) todo \<and> mp_tenants p' = mp_tenants p @ migrated t \<and>
       (err = None \<longrightarrow> migrated t = todo \<and> length (saved t) = length todo) \<and>
       (\<forall>u. prefix u t \<longrightarrow> length (saved u) \<le> length (migrated u) \<and> length (migrated u) \<le> Suc (length (saved u))) \<and>
       (\<forall>k<length (saved t). Encode codec \<lparr>mp_tenants = mp_tenants p @ take (Suc k) todo\<rparr> = Inr (saved t ! k))"
  unfolding Let_def using write_ahead_log [OF migrateTenants_log [OF assms]] by blast

text \<open>A codec for lists of one-letter names: a marker and a byte for each.\<close>

definition ex_progress_codec :: "progress codec" where
  "ex_progress_codec =
     \<lparr>co_marshal = (\<lambda>p. Inr (Some (1 # map (\<lambda>i. of_nat (of_char (hd i))) (mp_tenants p)))),
      co_unmarshal = (\<lambda>d p. (\<lparr>mp_tenants = (case d of None \<Rightarrow> [] | Some bs \<Rightarrow> map (\<lambda>x. [char_of (unat x)]) (tl bs))\<rparr>, None))\<rparr>"

definition ex_migrate :: "'w migrate" where "ex_migrate = (\<lambda>w i. (w, None))"

lemmas ex_migration_simps =
  ex_progress_codec_def ex_migrate_def Encode_def Decode_def zero_progress_def migrateTenants_def
  logged_migrate_def

text \<open>The second \<open>Checkpoint\<close> finds the lease gone: two tenants migrated, one of them saved.\<close>

theorem migration_writes_ahead_witness:
  "\<exists>w' t p' err. migrateTenants ex_progress_codec (logged_lease Save ex_lease) (logged_migrate ex_migrate)
       (ex_token ''a'' 1 10) [''t'', ''u'', ''v''] \<lparr>mp_tenants = [''u'']\<rparr>
       (ex_world\<lparr>cw_store := ex_mem (ex_row ''a'' 1 10),
         cw_envs := (\<lambda>n. \<lparr>ae_before = if n = 0 then [] else [(None, ex_clock 5, DoForget (toRecord (ex_token ''a'' 1 10)))],
            ae_call = ex_call 5, ae_wait = None\<rparr>)\<rparr>, []) = ((w', t), p', err) \<and>
     migrated t = [''t'', ''v''] \<and> saved t = [Some [1, 117, 116]] \<and> err \<noteq> None \<and>
     Encode ex_progress_codec \<lparr>mp_tenants = [''u'', ''t'']\<rparr> = Inr (saved t ! 0)"
proof -
  obtain w' t p' err where run: "migrateTenants ex_progress_codec (logged_lease Save ex_lease) (logged_migrate ex_migrate)
       (ex_token ''a'' 1 10) [''t'', ''u'', ''v''] \<lparr>mp_tenants = [''u'']\<rparr>
       (ex_world\<lparr>cw_store := ex_mem (ex_row ''a'' 1 10),
         cw_envs := (\<lambda>n. \<lparr>ae_before = if n = 0 then [] else [(None, ex_clock 5, DoForget (toRecord (ex_token ''a'' 1 10)))],
            ae_call = ex_call 5, ae_wait = None\<rparr>)\<rparr>, []) = ((w', t), p', err)"
    and t: "migrated t = [''t'', ''v'']" "saved t = [Some [1, 117, 116]]" "err \<noteq> None"
    by (simp add: ex_migration_simps ex_run_simps mem_forget_def)
  show ?thesis using run t migration_writes_ahead [OF run] by (auto simp: Let_def)
qed

section \<open>The migration recorded\<close>

text \<open>
  What the coordinator relies on of \<open>encoding/json\<close>: a list of valid strings (UTF-8) is encoded, into
  something, and decoded back; a decoded list holds only valid strings; its errors are its own.
\<close>

definition json_ok :: "(string \<Rightarrow> bool) \<Rightarrow> progress codec \<Rightarrow> bool" where
  "json_ok valid codec \<longleftrightarrow>
     (\<forall>p. list_all valid (mp_tenants p) \<longrightarrow> (\<exists>d. d \<noteq> [] \<and> co_marshal codec p = Inr (Some d) \<and>
        co_unmarshal codec (Some d) zero_progress = (p, None))) \<and>
     (\<forall>d p. co_unmarshal codec d zero_progress = (p, None) \<longrightarrow> list_all valid (mp_tenants p)) \<and>
     (\<forall>d p e. co_unmarshal codec d zero_progress = (p, Some e) \<longrightarrow> \<not> errors_is e ErrRetire)"

lemma json_ok_Encode:
  assumes "json_ok valid codec" and "list_all valid (mp_tenants p)"
  obtains d where "d \<noteq> []" "Encode codec p = Inr (Some d)"
    "Decode codec zero_progress (normalize_state (Some d)) = Inr p"
  using assms by (auto simp: json_ok_def Encode_def Decode_def normalize_state_def)

lemma json_ok_Decode:
  assumes "json_ok valid codec"
  shows "Decode codec zero_progress d = Inr p \<Longrightarrow> list_all valid (mp_tenants p)"
    and "Decode codec zero_progress d = Inl e \<Longrightarrow> \<not> errors_is e ErrRetire"
  using assms by (auto simp: json_ok_def Decode_def zero_progress_def Let_def split: if_splits prod.splits option.splits)

text \<open>A world whose contexts end only as contexts do, and effects that leave them alone.\<close>

definition ctx_world :: "'s cworld \<Rightarrow> bool" where
  "ctx_world w \<longleftrightarrow> (\<forall>n e. ce_ctx (ae_call (cw_envs w n)) = Some e \<longrightarrow> ctx_error e)"

definition ctx_migrate :: "'s cworld migrate \<Rightarrow> bool" where
  "ctx_migrate mt \<longleftrightarrow> (\<forall>w i. cw_envs (fst (mt w i)) = cw_envs w \<and> (\<forall>e. snd (mt w i) = Some e \<longrightarrow> ctx_error e))"

lemma ctx_error_not_retire: "ctx_error e \<Longrightarrow> \<not> errors_is e ErrRetire"
  by (auto simp: ctx_error_def)

lemma mem_checkpoint_not_retire:
  assumes "l_checkpoint (client_lease memory cfg) c w tok st = (w', err)" and "ctx_world w"
  shows "ctx_world w' \<and> \<not> err_matches err ErrRetire"
proof -
  let ?env = "cw_envs w (cw_n w)"
  obtain s' e where mem: "mem_checkpoint (ce_ctx (ae_call ?env)) (ce_clk (ae_call ?env))
      (b_run memory (ae_before ?env) (cw_store w)) (toRecord tok) st (cf_ttl cfg) = (s', e)"
    by (metis surj_pair)
  have "\<not> err_matches e ErrRetire"
    using mem assms(2) ctx_error_not_retire
    by (fastforce simp: mem_checkpoint_def ctx_world_def Let_def split: option.splits if_splits)
  moreover have "err = op_error ''worklease: Checkpoint'' e" "ctx_world w'"
    using assms mem by (auto simp: cw_op_def client_checkpoint_def ctx_world_def)
  ultimately show ?thesis by (cases e) (auto simp: op_error_def)
qed

lemma migrate_loop_mem:
  assumes "migrate_loop codec (client_lease memory cfg) mt tok M tenants p w = (w', p', err)"
    and "ctx_world w" and "ctx_migrate mt" and "json_ok valid codec"
    and "list_all valid (mp_tenants p)" and "list_all valid tenants"
  shows "\<not> err_matches err ErrRetire \<and>
    (err = None \<longrightarrow> mp_tenants p' = mp_tenants p @ filter (\<lambda>i. i \<notin> set M) tenants)"
  using assms(1,2,5,6)
proof (induction tenants arbitrary: p w)
  case (Cons x xs)
  show ?case
  proof (cases "x \<in> set M")
    case True
    then show ?thesis using Cons.IH [of p w] Cons.prems by auto
  next
    case new: False
    let ?p = "\<lparr>mp_tenants = mp_tenants p @ [x]\<rparr>"
    have valid: "list_all valid (mp_tenants ?p)" using Cons.prems by simp
    obtain w1 e where mt: "mt w x = (w1, e)" by (cases "mt w x")
    obtain d where enc: "Encode codec ?p = Inr (Some d)" by (rule json_ok_Encode [OF assms(4) valid])
    obtain w2 e2 where cp: "l_checkpoint (client_lease memory cfg) BackgroundCtx w1 tok (Some d) = (w2, e2)"
      by (cases "l_checkpoint (client_lease memory cfg) BackgroundCtx w1 tok (Some d)")
    have e: "\<not> err_matches e ErrRetire" "ctx_world w1"
      using assms(3) mt Cons.prems(2) ctx_error_not_retire
      by (cases e, auto simp: ctx_migrate_def ctx_world_def, metis fst_conv snd_conv)+
    note e2 = mem_checkpoint_not_retire [OF cp e(2)]
    show ?thesis
    proof (cases "e = None \<and> e2 = None")
      case True
      then have "migrate_loop codec (client_lease memory cfg) mt tok M xs ?p w2 = (w', p', err)"
        using Cons.prems(1) mt new enc cp by (simp del: client_lease_sel)
      then show ?thesis using Cons.IH [of ?p w2] e2 valid new Cons.prems(4) by simp
    next
      case False
      then show ?thesis
        using Cons.prems(1) mt new enc cp e e2 by (cases e; cases e2) (auto simp del: client_lease_sel)
    qed
  qed
qed auto

text \<open>The work function ends well in two ways.\<close>

lemma migration_work_mem:
  assumes "migration_work codec (client_lease memory cfg) mt tenants onStart w tok cp = (w', Returned st werr)"
    and "werr = None \<or> err_matches werr ErrRetire"
    and "ctx_world w" and "\<And>f. onStart = Some f \<Longrightarrow> cw_envs (f w tok) = cw_envs w"
    and "ctx_migrate mt" and "json_ok valid codec" and "list_all valid tenants"
  shows "werr = Some ErrRetire \<and>
    (if cp_prev_exit cp = ExitRetired then st = cp_state cp
     else \<exists>d Q. st = Some d \<and> Decode codec zero_progress (normalize_state st) = Inr Q \<and>
            set tenants \<subseteq> set (mp_tenants Q))"
proof (cases "cp_prev_exit cp = ExitRetired")
  case True
  then show ?thesis using assms(1) by (auto simp: migration_work_def Let_def)
next
  case False
  let ?w = "case onStart of None \<Rightarrow> w | Some f \<Rightarrow> f w tok"
  have w: "ctx_world ?w"
    using assms(3,4) by (cases onStart) (simp_all add: ctx_world_def)
  let ?dec = "if cp_prev_exit cp = ExitExpired \<or> cp_prev_exit cp = ExitAbandoned
    then Decode codec zero_progress (cp_state cp) else Inr zero_progress"
  show ?thesis
  proof (cases ?dec)
    case (Inl e)
    then have "werr = Some e" using assms(1) False by (simp add: migration_work_def Let_def)
    moreover have "\<not> errors_is e ErrRetire"
      using Inl json_ok_Decode(2) [OF assms(6)] by (auto split: if_splits)
    ultimately show ?thesis using assms(2) by simp
  next
    case (Inr p)
    have p: "list_all valid (mp_tenants p)"
      using Inr json_ok_Decode(1) [OF assms(6)] by (auto simp: zero_progress_def split: if_splits)
    obtain w1 p' err where run: "migrateTenants codec (client_lease memory cfg) mt tok tenants p ?w = (w1, p', err)"
      by (metis surj_pair)
    note loop = migrate_loop_mem [OF run [unfolded migrateTenants_def] w assms(5,6) p assms(7)]
    show ?thesis
    proof (cases err)
      case (Some e)
      then have "werr = Some e" using assms(1) False Inr run by (simp add: migration_work_def Let_def)
      then show ?thesis using loop Some assms(2) by simp
    next
      case None
      then have p': "mp_tenants p' = mp_tenants p @ filter (\<lambda>i. i \<notin> set (mp_tenants p)) tenants"
        using loop by simp
      then have "list_all valid (mp_tenants p')" using p assms(7) by (auto simp: list_all_iff)
      then obtain d where d: "Encode codec p' = Inr (Some d)"
        "Decode codec zero_progress (normalize_state (Some d)) = Inr p'"
        by (rule json_ok_Encode [OF assms(6)]) blast
      then have "st = Some d" "werr = Some ErrRetire"
        using assms(1) False Inr run None by (simp_all add: migration_work_def Let_def)
      then show ?thesis using d(2) p' False by auto
    qed
  qed
qed

lemma mem_reads_keep_ctx:
  assumes "ctx_world w" and "l_acquire (client_lease memory cfg) c w workID os' = (w1, x)"
    and "l_read_checkpoint (client_lease memory cfg) c' w1 tok = (w2, y)"
  shows "ctx_world w2"
proof -
  have "cw_envs w1 = cw_envs w"
    using assms(2) by (auto simp: client_lease_def split: option.splits)
  moreover have "cw_envs w2 = cw_envs w1"
    using assms(3) by (auto simp: cw_op_def Let_def split: prod.splits)
  ultimately show ?thesis using assms(1) by (simp add: ctx_world_def)
qed

text \<open>
  C18. A migration that returns nil is recorded. If a coordinator's \<open>Run\<close> over the memory backend
  returns nil, the work is retired under its ID, whatever others did before its last calls. Unless it
  was retired already, what the next holder reads then decodes to a cursor with every tenant; if it
  was, and had a state, the state is kept. Migrations fail only with a context's error and
  \<open>encoding/json\<close> is assumed to behave as \<open>json_ok\<close> says.
\<close>

theorem migration_recorded:
  assumes "newMigrationRunner codec (client_lease memory cfg) mt tenants onStart = Inr r"
    and "runner_run r w workID = (w', Done None)"
    and "ctx_world w" and "\<And>f w k. onStart = Some f \<Longrightarrow> cw_envs (f w k) = cw_envs w"
    and "ctx_migrate mt" and "json_ok valid codec" and "list_all valid tenants"
    and "\<And>w1 tok w2 cp w4 out. l_acquire (client_lease memory cfg) CallerCtx w workID [] = (w1, Inr tok) \<Longrightarrow>
      l_read_checkpoint (client_lease memory cfg) CallerCtx w1 tok = (w2, Inr cp) \<Longrightarrow>
      migration_work codec (client_lease memory cfg) mt tenants onStart w2 tok cp = (w4, out) \<Longrightarrow>
      mem_inv (cw_store w4) \<and> (\<forall>n. others_ok tok (ae_before (cw_envs w4 n))) \<and>
      mem_issued (cw_store w4) + 2 * (length (ae_before (cw_envs w4 (cw_n w4))) +
        length (ae_before (cw_envs w4 (Suc (cw_n w4)))) + 2) < token_limit"
  shows "\<exists>w1 tok w2 cp. l_acquire (client_lease memory cfg) CallerCtx w workID [] = (w1, Inr tok) \<and>
    l_read_checkpoint (client_lease memory cfg) CallerCtx w1 tok = (w2, Inr cp) \<and>
    (let next = inherited (mem_view (cw_store w') (tk_work tok))
     in cp_prev_exit next = ExitRetired \<and> cp_prev_holder next = tk_holder tok \<and>
        (if cp_prev_exit cp = ExitRetired
         then cp_state cp \<noteq> None \<longrightarrow> cp_state next = normalize_state (cp_state cp)
         else \<exists>Q. Decode codec zero_progress (cp_state next) = Inr Q \<and> set tenants \<subseteq> set (mp_tenants Q)))"
proof -
  have r: "ru_lease r = client_lease memory cfg" "ru_acquire r = []"
    "ru_fn r = migration_work codec (client_lease memory cfg) mt tenants onStart"
    using assms(1) by (auto simp: newMigrationRunner_def NewRunner_def)
  obtain w1 tok w3 cp w4 st werr row where
    run: "l_acquire (client_lease memory cfg) CallerCtx w workID [] = (w1, Inr tok)"
      "l_read_checkpoint (client_lease memory cfg) CallerCtx w1 tok = (w3, Inr cp)"
      "migration_work codec (client_lease memory cfg) mt tenants onStart w3 tok cp = (w4, Returned st werr)"
    and row: "mem_view (cw_store w') (tk_work tok) = Some row" "held_by row (toRecord tok)"
      "row_exit row = (if err_matches werr ErrRetire then ExitRetired else ExitFinished)"
      "werr = None \<or> err_matches werr ErrRetire" "\<forall>s. st = Some s \<longrightarrow> row_checkpoint row = normalize_state (Some s)"
    using mem.run_records_exit [OF r(1) assms(2)] assms(8) unfolding r by metis
  have "ctx_world w3" using mem_reads_keep_ctx [OF assms(3) run(1,2)] .
  from migration_work_mem [OF run(3) row(4) this _ assms(5-7)] assms(4) show ?thesis
    using run(1,2) row
    by (intro exI [of _ w1] exI [of _ tok] exI [of _ w3] exI [of _ cp])
       (auto simp: inherited_def held_by_def Let_def)
qed

lemma ex_progress_codec_json: "json_ok (\<lambda>i. length i = 1) ex_progress_codec"
  unfolding json_ok_def
proof (intro conjI allI impI)
  fix p :: progress
  assume "list_all (\<lambda>i. length i = 1) (mp_tenants p)"
  then have "map (\<lambda>x. [char_of (unat x)]) (map (\<lambda>i. of_nat (of_char (hd i)) :: u8) (mp_tenants p)) = mp_tenants p"
    by (auto simp: list_all_iff map_idI unat_of_nat length_Suc_conv intro!: map_idI)
  then show "\<exists>d. d \<noteq> [] \<and> co_marshal ex_progress_codec p = Inr (Some d) \<and>
      co_unmarshal ex_progress_codec (Some d) zero_progress = (p, None)"
    by (simp add: ex_progress_codec_def)
qed (auto simp: ex_progress_codec_def list_all_iff)

definition ex_migration_runner :: "memory_backend cworld runner" where
  "ex_migration_runner = \<lparr>ru_lease = ex_lease,
     ru_fn = migration_work ex_progress_codec ex_lease ex_migrate [''t'', ''t''] None,
     ru_acquire = [], ru_renewal = [], ru_cleanup = cleanupTimeout\<rparr>"

lemma ex_newMigrationRunner:
  "newMigrationRunner ex_progress_codec ex_lease ex_migrate [''t'', ''t''] None = Inr ex_migration_runner"
  by (simp add: newMigrationRunner_def NewRunner_def ex_migration_runner_def cleanupTimeout_def)

lemma ex_migration_run:
  obtains w' where "runner_run ex_migration_runner ex_world ''w'' = (w', Done None)"
    "\<exists>row. cw_store w' = \<lparr>records = [(''w'', row)], seq = 1\<rparr> \<and> row_exit row = ExitRetired \<and>
       row_checkpoint row = Some [1, 116, 116]"
  by (simp add: ex_migration_runner_def migration_work_def ex_migration_simps ex_run_simps zero_checkpoint_def)

theorem migration_recorded_witness:
  "\<exists>w' w1 tok. runner_run ex_migration_runner ex_world ''w'' = (w', Done None) \<and>
     l_acquire ex_lease CallerCtx ex_world ''w'' [] = (w1, Inr tok) \<and>
     cp_prev_exit (inherited (mem_view (cw_store w') (tk_work tok))) = ExitRetired"
proof (rule ex_migration_run)
  fix w' assume run: "runner_run ex_migration_runner ex_world ''w'' = (w', Done None)"
  have "\<exists>w1 tok w2 cp. l_acquire (client_lease memory (ex_cfg ''a'')) CallerCtx ex_world ''w'' [] = (w1, Inr tok) \<and>
    l_read_checkpoint (client_lease memory (ex_cfg ''a'')) CallerCtx w1 tok = (w2, Inr cp) \<and>
    (let next = inherited (mem_view (cw_store w') (tk_work tok))
     in cp_prev_exit next = ExitRetired \<and> cp_prev_holder next = tk_holder tok \<and>
        (if cp_prev_exit cp = ExitRetired
         then cp_state cp \<noteq> None \<longrightarrow> cp_state next = normalize_state (cp_state cp)
         else \<exists>Q. Decode ex_progress_codec zero_progress (cp_state next) = Inr Q \<and>
           set [''t'', ''t''] \<subseteq> set (mp_tenants Q)))"
  proof (rule migration_recorded [OF _ run, where mt = ex_migrate and onStart = None and valid = "\<lambda>i. length i = 1"])
    show "newMigrationRunner ex_progress_codec (client_lease memory (ex_cfg ''a'')) ex_migrate [''t'', ''t''] None =
      Inr ex_migration_runner"
      using ex_newMigrationRunner by (simp add: ex_lease_def)
    show "ctx_world ex_world" by (simp add: ctx_world_def ex_world_def ex_envs_def ex_call_def)
    show "ctx_migrate ex_migrate" by (simp add: ctx_migrate_def ex_migrate_def)
  next
    fix w1 tok w2 cp w4 out
    assume "l_acquire (client_lease memory (ex_cfg ''a'')) CallerCtx ex_world ''w'' [] = (w1, Inr tok)"
      "l_read_checkpoint (client_lease memory (ex_cfg ''a'')) CallerCtx w1 tok = (w2, Inr cp)"
      "migration_work ex_progress_codec (client_lease memory (ex_cfg ''a'')) ex_migrate [''t'', ''t''] None w2 tok cp =
        (w4, out)"
    then show "mem_inv (cw_store w4) \<and> (\<forall>n. others_ok tok (ae_before (cw_envs w4 n))) \<and>
      mem_issued (cw_store w4) + 2 * (length (ae_before (cw_envs w4 (cw_n w4))) +
        length (ae_before (cw_envs w4 (Suc (cw_n w4)))) + 2) < token_limit"
      by (auto simp: migration_work_def ex_migration_simps ex_run_simps zero_checkpoint_def others_ok_def)
  qed (use ex_progress_codec_json in simp_all)
  then show ?thesis using run by (auto simp: ex_lease_def Let_def)
qed

section \<open>A crash and its successor\<close>

lemma migrated_append [simp]: "migrated (t @ u) = migrated t @ migrated u"
  by (induction t rule: migrated.induct) simp_all

lemma saved_append [simp]: "saved (t @ u) = saved t @ saved u"
  by (induction t rule: saved.induct) simp_all

text \<open>What the lease holds of a crashed coordinator: the last state it saved.\<close>

definition last_saved :: "mevent list \<Rightarrow> bytes" where
  "last_saved u = (if saved u = [] then None else last (saved u))"

lemma filter_not_taken:
  assumes "distinct xs"
  shows "filter (\<lambda>x. x \<notin> set (take k xs)) xs = drop k xs"
proof -
  have "filter (\<lambda>x. x \<notin> set (take k xs)) xs = filter (\<lambda>x. x \<notin> set (take k xs)) (take k xs @ drop k xs)"
    by simp
  also have "\<dots> = filter (\<lambda>x. x \<notin> set (take k xs)) (drop k xs)"
    by (simp only: filter_append) (simp add: filter_empty_conv)
  also have "\<dots> = drop k xs"
    using set_take_disj_set_drop_if_distinct [OF assms order.refl, of k] by (auto intro!: filter_True)
  finally show ?thesis .
qed

lemma last_saved_decodes:
  assumes "write_ahead codec [] tenants t P' err" and "prefix u t"
    and "json_ok valid codec" and "list_all valid tenants"
  shows "Decode codec zero_progress (last_saved u) = Inr \<lparr>mp_tenants = take (length (saved u)) tenants\<rparr>"
proof (cases "saved u = []")
  case True
  then show ?thesis by (simp add: last_saved_def Decode_def zero_progress_def)
next
  case False
  let ?k = "length (saved u) - 1"
  obtain t' where t: "t = u @ t'" using assms(2) by (auto simp: prefix_def)
  have k: "?k < length (saved t)" "saved t ! ?k = last_saved u" "Suc ?k = length (saved u)"
    using False length_greater_0_conv [of "saved u"]
    by (simp_all add: t nth_append last_saved_def last_conv_nth del: length_greater_0_conv)
  have enc: "Encode codec \<lparr>mp_tenants = take (length (saved u)) tenants\<rparr> = Inr (last_saved u)"
    using write_ahead_log(5) [OF assms(1) k(1)] k(2,3) by simp
  have valid: "list_all valid (mp_tenants \<lparr>mp_tenants = take (length (saved u)) tenants\<rparr>)"
    using assms(4) by (auto simp: list_all_iff dest: in_set_takeD)
  obtain d where "d \<noteq> []" "Encode codec \<lparr>mp_tenants = take (length (saved u)) tenants\<rparr> = Inr (Some d)"
    "Decode codec zero_progress (normalize_state (Some d)) = Inr \<lparr>mp_tenants = take (length (saved u)) tenants\<rparr>"
    by (rule json_ok_Encode [OF assms(3) valid])
  then show ?thesis using enc by (cases d) auto
qed

lemma write_ahead_error: "write_ahead codec P todo t P' err \<Longrightarrow> err \<noteq> Some ErrRetire"
  by (induction rule: write_ahead.induct) simp_all

text \<open>A fresh run works through the loop from nothing; a resumed one from what it decodes.\<close>

lemma migration_work_log:
  assumes "migration_work codec (logged_lease Save L) (logged_migrate mt) tenants None (w, []) tok cp = ((w', t), out)"
    and "cp_prev_exit cp = ExitNone \<and> p = zero_progress \<or>
      cp_prev_exit cp \<in> {ExitExpired, ExitAbandoned} \<and> Decode codec zero_progress (cp_state cp) = Inr p"
  shows "\<exists>P' err. write_ahead codec (mp_tenants p) (filter (\<lambda>i. i \<notin> set (mp_tenants p)) tenants) t P' err \<and>
    (out = Returned st (Some ErrRetire) \<longrightarrow> err = None)"
proof -
  obtain w1 t1 p' err where run: "migrateTenants codec (logged_lease Save L) (logged_migrate mt) tok tenants p (w, []) =
      ((w1, t1), p', err)"
    by (metis surj_pair)
  note log = migrateTenants_log [OF run]
  have "err \<noteq> Some ErrRetire" using log by (rule write_ahead_error)
  then have "t = t1 \<and> (out = Returned st (Some ErrRetire) \<longrightarrow> err = None)"
    using assms run
    by (cases err) (auto simp: migration_work_def Let_def split: option.splits sum.splits)
  then show ?thesis using log by blast
qed

text \<open>
  C17. A successor finishes the migration. A first coordinator starts afresh and dies at any point of
  its run; the next one finds the lease lapsed and reads the last state that was saved. If that one's
  work function asks to retire, the first migrated a prefix of the tenants, the second every tenant from
  the end of the saved cursor on: each tenant is migrated, in order, and at most one of them twice.
  \<open>encoding/json\<close> is assumed to behave as \<open>json_ok\<close> says.
\<close>

theorem migration_resumes:
  assumes "migration_work codec (logged_lease Save L1) (logged_migrate mt1) tenants None (w1, []) tok1 cp1 = ((w1', t1), out1)"
    and "cp_prev_exit cp1 = ExitNone" and "prefix u t1"
    and "migration_work codec (logged_lease Save L2) (logged_migrate mt2) tenants None (w2, []) tok2 cp2 =
      ((w2', t2), Returned st (Some ErrRetire))"
    and "cp_state cp2 = last_saved u" and "cp_prev_exit cp2 = ExitExpired"
    and "json_ok valid codec" and "list_all valid tenants" and "distinct tenants"
  shows "migrated u = take (length (migrated u)) tenants \<and> migrated t2 = drop (length (saved u)) tenants \<and>
    length (saved u) \<le> length (migrated u) \<and> length (migrated u) \<le> Suc (length (saved u)) \<and>
    set (migrated u @ migrated t2) = set tenants"
proof -
  obtain P1 err1 where log1: "write_ahead codec [] tenants t1 P1 err1"
    using migration_work_log [OF assms(1), where p = zero_progress and st = None] assms(2) by (auto simp: zero_progress_def)
  have dec: "Decode codec zero_progress (cp_state cp2) = Inr \<lparr>mp_tenants = take (length (saved u)) tenants\<rparr>"
    using last_saved_decodes [OF log1 assms(3,7,8)] assms(5) by simp
  obtain P2 where log2: "write_ahead codec (take (length (saved u)) tenants) (drop (length (saved u)) tenants) t2 P2 None"
    using migration_work_log [OF assms(4) disjI2 [OF conjI [OF _ dec]], of st] assms(6)
    by (auto simp: filter_not_taken [OF assms(9)])
  have t2: "migrated t2 = drop (length (saved u)) tenants" using write_ahead_log(3) [OF log2] by simp
  have len: "length (saved u) \<le> length (migrated u)" "length (migrated u) \<le> Suc (length (saved u))"
    using write_ahead_log(4) [OF log1 assms(3)] by auto
  have "prefix (migrated u) (migrated t1)" using assms(3) by (auto simp: prefix_def)
  then have "prefix (migrated u) tenants" using write_ahead_log(1) [OF log1] prefix_order.trans by blast
  then obtain rest where rest: "tenants = migrated u @ rest" by (auto simp: prefix_def)
  have "set tenants = set (take (length (saved u)) tenants) \<union> set (drop (length (saved u)) tenants)"
    by (metis append_take_drop_id set_append)
  moreover have "set (take (length (saved u)) tenants) \<subseteq> set (migrated u)"
  proof -
    have "take (length (saved u)) tenants = take (length (saved u)) (migrated u)"
      using len(1) by (subst rest) simp
    then show ?thesis by (simp add: set_take_subset)
  qed
  moreover have "set (migrated u) \<subseteq> set tenants" unfolding rest by simp
  ultimately have "set (migrated u @ migrated t2) = set tenants" unfolding t2 by auto
  moreover have "migrated u = take (length (migrated u)) tenants"
    using rest by (metis append_eq_conv_conj)
  ultimately show ?thesis using t2 len by blast
qed

text \<open>The first coordinator dies between the second tenant and its checkpoint.\<close>

theorem migration_resumes_witness:
  "\<exists>t1 t2. migrated (take 3 t1) = [''t'', ''u''] \<and> migrated t2 = [''u'', ''v''] \<and>
     set (migrated (take 3 t1) @ migrated t2) = {''t'', ''u'', ''v''}"
proof -
  have ex_char: "char_of (116 :: nat) = CHR ''t''" by (simp add: char_of_eq_iff)
  let ?run = "\<lambda>w cp. migration_work ex_progress_codec (logged_lease Save ex_lease) (logged_migrate ex_migrate)
    [''t'', ''u'', ''v''] None (w, []) (ex_token ''a'' 1 10) cp"
  let ?w = "ex_world\<lparr>cw_store := ex_mem (ex_row ''a'' 1 10)\<rparr>"
  obtain w1 t1 out1 where run1: "?run ?w zero_checkpoint = ((w1, t1), out1)"
    "t1 = [Migrate ''t'' None, Save (Some [1, 116]) None, Migrate ''u'' None, Save (Some [1, 116, 117]) None,
           Migrate ''v'' None, Save (Some [1, 116, 117, 118]) None]"
    by (simp add: migration_work_def zero_checkpoint_def ex_migration_simps ex_run_simps)
  obtain w2 t2 st where run2: "?run ?w (zero_checkpoint\<lparr>cp_state := Some [1, 116], cp_prev_exit := ExitExpired\<rparr>) =
      ((w2, t2), Returned st (Some ErrRetire))"
    using ex_char by (simp add: migration_work_def zero_checkpoint_def ex_migration_simps ex_run_simps)
  have crash: "take 3 t1 = [Migrate ''t'' None, Save (Some [1, 116]) None, Migrate ''u'' None]"
    using run1(2) by simp
  have "migrated t2 = drop (length (saved (take 3 t1))) [''t'', ''u'', ''v''] \<and>
      set (migrated (take 3 t1) @ migrated t2) = set [''t'', ''u'', ''v'']"
    using migration_resumes [OF run1(1) _ take_is_prefix run2 _ _ ex_progress_codec_json, of 3] crash
    by (simp add: last_saved_def zero_checkpoint_def)
  then show ?thesis using crash by (intro exI [of _ t1] exI [of _ t2]) simp
qed

end
