(* ===== verification/Cancellation.thy ===== *)
theory Cancellation
  imports Migration
begin

text \<open>
  \<open>examples/subscription-cancellation/main.go\<close>: a cancellation in four steps, each an effect on the
  outside world followed by a checkpoint of the flags.

  The codec and the effects are parameters; an effect is a function on the world. The flag a step sets
  through its pointer is a field of the progress record. Log lines are left out.
\<close>

section \<open>Steps\<close>

record cancellation =
  BillingCancelled :: bool
  ResourcesScheduled :: bool
  DataArchived :: bool
  EmailSent :: bool

definition zero_cancellation :: cancellation where
  "zero_cancellation = \<lparr>BillingCancelled = False, ResourcesScheduled = False, DataArchived = False, EmailSent = False\<rparr>"

text \<open>The effects, and the flag of each.\<close>

datatype cancel_effect = CancelBilling | ScheduleDeprovisioning | ArchiveData | SendEmail

fun set_flag :: "cancel_effect \<Rightarrow> cancellation \<Rightarrow> cancellation" where
  "set_flag CancelBilling p = p\<lparr>BillingCancelled := True\<rparr>"
| "set_flag ScheduleDeprovisioning p = p\<lparr>ResourcesScheduled := True\<rparr>"
| "set_flag ArchiveData p = p\<lparr>DataArchived := True\<rparr>"
| "set_flag SendEmail p = p\<lparr>EmailSent := True\<rparr>"

type_synonym 'w effects = "cancel_effect \<Rightarrow> 'w \<Rightarrow> 'w"

definition runStep ::
  "cancellation codec \<Rightarrow> 'w lease \<Rightarrow> token \<Rightarrow> 'w effects \<Rightarrow> cancel_effect \<Rightarrow> cancellation \<Rightarrow> 'w \<Rightarrow>
   'w \<times> cancellation \<times> gerror option" where
  "runStep codec L tok eff flag progress w =
     (let w = eff flag w;
          progress = set_flag flag progress
      in case Encode codec progress of
           Inl err \<Rightarrow> (w, progress, Some err)
         | Inr data \<Rightarrow> let (w, err) = l_checkpoint L RenewalCtx w tok data in (w, progress, err))"

text \<open>Consecutive steps of a work function, up to the first error, which it returns with no state.\<close>

fun run_steps ::
  "cancellation codec \<Rightarrow> 'w lease \<Rightarrow> token \<Rightarrow> 'w effects \<Rightarrow> cancel_effect list \<Rightarrow> cancellation \<Rightarrow> 'w \<Rightarrow>
   'w \<times> work_outcome" where
  "run_steps codec L tok eff [] progress w = (w, Returned None None)"
| "run_steps codec L tok eff (flag # flags) progress w =
     (let (w, progress, err) = runStep codec L tok eff flag progress w
      in case err of
           Some e \<Rightarrow> (w, Returned None (Some e))
         | None \<Rightarrow> run_steps codec L tok eff flags progress w)"

definition all_steps :: "cancel_effect list" where
  "all_steps = [CancelBilling, ScheduleDeprovisioning, ArchiveData, SendEmail]"

lemma all_steps_length: "length all_steps = 4"
  by (simp add: all_steps_def)

text \<open>Worker A: from the beginning.\<close>

definition cancel_work :: "cancellation codec \<Rightarrow> 'w lease \<Rightarrow> 'w effects \<Rightarrow> 'w work_fn" where
  "cancel_work codec L eff w tok cp = run_steps codec L tok eff all_steps zero_cancellation w"

text \<open>Worker C: from the checkpoint of a worker that crashed.\<close>

definition resume_work :: "cancellation codec \<Rightarrow> 'w lease \<Rightarrow> 'w effects \<Rightarrow> 'w work_fn" where
  "resume_work codec L eff w tok cp =
     (case Decode codec zero_cancellation (cp_state cp) of
        Inl err \<Rightarrow> (w, Returned None (Some err))
      | Inr progress \<Rightarrow>
          run_steps codec L tok eff
            ((if BillingCancelled progress then [] else [CancelBilling]) @
             [ScheduleDeprovisioning, ArchiveData, SendEmail]) progress w)"

text \<open>
  Worker E: first the stuck worker D wakes up and tries to checkpoint with its own lease and token; its
  result is only logged. Then from the beginning.
\<close>

definition zombie_step ::
  "cancellation codec \<Rightarrow> 'w lease \<Rightarrow> token \<Rightarrow> cancellation \<Rightarrow> 'w \<Rightarrow> 'w \<times> gerror option" where
  "zombie_step codec zombieLease zombieToken progress w =
     l_checkpoint zombieLease CallerCtx w zombieToken
       (case Encode codec progress of Inl err \<Rightarrow> None | Inr data \<Rightarrow> data)"

definition fencing_work ::
  "cancellation codec \<Rightarrow> 'w lease \<Rightarrow> 'w lease \<Rightarrow> token \<Rightarrow> 'w effects \<Rightarrow> 'w work_fn" where
  "fencing_work codec L zombieLease zombieToken eff w tok cp =
     (let (w, err) = zombie_step codec zombieLease zombieToken (zero_cancellation\<lparr>BillingCancelled := True\<rparr>) w
      in run_steps codec L tok eff all_steps zero_cancellation w)"

definition newCancelRunner :: "'w lease \<Rightarrow> 'w work_fn \<Rightarrow> gerror + 'w runner" where
  "newCancelRunner L fn =
     NewRunner \<lparr>rg_lease = Some L, rg_fn = Some fn, rg_acquire = [], rg_renewal = [], rg_cleanup = 0\<rparr>"

section \<open>Effects and checkpoints in order\<close>

datatype cevent = Effect cancel_effect | Saved bytes "gerror option"

definition logged_effects :: "'w effects \<Rightarrow> ('w \<times> cevent list) effects" where
  "logged_effects eff = (\<lambda>k (w, t). (eff k w, t @ [Effect k]))"

fun effects_of :: "cevent list \<Rightarrow> cancel_effect list" where
  "effects_of [] = []"
| "effects_of (Effect k # t) = k # effects_of t"
| "effects_of (ev # t) = effects_of t"

fun saves_of :: "cevent list \<Rightarrow> bytes list" where
  "saves_of [] = []"
| "saves_of (Saved d None # t) = d # saves_of t"
| "saves_of (ev # t) = saves_of t"

text \<open>The logs of consecutive steps from the flags \<open>p\<close>.\<close>

inductive step_log :: "cancellation codec \<Rightarrow> cancellation \<Rightarrow> cancel_effect list \<Rightarrow> cevent list \<Rightarrow> gerror option \<Rightarrow> bool"
  for codec where
  no_step: "step_log codec p [] [] None"
| saved: "Encode codec (set_flag k p) = Inr d \<Longrightarrow> step_log codec (set_flag k p) ks t e \<Longrightarrow>
    step_log codec p (k # ks) (Effect k # Saved d None # t) e"
| not_encoded: "Encode codec (set_flag k p) = Inl e \<Longrightarrow> step_log codec p (k # ks) [Effect k] (Some e)"
| not_saved: "Encode codec (set_flag k p) = Inr d \<Longrightarrow>
    step_log codec p (k # ks) [Effect k, Saved d (Some e)] (Some e)"

lemma run_steps_logged:
  "run_steps codec (logged_lease Saved L) tok (logged_effects eff) ks p (w, t0) = ((w', t1), out) \<Longrightarrow>
   \<exists>t err. t1 = t0 @ t \<and> step_log codec p ks t err \<and> out = Returned None err"
proof (induction ks arbitrary: p w t0)
  case Nil
  then show ?case by (auto intro: step_log.no_step)
next
  case (Cons k ks)
  show ?case
  proof (cases "Encode codec (set_flag k p)")
    case (Inl e)
    then have "t1 = t0 @ [Effect k]" "out = Returned None (Some e)"
      using Cons.prems by (simp_all add: runStep_def logged_effects_def)
    then show ?thesis using step_log.not_encoded [OF Inl] by blast
  next
    case (Inr d)
    obtain w2 e where cp: "l_checkpoint L RenewalCtx (eff k w) tok d = (w2, e)"
      by (cases "l_checkpoint L RenewalCtx (eff k w) tok d")
    show ?thesis
    proof (cases e)
      case None
      then have "run_steps codec (logged_lease Saved L) tok (logged_effects eff) ks (set_flag k p)
          (w2, t0 @ [Effect k, Saved d None]) = ((w', t1), out)"
        using Cons.prems Inr cp by (simp add: runStep_def logged_effects_def)
      from Cons.IH [OF this] show ?thesis using step_log.saved [OF Inr] by auto
    next
      case (Some y)
      then have "t1 = t0 @ [Effect k, Saved d (Some y)]" "out = Returned None (Some y)"
        using Cons.prems Inr cp by (simp_all add: runStep_def logged_effects_def)
      then show ?thesis using step_log.not_saved [OF Inr] by blast
    qed
  qed
qed

text \<open>What such a log has, whole and at every point where the worker may crash.\<close>

lemma step_log_facts:
  assumes "step_log codec p ks t err"
  shows "prefix (effects_of t) ks" and "err = None \<Longrightarrow> effects_of t = ks"
    and "prefix u t \<Longrightarrow> length (saves_of u) \<le> length (effects_of u) \<and> length (effects_of u) \<le> Suc (length (saves_of u))"
    and "n < length (saves_of t) \<Longrightarrow> Encode codec (fold set_flag (take (Suc n) ks) p) = Inr (saves_of t ! n)"
proof -
  show "prefix (effects_of t) ks" using assms by induction auto
  show "err = None \<Longrightarrow> effects_of t = ks" using assms by induction auto
  show "prefix u t \<Longrightarrow> length (saves_of u) \<le> length (effects_of u) \<and> length (effects_of u) \<le> Suc (length (saves_of u))"
    using assms
  proof (induction arbitrary: u)
    case (saved k p d ks t e)
    then show ?case by (auto simp: progress_prefix_Cons)
  qed (auto simp: prefix_Cons)
  show "n < length (saves_of t) \<Longrightarrow> Encode codec (fold set_flag (take (Suc n) ks) p) = Inr (saves_of t ! n)"
    using assms
  proof (induction arbitrary: n)
    case (saved k p d ks t e)
    then show ?case by (cases n) auto
  qed auto
qed

lemma effects_append [simp]: "effects_of (t @ u) = effects_of t @ effects_of u"
  by (induction t rule: effects_of.induct) simp_all

lemma saves_append [simp]: "saves_of (t @ u) = saves_of t @ saves_of u"
  by (induction t rule: saves_of.induct) simp_all

definition last_save :: "cevent list \<Rightarrow> bytes" where
  "last_save u = (if saves_of u = [] then None else last (saves_of u))"

text \<open>
  What the workers rely on of \<open>encoding/json\<close>: a record of booleans is encoded, and decoded back.
\<close>

definition json_flags_ok :: "cancellation codec \<Rightarrow> bool" where
  "json_flags_ok codec \<longleftrightarrow> (\<forall>p. \<exists>d. co_marshal codec p = Inr (Some d) \<and>
     co_unmarshal codec (Some d) zero_cancellation = (p, None))"

lemma last_save_decodes:
  assumes "step_log codec zero_cancellation ks t err" and "prefix u t" and "json_flags_ok codec"
  shows "Decode codec zero_cancellation (last_save u) = Inr (fold set_flag (take (length (saves_of u)) ks) zero_cancellation)"
proof (cases "saves_of u = []")
  case True
  then show ?thesis by (simp add: last_save_def Decode_def)
next
  case False
  let ?n = "length (saves_of u) - 1"
  let ?p = "fold set_flag (take (length (saves_of u)) ks) zero_cancellation"
  obtain t' where t: "t = u @ t'" using assms(2) by (auto simp: prefix_def)
  have "?n < length (saves_of t)" "saves_of t ! ?n = last_save u" "Suc ?n = length (saves_of u)"
    using False length_greater_0_conv [of "saves_of u"]
    by (simp_all add: t nth_append last_save_def last_conv_nth del: length_greater_0_conv)
  then have "Encode codec ?p = Inr (last_save u)"
    using step_log_facts(4) [OF assms(1), of ?n] by simp
  then have m: "co_marshal codec ?p = Inr (last_save u)" by (rule Encode_cases)
  obtain d where "co_marshal codec ?p = Inr (Some d)" "co_unmarshal codec (Some d) zero_cancellation = (?p, None)"
    using assms(3) unfolding json_flags_ok_def by blast
  then show ?thesis using m by (simp add: Decode_def)
qed

section \<open>Properties\<close>

text \<open>
  C33. Every effect happens, and none more than twice. Worker A starts the cancellation and dies at any
  point of its run; worker C reads the flags A saved last and its work function returns nil. Then A's
  effects are the first few, at most one of them unsaved, and C's are all four, without the billing if A
  saved anything: together each effect happens once or twice, and the billing just once if it was saved.
  \<open>encoding/json\<close> is assumed to decode the flags it encoded.
\<close>

theorem cancellation_survives_crash:
  assumes "cancel_work codec (logged_lease Saved L1) (logged_effects eff1) (w1, []) tok1 cp1 = ((w1', t1), out1)"
    and "prefix u t1"
    and "resume_work codec (logged_lease Saved L2) (logged_effects eff2) (w2, []) tok2 cp2 = ((w2', t2), Returned None None)"
    and "cp_state cp2 = last_save u" and "json_flags_ok codec"
  shows "effects_of u = take (length (effects_of u)) all_steps \<and>
    length (saves_of u) \<le> length (effects_of u) \<and> length (effects_of u) \<le> Suc (length (saves_of u)) \<and>
    effects_of t2 = (if saves_of u = [] then all_steps else tl all_steps) \<and>
    (\<forall>k. let n = count_list (effects_of u @ effects_of t2) k
         in 1 \<le> n \<and> n \<le> 2 \<and> (k = CancelBilling \<and> saves_of u \<noteq> [] \<longrightarrow> n = 1))"
proof -
  obtain err1 where log1: "step_log codec zero_cancellation all_steps t1 err1"
    using run_steps_logged [OF assms(1) [unfolded cancel_work_def]] by auto
  let ?p = "fold set_flag (take (length (saves_of u)) all_steps) zero_cancellation"
  have billing: "BillingCancelled ?p \<longleftrightarrow> saves_of u \<noteq> []"
    by (cases "saves_of u") (auto simp: all_steps_def zero_cancellation_def take_Cons')
  have len: "length (saves_of u) \<le> length (effects_of u)" "length (effects_of u) \<le> Suc (length (saves_of u))"
    using step_log_facts(3) [OF log1 assms(2)] by auto
  have "prefix (effects_of u) all_steps"
    using assms(2) step_log_facts(1) [OF log1] by (auto simp: prefix_def)
  then have u: "effects_of u = take (length (effects_of u)) all_steps"
    by (metis append_eq_conv_conj prefix_def)
  have "run_steps codec (logged_lease Saved L2) tok2 (logged_effects eff2)
      (if saves_of u = [] then all_steps else tl all_steps) ?p (w2, []) = ((w2', t2), Returned None None)"
    using assms(3) unfolding resume_work_def assms(4) last_save_decodes [OF log1 assms(2,5)] sum.case billing
    by (cases "saves_of u = []") (simp_all only: all_steps_def list.sel if_True if_False append_Nil append_Cons simp_thms)
  from run_steps_logged [OF this] obtain err2
    where "step_log codec ?p (if saves_of u = [] then all_steps else tl all_steps) t2 err2" "err2 = None"
    by auto
  then have t2: "effects_of t2 = (if saves_of u = [] then all_steps else tl all_steps)"
    using step_log_facts(2) by blast
  have "1 \<le> count_list (effects_of u @ effects_of t2) k \<and> count_list (effects_of u @ effects_of t2) k \<le> 2 \<and>
      (k = CancelBilling \<and> saves_of u \<noteq> [] \<longrightarrow> count_list (effects_of u @ effects_of t2) k = 1)" for k
  proof -
    define n where "n = length (effects_of u)"
    have "n \<le> 4" using u unfolding n_def by (metis all_steps_length length_take min.bounded_iff order.refl)
    then have "n = 0 \<or> n = 1 \<or> n = 2 \<or> n = 3 \<or> n = 4" by arith
    then show ?thesis
      using len(1) n_def [symmetric] unfolding t2 u [folded n_def]
      by (elim disjE) (cases k; auto simp: all_steps_def)+
  qed
  then show ?thesis using u len t2 by (simp add: Let_def)
qed

text \<open>A codec of the flags, a byte for each; worker A dies between its second effect and its checkpoint.\<close>

definition flag_byte :: "bool \<Rightarrow> u8" where "flag_byte x = (if x then 1 else 0)"

definition ex_flags_codec :: "cancellation codec" where
  "ex_flags_codec =
     \<lparr>co_marshal = (\<lambda>p. Inr (Some (map flag_byte [BillingCancelled p, ResourcesScheduled p, DataArchived p, EmailSent p]))),
      co_unmarshal = (\<lambda>d p. (case d of
          Some [a, b, c, e] \<Rightarrow> \<lparr>BillingCancelled = (a = 1), ResourcesScheduled = (b = 1), DataArchived = (c = 1), EmailSent = (e = 1)\<rparr>
        | _ \<Rightarrow> p, None))\<rparr>"

lemma flag_byte_one [simp]: "flag_byte x = 1 \<longleftrightarrow> x"
  by (simp add: flag_byte_def)

lemma ex_flags_json: "json_flags_ok ex_flags_codec"
  unfolding json_flags_ok_def
proof
  fix p :: cancellation
  show "\<exists>d. co_marshal ex_flags_codec p = Inr (Some d) \<and> co_unmarshal ex_flags_codec (Some d) zero_cancellation = (p, None)"
    by (rule exI [of _ "map flag_byte [BillingCancelled p, ResourcesScheduled p, DataArchived p, EmailSent p]"])
       (simp add: ex_flags_codec_def)
qed

theorem cancellation_survives_crash_witness:
  "\<exists>t1 t2. effects_of (take 3 t1) = [CancelBilling, ScheduleDeprovisioning] \<and>
     effects_of t2 = [ScheduleDeprovisioning, ArchiveData, SendEmail] \<and>
     count_list (effects_of (take 3 t1) @ effects_of t2) CancelBilling = 1"
proof -
  let ?w = "ex_world\<lparr>cw_store := ex_mem (ex_row ''a'' 1 10)\<rparr>"
  let ?eff = "\<lambda>k w. w"
  obtain w1 t1 out1 where run1: "cancel_work ex_flags_codec (logged_lease Saved ex_lease) (logged_effects ?eff) (?w, [])
      (ex_token ''a'' 1 10) zero_checkpoint = ((w1, t1), out1)"
    "take 3 t1 = [Effect CancelBilling, Saved (Some [1, 0, 0, 0]) None, Effect ScheduleDeprovisioning]"
    by (simp add: cancel_work_def all_steps_def runStep_def logged_effects_def zero_cancellation_def Encode_def
        ex_flags_codec_def flag_byte_def ex_run_simps)
  obtain w2 t2 where run2: "resume_work ex_flags_codec (logged_lease Saved ex_lease) (logged_effects ?eff) (?w, [])
      (ex_token ''a'' 1 10) (zero_checkpoint\<lparr>cp_state := Some [1, 0, 0, 0]\<rparr>) = ((w2, t2), Returned None None)"
    by (simp add: resume_work_def zero_checkpoint_def Decode_def runStep_def logged_effects_def zero_cancellation_def
        Encode_def ex_flags_codec_def flag_byte_def ex_run_simps)
  have "effects_of t2 = [ScheduleDeprovisioning, ArchiveData, SendEmail] \<and>
      count_list (effects_of (take 3 t1) @ effects_of t2) CancelBilling = 1"
    using cancellation_survives_crash [OF run1(1) take_is_prefix run2 _ ex_flags_json, of 3] run1(2)
    by (simp add: last_save_def zero_checkpoint_def Let_def all_steps_def)
  then show ?thesis using run1(2) by (intro exI [of _ t1] exI [of _ t2]) (simp add: all_steps_def)
qed

end
