(* ===== verification/Observability.thy ===== *)
theory Observability
  imports Vacuum "HOL-Library.Monad_Syntax" "HOL-Library.Signed_Division"
begin

text \<open>
  \<open>examples/observability/main.go\<close>: an observer that aggregates the events of the lease client and of
  the vacuum into metrics, and the program that drives it.

  A Go map of counters is a partial map whose missing keys read zero; the counters are 64-bit and wrap.
  The observer reads the local clock in two callbacks, so every callback is given that reading.
  \<open>main\<close> runs on the memory backend with its fake clock; the readings of the local clock around each
  call and in its callbacks are arguments. A panic is \<open>None\<close>.
\<close>

section \<open>The observer\<close>

type_synonym counters = "string \<Rightarrow> int option"

definition counter :: "counters \<Rightarrow> string \<Rightarrow> int" where
  "counter m k = (case m k of None \<Rightarrow> 0 | Some n \<Rightarrow> n)"

definition add_to :: "counters \<Rightarrow> string \<Rightarrow> int \<Rightarrow> counters" where
  "add_to m k n = m(k \<mapsto> wrap64 (counter m k + n))"

record metrics =
  mo_calls :: counters
  mo_errors :: counters
  mo_latency :: counters
  mo_fenced :: int
  mo_held_since :: "u64 \<Rightarrow> instant option"
  mo_holds :: "duration list"
  mo_retries :: int
  mo_releases :: counters
  mo_reads :: counters
  mo_sweeps :: int
  mo_swept :: int
  mo_sweep_errors :: int

definition newMetricsObserver :: metrics where
  "newMetricsObserver =
     \<lparr>mo_calls = Map.empty, mo_errors = Map.empty, mo_latency = Map.empty, mo_fenced = 0,
      mo_held_since = Map.empty, mo_holds = [], mo_retries = 0, mo_releases = Map.empty,
      mo_reads = Map.empty, mo_sweeps = 0, mo_swept = 0, mo_sweep_errors = 0\<rparr>"

definition observe_call :: "string \<Rightarrow> duration \<Rightarrow> gerror option \<Rightarrow> metrics \<Rightarrow> metrics" where
  "observe_call q dur err m =
     (let m = m\<lparr>mo_calls := add_to (mo_calls m) q 1\<rparr>;
          m = m\<lparr>mo_latency := add_to (mo_latency m) q dur\<rparr>
      in if err \<noteq> None then m\<lparr>mo_errors := add_to (mo_errors m) q 1\<rparr> else m)"

text \<open>The callbacks of the lease observer; \<open>now\<close> is the local clock's reading.\<close>

fun observe :: "instant \<Rightarrow> event \<Rightarrow> metrics \<Rightarrow> metrics" where
  "observe now (OnAcquire w tok d err) m =
     (let m = observe_call ''acquire'' d err m
      in if err = None then m\<lparr>mo_held_since := (mo_held_since m)(tk_token tok \<mapsto> now)\<rparr> else m)"
| "observe now (OnCheckpoint tok sz d err) m = observe_call ''checkpoint'' d err m"
| "observe now (OnRenew tok d attempt err) m =
     (let m = observe_call ''renew'' d err m
      in if 1 < attempt then m\<lparr>mo_retries := wrap64 (mo_retries m + 1)\<rparr> else m)"
| "observe now (OnRelease tok d mode err) m =
     (let m = observe_call ''release'' d err m;
          m = (if err = None then m\<lparr>mo_releases := add_to (mo_releases m) (exit_mode_string mode) 1\<rparr> else m);
          ft = tk_token tok
      in case mo_held_since m ft of
           Some start \<Rightarrow> m\<lparr>mo_holds := mo_holds m @ [time_sub now start],
                          mo_held_since := (mo_held_since m)(ft := None)\<rparr>
         | None \<Rightarrow> m)"
| "observe now (OnReadCheckpoint tok d prev holder sz err) m =
     (let m = observe_call ''read_checkpoint'' d err m
      in if err = None then m\<lparr>mo_reads := add_to (mo_reads m) (exit_mode_string prev) 1\<rparr> else m)"
| "observe now (OnForget tok d err) m = observe_call ''forget'' d err m"
| "observe now (OnFenced tok q) m = m\<lparr>mo_fenced := wrap64 (mo_fenced m + 1)\<rparr>"

fun observe_sweep :: "sweep_event \<Rightarrow> metrics \<Rightarrow> metrics" where
  "observe_sweep (OnSweep opts deleted d err) m =
     (let m = m\<lparr>mo_sweeps := wrap64 (mo_sweeps m + 1)\<rparr>;
          m = m\<lparr>mo_swept := wrap64 (mo_swept m + deleted)\<rparr>
      in if err \<noteq> None then m\<lparr>mo_sweep_errors := wrap64 (mo_sweep_errors m + 1)\<rparr> else m)"

text \<open>The lines of the report.\<close>

datatype report_line =
    OpLine string int int duration
  | TotalLine string int
  | VacuumLine int int int
  | HoldLine nat duration
  | LabelLine string string int

definition metrics_report :: "metrics \<Rightarrow> report_line list" where
  "metrics_report m =
     map (\<lambda>q. OpLine q (counter (mo_calls m) q) (counter (mo_errors m) q)
                (wrap64 (counter (mo_latency m) q sdiv counter (mo_calls m) q)))
       (filter (\<lambda>q. counter (mo_calls m) q \<noteq> 0)
          [''acquire'', ''checkpoint'', ''renew'', ''release'', ''read_checkpoint'', ''forget'']) @
     [TotalLine ''fenced'' (mo_fenced m), TotalLine ''renew_retries'' (mo_retries m),
      VacuumLine (mo_sweeps m) (mo_swept m) (mo_sweep_errors m)] @
     map (\<lambda>(i, d). HoldLine i d) (enumerate 0 (mo_holds m)) @
     map (\<lambda>mode. LabelLine ''release_by_mode'' mode (counter (mo_releases m) mode))
       [''finished'', ''abandoned'', ''retired''] @
     map (\<lambda>prev. LabelLine ''read_by_prev'' prev (counter (mo_reads m) prev))
       [''none'', ''finished'', ''abandoned'', ''retired'', ''expired'']"

section \<open>The program\<close>

record oworld =
  ow_store :: memory_backend
  ow_now :: instant
  ow_local :: "nat \<Rightarrow> instant \<times> instant"
  ow_seen :: "nat \<Rightarrow> instant"
  ow_n :: nat
  ow_metrics :: metrics

definition advance :: "duration \<Rightarrow> oworld \<Rightarrow> oworld" where
  "advance d w = w\<lparr>ow_now := time_add (ow_now w) d\<rparr>"

text \<open>What surrounds the next call, and the world after it.\<close>

definition ow_env :: "oworld \<Rightarrow> call_env" where
  "ow_env w = \<lparr>ce_ctx = None, ce_clk = (\<lambda>k. ow_now w), ce_start = fst (ow_local w (ow_n w)),
     ce_end = snd (ow_local w (ow_n w))\<rparr>"

definition ow_after :: "oworld \<Rightarrow> memory_backend \<Rightarrow> (metrics \<Rightarrow> metrics) \<Rightarrow> oworld" where
  "ow_after w s f = w\<lparr>ow_store := s, ow_n := Suc (ow_n w), ow_metrics := f (ow_metrics w)\<rparr>"

definition ow_op :: "(call_env \<Rightarrow> memory_backend \<Rightarrow> memory_backend \<times> event list \<times> 'x) \<Rightarrow> oworld \<Rightarrow> oworld" where
  "ow_op f w =
     (let (s, evs, x) = f (ow_env w) (ow_store w)
      in ow_after w s (fold (observe (ow_seen w (ow_n w))) evs))"

definition ow_acquire :: "client_config \<Rightarrow> string \<Rightarrow> oworld \<Rightarrow> (oworld \<times> token) option" where
  "ow_acquire cfg workID w = do {
     (s, evs, r) \<leftarrow> client_acquire memory cfg (\<lambda>k. \<lparr>ae_before = [], ae_call = ow_env w, ae_wait = None\<rparr>)
       (ow_store w) workID [];
     case r of
       Inl e \<Rightarrow> None
     | Inr tok \<Rightarrow> Some (ow_after w s (fold (observe (ow_seen w (ow_n w))) evs), tok) }"

definition ow_sweep :: "memory_backend backend option \<Rightarrow> sweep_options \<Rightarrow> oworld \<Rightarrow> (oworld \<times> int) option" where
  "ow_sweep v opts w =
     (let (s, evs, n, err) = vacuum_sweep v (ow_env w) (ow_store w) opts
      in if err \<noteq> None then None else Some (ow_after w s (fold observe_sweep evs), n))"

text \<open>\<open>worklease.New\<close> on the shared backend; an error is a panic.\<close>

definition obs_lease :: "string \<Rightarrow> client_config option" where
  "obs_lease holder =
     (case lease_new (Some memory) \<lparr>cf_ttl = 30 * second, cf_holder = holder\<rparr> of
        Inl e \<Rightarrow> None
      | Inr (b, cfg) \<Rightarrow> Some cfg)"

text \<open>The bytes of a string literal.\<close>

definition literal :: "string \<Rightarrow> bytes" where
  "literal t = Some (map (\<lambda>ch. of_nat (of_char ch)) t)"

abbreviation hours :: "int \<Rightarrow> duration" where "hours n \<equiv> n * (3600 * second)"

definition clean_lifecycle :: "client_config \<Rightarrow> string \<Rightarrow> oworld \<Rightarrow> (oworld \<times> token) option" where
  "clean_lifecycle leaseA workID w = do {
     (w, tokenA) \<leftarrow> ow_acquire leaseA workID w;
     let w = ow_op (\<lambda>env s. client_checkpoint memory leaseA env s tokenA (literal ''page=1'')) w;
     let w = ow_op (\<lambda>env s. client_checkpoint memory leaseA env s tokenA (literal ''page=2'')) w;
     let w = ow_op (\<lambda>env s. client_renew memory leaseA env s tokenA) w;
     let w = ow_op (\<lambda>env s. client_read_checkpoint memory leaseA env s tokenA) w;
     Some (w, tokenA) }"

definition fencing_scenario ::
  "client_config \<Rightarrow> client_config \<Rightarrow> string \<Rightarrow> token \<Rightarrow> oworld \<Rightarrow> oworld option" where
  "fencing_scenario leaseA leaseB workID tokenA w = do {
     (w, tokenB) \<leftarrow> ow_acquire leaseB workID (advance (31 * second) w);
     let w = ow_op (\<lambda>env s. client_checkpoint memory leaseA env s tokenA (literal ''page=3'')) w;
     let w = ow_op (\<lambda>env s. client_read_checkpoint memory leaseB env s tokenB) w;
     Some (ow_op (\<lambda>env s. client_release memory leaseB env s tokenB ExitFinished) w) }"

definition abandoned_run :: "string \<Rightarrow> oworld \<Rightarrow> oworld option" where
  "abandoned_run workID w = do {
     leaseC \<leftarrow> obs_lease ''holder-C'';
     (w, tokenC) \<leftarrow> ow_acquire leaseC workID w;
     let w = ow_op (\<lambda>env s. client_read_checkpoint memory leaseC env s tokenC) w;
     Some (ow_op (\<lambda>env s. client_release memory leaseC env s tokenC ExitAbandoned) w) }"

definition retention_scenario :: "client_config \<Rightarrow> string \<Rightarrow> token \<Rightarrow> oworld \<Rightarrow> (oworld \<times> int) option" where
  "retention_scenario leaseA workID tokenA w = do {
     leaseD \<leftarrow> obs_lease ''holder-D'';
     (w, tokenD) \<leftarrow> ow_acquire leaseD workID w;
     let w = ow_op (\<lambda>env s. client_forget memory leaseD env s tokenD) w;
     let w = ow_op (\<lambda>env s. client_forget memory leaseA env s tokenA) w;
     (w, tokenR) \<leftarrow> ow_acquire leaseD ''report-2026-07'' w;
     let w = ow_op (\<lambda>env s. client_release memory leaseD env s tokenR ExitRetired) w;
     let w = advance (hours 2) w;
     case NewVacuum (Some memory) of
       Inl e \<Rightarrow> None
     | Inr vacuum \<Rightarrow> ow_sweep vacuum \<lparr>so_retention = hours 1, so_include_expired = False\<rparr> w }"

definition observability_main ::
  "instant \<Rightarrow> (nat \<Rightarrow> instant \<times> instant) \<Rightarrow> (nat \<Rightarrow> instant) \<Rightarrow> (metrics \<times> int \<times> report_line list) option" where
  "observability_main start local seen = do {
     let w = \<lparr>ow_store = memory_new, ow_now = start, ow_local = local, ow_seen = seen, ow_n = 0,
              ow_metrics = newMetricsObserver\<rparr>;
     leaseA \<leftarrow> obs_lease ''holder-A'';
     leaseB \<leftarrow> obs_lease ''holder-B'';
     (w, tokenA) \<leftarrow> clean_lifecycle leaseA ''report-2026-06'' w;
     w \<leftarrow> fencing_scenario leaseA leaseB ''report-2026-06'' tokenA w;
     w \<leftarrow> abandoned_run ''report-2026-06'' w;
     (w, swept) \<leftarrow> retention_scenario leaseA ''report-2026-06'' tokenA w;
     Some (ow_metrics w, swept, metrics_report (ow_metrics w)) }"

section \<open>The metrics count the log\<close>

text \<open>A log: what reached the observer, each with the reading of the clock in its callback.\<close>

type_synonym obs_log = "(instant \<times> (event + sweep_event)) list"

fun observe_any :: "instant \<times> (event + sweep_event) \<Rightarrow> metrics \<Rightarrow> metrics" where
  "observe_any (now, Inl ev) m = observe now ev m"
| "observe_any (now, Inr sw) m = observe_sweep sw m"

definition observed :: "obs_log \<Rightarrow> metrics" where
  "observed log = fold observe_any log newMetricsObserver"

text \<open>The reference: sums over the log of what each event is worth.\<close>

fun op_name :: "event \<Rightarrow> string option" where
  "op_name (OnAcquire w tok d err) = Some ''acquire''"
| "op_name (OnCheckpoint tok sz d err) = Some ''checkpoint''"
| "op_name (OnRenew tok d attempt err) = Some ''renew''"
| "op_name (OnRelease tok d mode err) = Some ''release''"
| "op_name (OnReadCheckpoint tok d prev holder sz err) = Some ''read_checkpoint''"
| "op_name (OnForget tok d err) = Some ''forget''"
| "op_name (OnFenced tok q) = None"

fun released_as :: "event \<Rightarrow> string option" where
  "released_as (OnRelease tok d mode None) = Some (exit_mode_string mode)"
| "released_as ev = None"

fun read_after :: "event \<Rightarrow> string option" where
  "read_after (OnReadCheckpoint tok d prev holder sz None) = Some (exit_mode_string prev)"
| "read_after ev = None"

fun is_retry :: "event \<Rightarrow> bool" where
  "is_retry (OnRenew tok d attempt err) = (1 < attempt)"
| "is_retry ev = False"

definition lease_events :: "obs_log \<Rightarrow> event list" where
  "lease_events log = concat (map (\<lambda>(now, x). case x of Inl ev \<Rightarrow> [ev] | Inr sw \<Rightarrow> []) log)"

definition sweep_events :: "obs_log \<Rightarrow> sweep_event list" where
  "sweep_events log = concat (map (\<lambda>(now, x). case x of Inl ev \<Rightarrow> [] | Inr sw \<Rightarrow> [sw]) log)"

definition total :: "('e \<Rightarrow> int) \<Rightarrow> 'e list \<Rightarrow> int" where
  "total f es = wrap64 (sum_list (map f es))"

lemma observed_snoc [simp]:
  "observed [] = newMetricsObserver" "observed (log @ [x]) = observe_any x (observed log)"
  by (simp_all add: observed_def)

lemma events_snoc [simp]:
  "lease_events [] = []" "sweep_events [] = []"
  "lease_events (log @ [(now, Inl ev)]) = lease_events log @ [ev]" "lease_events (log @ [(now, Inr sw)]) = lease_events log"
  "sweep_events (log @ [(now, Inl ev)]) = sweep_events log" "sweep_events (log @ [(now, Inr sw)]) = sweep_events log @ [sw]"
  by (simp_all add: lease_events_def sweep_events_def)

lemma wrap64_add: "wrap64 (wrap64 a + b) = wrap64 (a + b)"
proof -
  have "(wrap64 a + b + 2 ^ 63) mod 2 ^ 64 = ((a + 2 ^ 63) mod 2 ^ 64 + b) mod 2 ^ 64"
    by (simp add: wrap64_def)
  also have "\<dots> = (a + 2 ^ 63 + b) mod 2 ^ 64" by (rule mod_add_left_eq)
  also have "\<dots> = (a + b + 2 ^ 63) mod 2 ^ 64" by (simp add: algebra_simps)
  finally show ?thesis by (simp add: wrap64_def)
qed

lemma total_snoc [simp]:
  "total f [] = 0" "total f (es @ [e]) = wrap64 (total f es + f e)" "wrap64 (total f es) = total f es"
  using wrap64_add [of "sum_list (map f es)" 0] by (simp_all add: total_def wrap64_add) (simp add: wrap64_def)

lemma counter_add_to [simp]:
  "counter (add_to m k n) q = (if q = k then wrap64 (counter m k + n) else counter m q)"
  "counter Map.empty q = 0"
  by (simp_all add: counter_def add_to_def)

lemma observe_call_sel [simp]:
  "mo_calls (observe_call q d err m) = add_to (mo_calls m) q 1"
  "mo_errors (observe_call q d err m) = (if err \<noteq> None then add_to (mo_errors m) q 1 else mo_errors m)"
  "mo_latency (observe_call q d err m) = add_to (mo_latency m) q d"
  "mo_fenced (observe_call q d err m) = mo_fenced m"
  "mo_held_since (observe_call q d err m) = mo_held_since m" "mo_holds (observe_call q d err m) = mo_holds m"
  "mo_retries (observe_call q d err m) = mo_retries m" "mo_releases (observe_call q d err m) = mo_releases m"
  "mo_reads (observe_call q d err m) = mo_reads m" "mo_sweeps (observe_call q d err m) = mo_sweeps m"
  "mo_swept (observe_call q d err m) = mo_swept m" "mo_sweep_errors (observe_call q d err m) = mo_sweep_errors m"
  by (simp_all add: observe_call_def Let_def)

text \<open>One field at a time; the log grows at its end.\<close>

lemma observed_induct [case_names Nil Lease Sweep]:
  assumes "P []" and "\<And>log now ev. P log \<Longrightarrow> P (log @ [(now, Inl ev)])"
    and "\<And>log now opts n d err. P log \<Longrightarrow> P (log @ [(now, Inr (OnSweep opts n d err))])"
  shows "P log"
proof (induction log rule: rev_induct)
  case (snoc x log)
  obtain now e where "x = (now, e)" by (cases x)
  then show ?case using assms(2,3) snoc by (cases e) (use sweep_event.exhaust in \<open>auto, metis\<close>)
qed (rule assms(1))

lemmas observed_simps = newMetricsObserver_def Let_def of_bool_def

lemma observed_calls:
  "counter (mo_calls (observed log)) q = total (\<lambda>e. of_bool (op_name e = Some q)) (lease_events log)"
  "counter (mo_errors (observed log)) q =
     total (\<lambda>e. of_bool (op_name e = Some q \<and> ev_err e \<noteq> None)) (lease_events log)"
  "counter (mo_latency (observed log)) q = total (\<lambda>e. if op_name e = Some q then ev_dur e else 0) (lease_events log)"
proof (induction log rule: observed_induct)
  case (Lease log now ev)
  case 1 then show ?case using Lease by (cases ev) (auto simp: observed_simps split: option.splits)
  case 2 then show ?case using Lease by (cases ev) (auto simp: observed_simps split: option.splits)
  case 3 then show ?case using Lease by (cases ev) (auto simp: observed_simps split: option.splits)
qed (simp_all add: observed_simps)

lemma observed_labels:
  "mo_fenced (observed log) = total (\<lambda>e. of_bool (is_fenced_event e)) (lease_events log)"
  "mo_retries (observed log) = total (\<lambda>e. of_bool (is_retry e)) (lease_events log)"
  "counter (mo_releases (observed log)) l = total (\<lambda>e. of_bool (released_as e = Some l)) (lease_events log)"
  "counter (mo_reads (observed log)) l = total (\<lambda>e. of_bool (read_after e = Some l)) (lease_events log)"
proof (induction log rule: observed_induct)
  case (Lease log now ev)
  case 1 then show ?case using Lease by (cases ev) (auto simp: observed_simps split: option.splits)
  case 2 then show ?case using Lease by (cases ev) (auto simp: observed_simps split: option.splits)
  case 3 then show ?case using Lease
    by (cases ev rule: released_as.cases) (auto simp: observed_simps split: option.split)
  case 4 then show ?case using Lease
    by (cases ev rule: read_after.cases) (auto simp: observed_simps split: option.split)
qed (simp_all add: observed_simps)

lemma observe_sweeps [simp]:
  "mo_sweeps (observe now ev m) = mo_sweeps m" "mo_swept (observe now ev m) = mo_swept m"
  "mo_sweep_errors (observe now ev m) = mo_sweep_errors m"
  by (cases ev; auto simp: Let_def split: option.splits)+

lemma observed_sweeps:
  "mo_sweeps (observed log) = total (\<lambda>e. 1) (sweep_events log)"
  "mo_swept (observed log) = total sw_deleted (sweep_events log)"
  "mo_sweep_errors (observed log) = total (\<lambda>e. of_bool (sw_err e \<noteq> None)) (sweep_events log)"
  by (induction log rule: observed_induct) (simp_all add: observed_simps)

section \<open>Holdings\<close>

text \<open>The fencing token whose holding an entry of the log starts, or ends.\<close>

fun started :: "instant \<times> (event + sweep_event) \<Rightarrow> u64 option" where
  "started (now, Inl (OnAcquire w tok d None)) = Some (tk_token tok)"
| "started x = None"

fun ended :: "instant \<times> (event + sweep_event) \<Rightarrow> u64 option" where
  "ended (now, Inl (OnRelease tok d mode err)) = Some (tk_token tok)"
| "ended x = None"

definition acquired :: "obs_log \<Rightarrow> u64 list" where
  "acquired log = concat (map (\<lambda>x. case started x of None \<Rightarrow> [] | Some ft \<Rightarrow> [ft]) log)"

lemma acquired_snoc [simp]:
  "acquired [] = []"
  "acquired (log @ [x]) = acquired log @ (case started x of None \<Rightarrow> [] | Some ft \<Rightarrow> [ft])"
  by (simp_all add: acquired_def)

lemma acquired_iff: "ft \<in> set (acquired log) \<longleftrightarrow> (\<exists>x\<in>set log. started x = Some ft)"
  by (force simp: acquired_def split: option.splits)

lemma observe_sweep_holding [simp]:
  "mo_held_since (observe_sweep sw m) = mo_held_since m" "mo_holds (observe_sweep sw m) = mo_holds m"
  by (cases sw; simp add: Let_def)+

lemma holding_step:
  "mo_held_since (observe_any x m) =
     (case started x of
        Some ft \<Rightarrow> (mo_held_since m)(ft \<mapsto> fst x)
      | None \<Rightarrow> (case ended x of Some ft \<Rightarrow> (mo_held_since m)(ft := None) | None \<Rightarrow> mo_held_since m))"
  "mo_holds (observe_any x m) =
     (case ended x of
        None \<Rightarrow> mo_holds m
      | Some ft \<Rightarrow> (case mo_held_since m ft of None \<Rightarrow> mo_holds m | Some t \<Rightarrow> mo_holds m @ [time_sub (fst x) t]))"
proof -
  obtain now e where x: "x = (now, e)" by (cases x)
  show "mo_held_since (observe_any x m) =
     (case started x of
        Some ft \<Rightarrow> (mo_held_since m)(ft \<mapsto> fst x)
      | None \<Rightarrow> (case ended x of Some ft \<Rightarrow> (mo_held_since m)(ft := None) | None \<Rightarrow> mo_held_since m))"
    unfolding x by (cases "(now, e)" rule: started.cases) (auto simp: Let_def split: option.splits)
  show "mo_holds (observe_any x m) =
     (case ended x of
        None \<Rightarrow> mo_holds m
      | Some ft \<Rightarrow> (case mo_held_since m ft of None \<Rightarrow> mo_holds m | Some t \<Rightarrow> mo_holds m @ [time_sub (fst x) t]))"
    unfolding x by (cases "(now, e)" rule: ended.cases) (auto simp: Let_def split: option.splits)
qed

text \<open>The holding of \<open>ft\<close> that started at \<open>t\<close> is open at the end of the log.\<close>

definition open_since :: "obs_log \<Rightarrow> u64 \<Rightarrow> instant \<Rightarrow> bool" where
  "open_since log ft t \<longleftrightarrow> (\<exists>l1 x l2. log = l1 @ x # l2 \<and> started x = Some ft \<and> fst x = t \<and>
     (\<forall>y\<in>set l2. started y \<noteq> Some ft \<and> ended y \<noteq> Some ft))"

lemma open_sinceI:
  "log = l1 @ x # l2 \<Longrightarrow> started x = Some ft \<Longrightarrow> \<forall>y\<in>set l2. started y \<noteq> Some ft \<and> ended y \<noteq> Some ft \<Longrightarrow>
   open_since log ft (fst x)"
  unfolding open_since_def by blast

lemma open_since_snoc:
  "\<not> open_since [] ft t"
  "open_since (log @ [x]) ft t \<longleftrightarrow>
     (if started x = Some ft then fst x = t else ended x \<noteq> Some ft \<and> open_since log ft t)"
proof -
  show "\<not> open_since [] ft t" by (simp add: open_since_def)
  have "open_since (log @ [x]) ft t \<longleftrightarrow> started x = Some ft \<and> fst x = t \<or>
      started x \<noteq> Some ft \<and> ended x \<noteq> Some ft \<and> open_since log ft t"
  proof
    assume "open_since (log @ [x]) ft t"
    then obtain l1 y l2 where y: "log @ [x] = l1 @ y # l2" "started y = Some ft" "fst y = t"
      "\<forall>z\<in>set l2. started z \<noteq> Some ft \<and> ended z \<noteq> Some ft"
      unfolding open_since_def by blast
    then show "started x = Some ft \<and> fst x = t \<or> started x \<noteq> Some ft \<and> ended x \<noteq> Some ft \<and> open_since log ft t"
      using open_sinceI [OF _ y(2)] by (cases l2 rule: rev_cases) auto
  next
    assume "started x = Some ft \<and> fst x = t \<or> started x \<noteq> Some ft \<and> ended x \<noteq> Some ft \<and> open_since log ft t"
    then show "open_since (log @ [x]) ft t"
    proof
      assume "started x = Some ft \<and> fst x = t"
      then show ?thesis unfolding open_since_def by (intro exI [of _ log] exI [of _ x] exI [of _ "[]"]) simp
    next
      assume later: "started x \<noteq> Some ft \<and> ended x \<noteq> Some ft \<and> open_since log ft t"
      then obtain l1 y l2 where "log = l1 @ y # l2" "started y = Some ft" "fst y = t"
        "\<forall>z\<in>set l2. started z \<noteq> Some ft \<and> ended z \<noteq> Some ft"
        unfolding open_since_def by blast
      then show ?thesis
        using later unfolding open_since_def
        by (intro exI [of _ l1] exI [of _ y] exI [of _ "l2 @ [x]"]) auto
    qed
  qed
  then show "open_since (log @ [x]) ft t \<longleftrightarrow>
     (if started x = Some ft then fst x = t else ended x \<noteq> Some ft \<and> open_since log ft t)"
    by auto
qed

lemma started_not_ended: "started x = Some ft \<Longrightarrow> ended x = None"
  by (cases x rule: started.cases) simp_all

lemma held_since_open: "mo_held_since (observed log) ft = Some t \<longleftrightarrow> open_since log ft t"
  by (induction log rule: rev_induct)
     (auto simp: open_since_snoc newMetricsObserver_def holding_step dest: started_not_ended split: option.splits)

lemma holds_closed:
  "d \<in> set (mo_holds (observed log)) \<longleftrightarrow>
   (\<exists>l1 y l2 ft t. log = l1 @ y # l2 \<and> ended y = Some ft \<and> open_since l1 ft t \<and> d = time_sub (fst y) t)"
proof (induction log rule: rev_induct)
  case (snoc x log)
  have last: "(\<exists>l1 y l2. log @ [x] = l1 @ y # l2 \<and> P l1 y) \<longleftrightarrow> P log x \<or> (\<exists>l1 y l2. log = l1 @ y # l2 \<and> P l1 y)" for P
  proof
    assume "\<exists>l1 y l2. log @ [x] = l1 @ y # l2 \<and> P l1 y"
    then obtain l1 y l2 where split: "log @ [x] = l1 @ y # l2" "P l1 y" by blast
    show "P log x \<or> (\<exists>l1 y l2. log = l1 @ y # l2 \<and> P l1 y)"
    proof (cases l2 rule: rev_cases)
      case (snoc l3 z)
      then have "log = l1 @ y # l3" using split(1) by simp
      then show ?thesis using split(2) by blast
    qed (use split in simp)
  next
    assume "P log x \<or> (\<exists>l1 y l2. log = l1 @ y # l2 \<and> P l1 y)"
    then show "\<exists>l1 y l2. log @ [x] = l1 @ y # l2 \<and> P l1 y"
    proof
      assume "\<exists>l1 y l2. log = l1 @ y # l2 \<and> P l1 y"
      then obtain l1 y l2 where "log = l1 @ y # l2" "P l1 y" by blast
      then show ?thesis by (intro exI [of _ l1] exI [of _ y] exI [of _ "l2 @ [x]"]) simp
    qed blast
  qed
  have "d \<in> set (mo_holds (observed (log @ [x]))) \<longleftrightarrow>
      d \<in> set (mo_holds (observed log)) \<or> (\<exists>ft t. ended x = Some ft \<and> open_since log ft t \<and> d = time_sub (fst x) t)"
    by (auto simp: holding_step simp flip: held_since_open split: option.splits)
  then show ?case
    using snoc.IH last [of "\<lambda>l1 y. \<exists>ft t. ended y = Some ft \<and> open_since l1 ft t \<and> d = time_sub (fst y) t"]
    by auto
qed (simp add: newMetricsObserver_def)

lemma holds_conserved:
  assumes "distinct (acquired log)"
  shows "finite (dom (mo_held_since (observed log))) \<and> dom (mo_held_since (observed log)) \<subseteq> set (acquired log) \<and>
    length (mo_holds (observed log)) + card (dom (mo_held_since (observed log))) = length (acquired log)"
  using assms
proof (induction log rule: rev_induct)
  case (snoc x log)
  let ?h = "mo_held_since (observed log)"
  have IH: "finite (dom ?h)" "dom ?h \<subseteq> set (acquired log)"
    "length (mo_holds (observed log)) + card (dom ?h) = length (acquired log)"
    using snoc by (auto split: option.splits)
  show ?case
  proof (cases "started x")
    case (Some ft)
    then have "ft \<notin> dom ?h" using IH(2) snoc.prems by auto
    moreover have "mo_held_since (observed (log @ [x])) = ?h(ft \<mapsto> fst x)"
      "mo_holds (observed (log @ [x])) = mo_holds (observed log)"
      using Some started_not_ended [OF Some] by (simp_all add: holding_step)
    ultimately show ?thesis using IH Some by (simp only: dom_fun_upd) auto
  next
    case None
    show ?thesis
    proof (cases "ended x")
      case (Some ft)
      have "mo_held_since (observed (log @ [x])) = ?h(ft := None)"
        using None Some by (simp add: holding_step)
      then have dom: "dom (mo_held_since (observed (log @ [x]))) = dom ?h - {ft}" by simp
      show ?thesis
      proof (cases "?h ft")
        case None
        then have "dom ?h - {ft} = dom ?h" by auto
        then show ?thesis
          unfolding dom using IH Some None \<open>started x = None\<close> by (simp add: holding_step)
      next
        case (Some t)
        then have "ft \<in> dom ?h" by auto
        then have "card (dom ?h) = Suc (card (dom ?h - {ft}))" using card.remove [OF IH(1)] by blast
        moreover have "mo_holds (observed (log @ [x])) = mo_holds (observed log) @ [time_sub (fst x) t]"
          "acquired (log @ [x]) = acquired log"
          using Some \<open>started x = None\<close> \<open>ended x = Some ft\<close> by (simp_all add: holding_step)
        ultimately show ?thesis unfolding dom using IH by (simp only: length_append) auto
      qed
    qed (use IH None in \<open>simp add: holding_step\<close>)
  qed
qed (simp add: newMetricsObserver_def)

section \<open>Properties\<close>

text \<open>
  C24. The metrics are the counts of the log. After any sequence of events, each counter of the observer
  is the number of events it stands for, in 64 bits: calls, errors and summed durations per operation,
  fenced operations, renewals after the first attempt, successful releases per exit mode, successful
  reads per previous exit, sweeps, rows deleted and failed sweeps.
\<close>

theorem metrics_exact:
  "let m = observed log; es = lease_events log; sws = sweep_events log in
     (\<forall>q. counter (mo_calls m) q = total (\<lambda>e. of_bool (op_name e = Some q)) es \<and>
        counter (mo_errors m) q = total (\<lambda>e. of_bool (op_name e = Some q \<and> ev_err e \<noteq> None)) es \<and>
        counter (mo_latency m) q = total (\<lambda>e. if op_name e = Some q then ev_dur e else 0) es) \<and>
     mo_fenced m = total (\<lambda>e. of_bool (is_fenced_event e)) es \<and>
     mo_retries m = total (\<lambda>e. of_bool (is_retry e)) es \<and>
     (\<forall>l. counter (mo_releases m) l = total (\<lambda>e. of_bool (released_as e = Some l)) es \<and>
        counter (mo_reads m) l = total (\<lambda>e. of_bool (read_after e = Some l)) es) \<and>
     mo_sweeps m = total (\<lambda>e. 1) sws \<and> mo_swept m = total sw_deleted sws \<and>
     mo_sweep_errors m = total (\<lambda>e. of_bool (sw_err e \<noteq> None)) sws"
  unfolding Let_def by (intro conjI allI; rule observed_calls observed_labels observed_sweeps)

text \<open>
  Hold durations. If no fencing token was acquired twice, as the backends guarantee, then at any
  point of the log every holding is either open or measured, once: the holdings acquired are as many as
  the durations recorded and the entries still open together. A token is open from the reading of its
  acquisition until a release of it is reported, with or without an error; a duration is
  recorded exactly for a release of an open token, from the one reading to the other.
\<close>

theorem holdings_exact:
  assumes "distinct (acquired log)"
  shows "length (mo_holds (observed log)) + card (dom (mo_held_since (observed log))) = length (acquired log) \<and>
    (\<forall>ft t. mo_held_since (observed log) ft = Some t \<longleftrightarrow> open_since log ft t) \<and>
    (\<forall>d. d \<in> set (mo_holds (observed log)) \<longleftrightarrow>
       (\<exists>l1 y l2 ft t. log = l1 @ y # l2 \<and> ended y = Some ft \<and> open_since l1 ft t \<and> d = time_sub (fst y) t))"
  using holds_conserved [OF assms] held_since_open holds_closed by auto

text \<open>Two holdings: one crashed, its successor released as abandoned.\<close>

definition ex_obs_log :: obs_log where
  "ex_obs_log =
     [(At 3, Inl (OnAcquire ''w'' (ex_token ''a'' 1 10) 2 None)),
      (At 4, Inl (OnAcquire ''w'' zero_token 2 (Some ErrLeaseHeld))),
      (At 20, Inl (OnAcquire ''w'' (ex_token ''b'' 2 30) 2 None)),
      (At 25, Inl (OnRelease (ex_token ''b'' 2 30) 1 ExitAbandoned None))]"

theorem holdings_exact_witness:
  "length (mo_holds (observed ex_obs_log)) + card (dom (mo_held_since (observed ex_obs_log))) = 2 \<and>
   mo_holds (observed ex_obs_log) = [5] \<and> open_since ex_obs_log 1 (At 3)"
proof -
  have "distinct (acquired ex_obs_log)"
    by (simp add: ex_obs_log_def acquired_def ex_token_def)
  note exact = holdings_exact [OF this]
  have "mo_held_since (observed ex_obs_log) 1 = Some (At 3)" "mo_holds (observed ex_obs_log) = [5]"
    by (simp_all add: ex_obs_log_def observed_def newMetricsObserver_def ex_token_def time_sub_def sat64_def Let_def)
  then show ?thesis using exact by (simp add: ex_obs_log_def acquired_def)
qed

section \<open>The run of main\<close>

text \<open>A world of \<open>main\<close> after the events of a log, and one rule per call and outcome.\<close>

abbreviation ow :: "(nat \<Rightarrow> instant \<times> instant) \<Rightarrow> (nat \<Rightarrow> instant) \<Rightarrow> mem_records \<Rightarrow> u64 \<Rightarrow> int \<Rightarrow> nat \<Rightarrow> obs_log \<Rightarrow> oworld" where
  "ow loc seen rs q t n log \<equiv> \<lparr>ow_store = \<lparr>records = rs, seq = q\<rparr>, ow_now = At t, ow_local = loc, ow_seen = seen,
     ow_n = n, ow_metrics = observed log\<rparr>"

definition took :: "(nat \<Rightarrow> instant \<times> instant) \<Rightarrow> nat \<Rightarrow> duration" where
  "took loc n = time_sub (snd (loc n)) (fst (loc n))"

definition ow_token :: "(nat \<Rightarrow> instant \<times> instant) \<Rightarrow> nat \<Rightarrow> string \<Rightarrow> string \<Rightarrow> u64 \<Rightarrow> int \<Rightarrow> token" where
  "ow_token loc n w h k t = \<lparr>tk_work = w, tk_holder = h, tk_token = k, tk_expires = At (t + 30 * second),
     tk_deadline = time_add (fst (loc n)) (30 * second)\<rparr>"

definition obs_cfg :: "string \<Rightarrow> client_config" where
  "obs_cfg h = \<lparr>cf_ttl = 30 * second, cf_holder = h\<rparr>"

lemma obs_lease_ok: "h \<noteq> '''' \<Longrightarrow> obs_lease h = Some (obs_cfg h)"
  by (simp add: obs_lease_def lease_new_def minTTL_def obs_cfg_def)

lemma observed_add: "observe now ev (observed log) = observed (log @ [(now, Inl ev)])"
  by simp

lemmas ow_defs = ow_op_def ow_after_def ow_env_def observed_add call_dur_def took_def toRecord_def obs_cfg_def

lemma run_acquire:
  assumes "w \<noteq> ''''" and "\<forall>r. map_of rs w = Some r \<longrightarrow> ns (row_expires r) < t"
  shows "ow_acquire (obs_cfg h) w (ow loc seen rs q t n log) =
    Some (ow loc seen (AList.update w (successor_row (map_of rs w) h (q + 1) (At (t + 30 * second)) (At t)) rs) (q + 1) t
            (Suc n) (log @ [(seen n, Inl (OnAcquire w (ow_token loc n w h (q + 1) t) (took loc n) None))]),
          ow_token loc n w h (q + 1) t)"
  using assms
  by (cases "map_of rs w")
     (simp_all add: ow_acquire_def client_acquire_def default_acquire_config_def acquire_attempt_def mem_acquire_def
        newToken_def ow_token_def time_simps time_add_def successor_row_def Let_def ow_defs del: observed_snoc)

lemmas run_defs =
  ow_defs client_checkpoint_def client_renew_def client_release_def client_read_checkpoint_def client_forget_def
  mem_checkpoint_def mem_renew_def mem_release_def mem_read_checkpoint_def mem_forget_def
  fenced_events_def op_error_def time_simps time_add_def releaseGracePeriod_def declarable_iff

text \<open>The holder's calls: \<open>r\<close> is its row, \<open>w\<close> the work ID.\<close>

lemma run_holder:
  assumes "map_of rs (tk_work tok) = Some r" and "held_by r (toRecord tok)"
  shows "row_exit r = ExitNone \<Longrightarrow> d \<noteq> [] \<Longrightarrow>
    ow_op (\<lambda>env s. client_checkpoint memory (obs_cfg h) env s tok (Some d)) (ow loc seen rs q t n log) =
      ow loc seen (AList.update (tk_work tok) (r\<lparr>row_checkpoint := Some d, row_expires := At (t + 30 * second),
          row_updated := At t\<rparr>) rs) q t (Suc n)
        (log @ [(seen n, Inl (OnCheckpoint tok (length d) (took loc n) None))])"
    and "t < ns (row_expires r) \<Longrightarrow>
    ow_op (\<lambda>env s. client_renew memory (obs_cfg h) env s tok) (ow loc seen rs q t n log) =
      ow loc seen (AList.update (tk_work tok) (r\<lparr>row_expires := At (t + 30 * second), row_updated := At t\<rparr>) rs) q t (Suc n)
        (log @ [(seen n, Inl (OnRenew tok (took loc n) 1 None))])"
    and "t < ns (row_expires r) \<Longrightarrow> declarable m \<Longrightarrow>
    ow_op (\<lambda>env s. client_release memory (obs_cfg h) env s tok m) (ow loc seen rs q t n log) =
      ow loc seen (AList.update (tk_work tok) (r\<lparr>row_exit := m, row_expires := At (t - millisecond), row_updated := At t\<rparr>) rs)
        q t (Suc n) (log @ [(seen n, Inl (OnRelease tok (took loc n) m None))])"
    and "ow_op (\<lambda>env s. client_read_checkpoint memory (obs_cfg h) env s tok) (ow loc seen rs q t n log) =
      ow loc seen rs q t (Suc n)
        (log @ [(seen n, Inl (OnReadCheckpoint tok (took loc n) (row_prev_exit r) (row_prev_holder r)
           (slice_len (row_checkpoint r)) None))])"
    and "ow_op (\<lambda>env s. client_forget memory (obs_cfg h) env s tok) (ow loc seen rs q t n log) =
      ow loc seen (AList.delete (tk_work tok) rs) q t (Suc n)
        (log @ [(seen n, Inl (OnForget tok (took loc n) None))])"
proof -
  note [simp] = assms [unfolded toRecord_def]
  show "row_exit r = ExitNone \<Longrightarrow> d \<noteq> [] \<Longrightarrow>
    ow_op (\<lambda>env s. client_checkpoint memory (obs_cfg h) env s tok (Some d)) (ow loc seen rs q t n log) =
      ow loc seen (AList.update (tk_work tok) (r\<lparr>row_checkpoint := Some d, row_expires := At (t + 30 * second),
          row_updated := At t\<rparr>) rs) q t (Suc n)
        (log @ [(seen n, Inl (OnCheckpoint tok (length d) (took loc n) None))])"
    by (simp add: run_defs del: observed_snoc)
  show "t < ns (row_expires r) \<Longrightarrow>
    ow_op (\<lambda>env s. client_renew memory (obs_cfg h) env s tok) (ow loc seen rs q t n log) =
      ow loc seen (AList.update (tk_work tok) (r\<lparr>row_expires := At (t + 30 * second), row_updated := At t\<rparr>) rs) q t (Suc n)
        (log @ [(seen n, Inl (OnRenew tok (took loc n) 1 None))])"
    by (simp add: run_defs del: observed_snoc)
  show "t < ns (row_expires r) \<Longrightarrow> declarable m \<Longrightarrow>
    ow_op (\<lambda>env s. client_release memory (obs_cfg h) env s tok m) (ow loc seen rs q t n log) =
      ow loc seen (AList.update (tk_work tok) (r\<lparr>row_exit := m, row_expires := At (t - millisecond), row_updated := At t\<rparr>) rs)
        q t (Suc n) (log @ [(seen n, Inl (OnRelease tok (took loc n) m None))])"
    by (auto simp: run_defs simp del: observed_snoc)
  show "ow_op (\<lambda>env s. client_read_checkpoint memory (obs_cfg h) env s tok) (ow loc seen rs q t n log) =
      ow loc seen rs q t (Suc n)
        (log @ [(seen n, Inl (OnReadCheckpoint tok (took loc n) (row_prev_exit r) (row_prev_holder r)
           (slice_len (row_checkpoint r)) None))])"
    using assms(2) by (simp add: run_defs held_by_def del: observed_snoc)
  show "ow_op (\<lambda>env s. client_forget memory (obs_cfg h) env s tok) (ow loc seen rs q t n log) =
      ow loc seen (AList.delete (tk_work tok) rs) q t (Suc n)
        (log @ [(seen n, Inl (OnForget tok (took loc n) None))])"
    by (simp add: run_defs del: observed_snoc)
qed

text \<open>The calls of a holder that lost its row, or whose row is another's.\<close>

lemma run_fenced:
  assumes "\<forall>r. map_of rs (tk_work tok) = Some r \<longrightarrow> \<not> held_by r (toRecord tok)"
  shows "ow_op (\<lambda>env s. client_checkpoint memory (obs_cfg h) env s tok d) (ow loc seen rs q t n log) =
      ow loc seen rs q t (Suc n)
        (log @ [(seen n, Inl (OnCheckpoint tok (slice_len d) (took loc n) (Some ErrFenced))),
                (seen n, Inl (OnFenced tok OperationCheckpoint))])"
    and "ow_op (\<lambda>env s. client_forget memory (obs_cfg h) env s tok) (ow loc seen rs q t n log) =
      ow loc seen rs q t (Suc n)
        (log @ [(seen n, Inl (OnForget tok (took loc n) (Some ErrFenced))),
                (seen n, Inl (OnFenced tok OperationForget))])"
  using assms
  by (cases "map_of rs (tk_work tok)"; auto simp: run_defs simp del: observed_snoc)+

lemma run_sweep:
  assumes "0 < so_retention opts"
  shows "ow_sweep (Some memory) opts (ow loc seen rs q t n log) =
    Some (ow loc seen (fst (sweep_loop (At t) opts rs)) q t (Suc n)
            (log @ [(seen n, Inr (OnSweep opts (snd (sweep_loop (At t) opts rs)) (took loc n) None))]),
          snd (sweep_loop (At t) opts rs))"
  using assms
  by (cases "sweep_loop (At t) opts rs")
     (simp add: ow_sweep_def vacuum_sweep_def mem_sweep_def ow_after_def ow_env_def call_dur_def took_def)

definition main_log :: "(nat \<Rightarrow> instant \<times> instant) \<Rightarrow> (nat \<Rightarrow> instant) \<Rightarrow> int \<Rightarrow> obs_log" where
  "main_log loc seen x =
     (let A = ow_token loc 0 ''report-2026-06'' ''holder-A'' 1 x;
          B = ow_token loc 5 ''report-2026-06'' ''holder-B'' 2 (x + 31 * second);
          C = ow_token loc 9 ''report-2026-06'' ''holder-C'' 3 (x + 31 * second);
          D = ow_token loc 12 ''report-2026-06'' ''holder-D'' 4 (x + 31 * second);
          R = ow_token loc 15 ''report-2026-07'' ''holder-D'' 5 (x + 31 * second)
      in [(seen 0, Inl (OnAcquire ''report-2026-06'' A (took loc 0) None)),
          (seen 1, Inl (OnCheckpoint A 6 (took loc 1) None)),
          (seen 2, Inl (OnCheckpoint A 6 (took loc 2) None)),
          (seen 3, Inl (OnRenew A (took loc 3) 1 None)),
          (seen 4, Inl (OnReadCheckpoint A (took loc 4) ExitNone '''' 6 None)),
          (seen 5, Inl (OnAcquire ''report-2026-06'' B (took loc 5) None)),
          (seen 6, Inl (OnCheckpoint A 6 (took loc 6) (Some ErrFenced))),
          (seen 6, Inl (OnFenced A OperationCheckpoint)),
          (seen 7, Inl (OnReadCheckpoint B (took loc 7) ExitExpired ''holder-A'' 6 None)),
          (seen 8, Inl (OnRelease B (took loc 8) ExitFinished None)),
          (seen 9, Inl (OnAcquire ''report-2026-06'' C (took loc 9) None)),
          (seen 10, Inl (OnReadCheckpoint C (took loc 10) ExitFinished ''holder-B'' 6 None)),
          (seen 11, Inl (OnRelease C (took loc 11) ExitAbandoned None)),
          (seen 12, Inl (OnAcquire ''report-2026-06'' D (took loc 12) None)),
          (seen 13, Inl (OnForget D (took loc 13) None)),
          (seen 14, Inl (OnForget A (took loc 14) (Some ErrFenced))),
          (seen 14, Inl (OnFenced A OperationForget)),
          (seen 15, Inl (OnAcquire ''report-2026-07'' R (took loc 15) None)),
          (seen 16, Inl (OnRelease R (took loc 16) ExitRetired None)),
          (seen 17, Inr (OnSweep \<lparr>so_retention = hours 1, so_include_expired = False\<rparr> 1 (took loc 17) None))])"

lemma ow_token_sel [simp]:
  "tk_work (ow_token loc n w h k t) = w" "tk_token (ow_token loc n w h k t) = k"
  "tk_holder (ow_token loc n w h k t) = h"
  by (simp_all add: ow_token_def)

lemmas run_simps = obs_lease_ok run_acquire run_holder run_fenced advance_def time_add_def held_by_def literal_def
  declarable_iff

lemma run_clean:
  "\<exists>r. clean_lifecycle (obs_cfg ''holder-A'') ''report-2026-06'' (ow loc seen [] 0 x 0 []) =
     Some (ow loc seen [(''report-2026-06'', r)] 1 x 5 (take 5 (main_log loc seen x)),
           ow_token loc 0 ''report-2026-06'' ''holder-A'' 1 x) \<and>
     row_holder r = ''holder-A'' \<and> row_token r = 1 \<and> row_expires r = At (x + 30 * second) \<and> row_exit r = ExitNone \<and>
     slice_len (row_checkpoint r) = 6"
  by (simp add: clean_lifecycle_def run_simps main_log_def Let_def eval_nat_numeral del: observed_snoc)

lemma run_takeover:
  assumes "row_holder r = ''holder-A''" "row_token r = 1" "row_expires r = At (x + 30 * second)" "row_exit r = ExitNone"
    "slice_len (row_checkpoint r) = 6"
  shows "\<exists>r'. fencing_scenario (obs_cfg ''holder-A'') (obs_cfg ''holder-B'') ''report-2026-06''
        (ow_token loc 0 ''report-2026-06'' ''holder-A'' 1 x)
        (ow loc seen [(''report-2026-06'', r)] 1 x 5 (take 5 (main_log loc seen x))) =
     Some (ow loc seen [(''report-2026-06'', r')] 2 (x + 31 * second) 9 (take 10 (main_log loc seen x))) \<and>
     row_holder r' = ''holder-B'' \<and> row_expires r' = At (x + 31 * second - millisecond) \<and>
     row_exit r' = ExitFinished \<and> slice_len (row_checkpoint r') = 6"
  using assms
  by (simp add: fencing_scenario_def run_simps main_log_def Let_def eval_nat_numeral del: observed_snoc)

lemma run_abandoned:
  assumes "row_holder r = ''holder-B''" "row_expires r = At (x + 31 * second - millisecond)" "row_exit r = ExitFinished"
    "slice_len (row_checkpoint r) = 6"
  shows "\<exists>r'. abandoned_run ''report-2026-06''
        (ow loc seen [(''report-2026-06'', r)] 2 (x + 31 * second) 9 (take 10 (main_log loc seen x))) =
     Some (ow loc seen [(''report-2026-06'', r')] 3 (x + 31 * second) 12 (take 13 (main_log loc seen x))) \<and>
     row_expires r' = At (x + 31 * second - millisecond)"
  using assms
  by (simp add: abandoned_run_def run_simps main_log_def Let_def eval_nat_numeral del: observed_snoc)

lemma run_retention:
  assumes "row_expires r = At (x + 31 * second - millisecond)"
  shows "retention_scenario (obs_cfg ''holder-A'') ''report-2026-06''
        (ow_token loc 0 ''report-2026-06'' ''holder-A'' 1 x)
        (ow loc seen [(''report-2026-06'', r)] 3 (x + 31 * second) 12 (take 13 (main_log loc seen x))) =
     Some (ow loc seen [] 5 (x + 31 * second + hours 2) 18 (main_log loc seen x), 1)"
  using assms
  by (simp add: retention_scenario_def run_simps NewVacuum_def run_sweep time_sub_def sat64_def time_simps
      main_log_def Let_def eval_nat_numeral del: observed_snoc)

lemma main_run:
  "observability_main start loc seen =
     (let m = observed (main_log loc seen (ns start)) in Some (m, 1, metrics_report m))"
proof -
  obtain x where start: "start = At x" by (cases start)
  obtain r1 where r1: "clean_lifecycle (obs_cfg ''holder-A'') ''report-2026-06'' (ow loc seen [] 0 x 0 []) =
     Some (ow loc seen [(''report-2026-06'', r1)] 1 x 5 (take 5 (main_log loc seen x)),
           ow_token loc 0 ''report-2026-06'' ''holder-A'' 1 x)"
    "row_holder r1 = ''holder-A''" "row_token r1 = 1" "row_expires r1 = At (x + 30 * second)" "row_exit r1 = ExitNone"
    "slice_len (row_checkpoint r1) = 6"
    using run_clean by blast
  from run_takeover [OF r1(2-6)] obtain r2 where r2: "fencing_scenario (obs_cfg ''holder-A'') (obs_cfg ''holder-B'')
        ''report-2026-06'' (ow_token loc 0 ''report-2026-06'' ''holder-A'' 1 x)
        (ow loc seen [(''report-2026-06'', r1)] 1 x 5 (take 5 (main_log loc seen x))) =
     Some (ow loc seen [(''report-2026-06'', r2)] 2 (x + 31 * second) 9 (take 10 (main_log loc seen x)))"
    "row_holder r2 = ''holder-B''" "row_expires r2 = At (x + 31 * second - millisecond)"
    "row_exit r2 = ExitFinished" "slice_len (row_checkpoint r2) = 6"
    by blast
  from run_abandoned [OF r2(2-5)] obtain r3 where r3: "abandoned_run ''report-2026-06''
        (ow loc seen [(''report-2026-06'', r2)] 2 (x + 31 * second) 9 (take 10 (main_log loc seen x))) =
     Some (ow loc seen [(''report-2026-06'', r3)] 3 (x + 31 * second) 12 (take 13 (main_log loc seen x)))"
    "row_expires r3 = At (x + 31 * second - millisecond)"
    by blast
  have init: "\<lparr>ow_store = memory_new, ow_now = At x, ow_local = loc, ow_seen = seen, ow_n = 0,
      ow_metrics = newMetricsObserver\<rparr> = ow loc seen [] 0 x 0 []"
    by (simp add: memory_new_def)
  show ?thesis
    unfolding observability_main_def start init Let_def
    using r1(1) r2(1) r3(1) run_retention [OF r3(2), of loc seen]
    by (simp add: obs_lease_ok del: observed_snoc)
qed

text \<open>
  C36. The program reports every behaviour it stages. Whatever the readings of its clocks, \<open>main\<close> runs
  to its end without a panic, sweeps one row, and reports: five acquisitions; three checkpoints of which
  one failed; one renewal; three releases, one of each mode; three reads, after nothing, a finished and
  an expired holder; two calls of \<open>Forget\<close> of which one failed; two fenced operations; no retry; one
  sweep of one row. The holdings of B, C and the retired work ID are measured between their callbacks;
  A's, which was fenced, and D's, which forgot its row, stay open.
\<close>

theorem observability_run:
  "\<exists>m. observability_main start loc seen = Some (m, 1, metrics_report m) \<and>
     map (\<lambda>q. (counter (mo_calls m) q, counter (mo_errors m) q))
       [''acquire'', ''checkpoint'', ''renew'', ''release'', ''read_checkpoint'', ''forget''] =
       [(5, 0), (3, 1), (1, 0), (3, 0), (3, 0), (2, 1)] \<and>
     map (counter (mo_releases m)) [''finished'', ''abandoned'', ''retired''] = [1, 1, 1] \<and>
     map (counter (mo_reads m)) [''none'', ''finished'', ''abandoned'', ''retired'', ''expired''] = [1, 1, 0, 0, 1] \<and>
     mo_fenced m = 2 \<and> mo_retries m = 0 \<and> mo_sweeps m = 1 \<and> mo_swept m = 1 \<and> mo_sweep_errors m = 0 \<and>
     mo_holds m = [time_sub (seen 8) (seen 5), time_sub (seen 11) (seen 9), time_sub (seen 16) (seen 15)] \<and>
     dom (mo_held_since m) = {1, 4}"
proof (intro exI conjI)
  let ?log = "main_log loc seen (ns start)"
  let ?m = "observed ?log"
  note log = main_log_def lease_events_def sweep_events_def Let_def total_def wrap64_def
  show "observability_main start loc seen = Some (?m, 1, metrics_report ?m)" by (simp add: main_run Let_def)
  show "map (\<lambda>q. (counter (mo_calls ?m) q, counter (mo_errors ?m) q))
       [''acquire'', ''checkpoint'', ''renew'', ''release'', ''read_checkpoint'', ''forget''] =
       [(5, 0), (3, 1), (1, 0), (3, 0), (3, 0), (2, 1)]"
    by (simp add: observed_calls log)
  show "map (counter (mo_releases ?m)) [''finished'', ''abandoned'', ''retired''] = [1, 1, 1]"
    by (simp add: observed_labels log)
  show "map (counter (mo_reads ?m)) [''none'', ''finished'', ''abandoned'', ''retired'', ''expired''] = [1, 1, 0, 0, 1]"
    by (simp add: observed_labels log)
  show "mo_fenced ?m = 2" "mo_retries ?m = 0"
    by (simp_all add: observed_labels log)
  show "mo_sweeps ?m = 1" "mo_swept ?m = 1" "mo_sweep_errors ?m = 0"
    by (simp_all add: observed_sweeps log)
  have "mo_holds ?m = [time_sub (seen 8) (seen 5), time_sub (seen 11) (seen 9), time_sub (seen 16) (seen 15)] \<and>
      dom (mo_held_since ?m) = {1, 4}"
    by (simp add: main_log_def Let_def observed_def holding_step newMetricsObserver_def del: observe_any.simps) auto
  then show "mo_holds ?m = [time_sub (seen 8) (seen 5), time_sub (seen 11) (seen 9), time_sub (seen 16) (seen 15)]"
    "dom (mo_held_since ?m) = {1, 4}" by simp_all
qed

end
