(* ===== verification/Scheduler.thy ===== *)
theory Scheduler
  imports Leader Renewal
begin

text \<open>
  \<open>examples/cluster-singleton-scheduler/main.go\<close>: a scheduler that runs on one elected node.

  A cycle of the scheduler, the \<open>select\<close> between a timer and its context, is a function on the world
  that returns the context's error if that branch is taken. \<open>stalledRenew\<close> wraps a backend: its
  \<open>Renew\<close> returns only when its context has ended, with \<open>fin clk\<close>, the error the context of that call
  ended with. \<open>runNode\<close> may loop for ever while a peer holds the lease: it is a partial function.
  Log lines are left out.
\<close>

section \<open>Cycles\<close>

fun runScheduler :: "('w \<Rightarrow> 'w \<times> ctx_err) \<Rightarrow> nat \<Rightarrow> 'w \<Rightarrow> 'w \<times> gerror option" where
  "runScheduler cycle 0 w = (w, None)"
| "runScheduler cycle (Suc n) w =
     (let (w, err) = cycle w
      in case err of Some e \<Rightarrow> (w, Some e) | None \<Rightarrow> runScheduler cycle n w)"

section \<open>A stalled backend\<close>

definition stalledRenew :: "(clock \<Rightarrow> gerror) \<Rightarrow> 's backend \<Rightarrow> 's backend" where
  "stalledRenew fin b = b\<lparr>b_renew := (\<lambda>c clk s rec ttl. (s, Some (case c of Some e \<Rightarrow> e | None \<Rightarrow> fin clk)))\<rparr>"

lemma stalledRenew_renew [simp]:
  "b_renew (stalledRenew fin b) c clk s rec ttl = (s, Some (case c of Some e \<Rightarrow> e | None \<Rightarrow> fin clk))"
  by (simp add: stalledRenew_def)

text \<open>The actions while the leader works: it does not stop renewal and its own context stays live.\<close>

fun while_leading :: "raction \<Rightarrow> bool" where
  "while_leading CallStop = False"
| "while_leading (CancelParent e) = False"
| "while_leading (Serve c clk) = (\<forall>e. c = Some e \<longrightarrow> ctx_error e)"
| "while_leading act = True"

definition stalled_inv :: "token \<Rightarrow> 's renewal \<Rightarrow> bool" where
  "stalled_inv tok r \<longleftrightarrow>
     rn_window r = tk_deadline tok \<and> rn_published r = tk_deadline tok \<and> \<not> rn_stop r \<and> rn_parent r = None \<and>
     (\<forall>a base start err d. rn_phase r = Calling a base start (Some (err, d)) \<longrightarrow> (\<exists>e. err = Some e \<and> ctx_error e)) \<and>
     (if rn_phase r = Exited then rn_cause r = Some ErrLeaseWindowExhausted \<and> tk_deadline tok \<le> rn_now r
      else rn_cause r = None)"

lemma stalled_inv_step:
  assumes "stalled_inv tok r" and "renew_step (stalledRenew fin b) cfg rcfg tok act r = Some r'"
    and "while_leading act" and "\<And>clk. ctx_error (fin clk)"
  shows "stalled_inv tok r'"
  using assms(2)
proof (cases rule: renew_stepE)
  case (serve c clk a base start s' err)
  then show ?thesis
    using assms(1,3,4) by (cases c) (auto simp: stalled_inv_def)
next
  case (receive a base start err d)
  then obtain e where "err = Some e" "ctx_error e" using assms(1) by (auto simp: stalled_inv_def)
  then show ?thesis
    using receive assms(1) by (auto simp: stalled_inv_def renew_helpers ctx_error_def)
qed (use assms(1,3) in \<open>auto simp: stalled_inv_def renew_helpers intro: instant_le_add\<close>)

lemma stalled_run:
  assumes "\<And>clk. ctx_error (fin clk)"
  shows "stalled_inv tok r \<Longrightarrow> list_all while_leading acts \<Longrightarrow>
    renew_run (stalledRenew fin b) cfg rcfg tok acts r = Some r' \<Longrightarrow> stalled_inv tok r'"
  by (induction acts arbitrary: r) (auto split: option.splits intro: stalled_inv_step assms)

section \<open>The retry loop of a node\<close>

text \<open>Elections on a world with the node's count of the terms it has led.\<close>

definition counted_lease :: "'w lease \<Rightarrow> ('w \<times> nat) lease" where
  "counted_lease L =
     \<lparr>l_acquire = (\<lambda>c (w, n) i os. let (w', x) = l_acquire L c w i os in ((w', n), x)),
      l_checkpoint = (\<lambda>c (w, n) k st. let (w', e) = l_checkpoint L c w k st in ((w', n), e)),
      l_release = (\<lambda>c (w, n) k m. let (w', x) = l_release L c w k m in ((w', n), x)),
      l_read_checkpoint = (\<lambda>c (w, n) k. let (w', x) = l_read_checkpoint L c w k in ((w', n), x)),
      l_start_renewal = (\<lambda>c (w, n) k os. (l_start_renewal L c w k os, n)),
      l_stop_renewal = (\<lambda>(w, n). (l_stop_renewal L w, n)),
      l_cause = (\<lambda>(w, n). l_cause L w)\<rparr>"

definition counted_env :: "'w leader_env \<Rightarrow> ('w \<times> nat) leader_env" where
  "counted_env env =
     \<lparr>le_sleep = (\<lambda>d (w, n). (le_sleep env d w, n)), le_ctx_err = (\<lambda>(w, n). le_ctx_err env w),
      le_renew_err = (\<lambda>(w, n). le_renew_err env w), le_draw = (\<lambda>(w, n). le_draw env w)\<rparr>"

text \<open>The configuration and the function of a term.\<close>

definition node_config :: "'w elect_config" where
  "node_config = \<lparr>ec_acquire = [], ec_renewal = [], ec_idle = 0, ec_backoff = 300 * millisecond, ec_cleanup = 0,
     ec_on_elected = None, ec_on_lost = None, ec_on_relinquished = None\<rparr>"

definition node_term :: "('w \<Rightarrow> 'w \<times> ctx_err) \<Rightarrow> 'w \<times> nat \<Rightarrow> ('w \<times> nat) \<times> fn_outcome" where
  "node_term cycle = (\<lambda>(w, n). let n = n + 1; (w, err) = runScheduler cycle 1 w in ((w, n), FnReturned err))"

definition node_elect ::
  "'w leader_env \<Rightarrow> 'w lease \<Rightarrow> ('w \<Rightarrow> 'w \<times> ctx_err) \<Rightarrow> 'w \<times> nat \<Rightarrow> ('w \<times> nat) \<times> run_result" where
  "node_elect env L cycle wn =
     elect (counted_env env) wn (Some (counted_lease L)) ''scheduler:primary'' node_config (Some (node_term cycle))"

definition stops_node :: "'w leader_env \<Rightarrow> ('w \<times> nat) \<times> run_result \<Rightarrow> bool" where
  "stops_node env = (\<lambda>((w, n), res). (case res of Done err \<Rightarrow> err_matches err ErrFenced | Propagated \<Rightarrow> False) \<or>
     le_ctx_err env w \<noteq> None)"

text \<open>\<open>prev\<close> is the outcome of the last election, for the statements below.\<close>

partial_function (option) runNode ::
  "'w leader_env \<Rightarrow> 'w lease \<Rightarrow> ('w \<Rightarrow> 'w \<times> ctx_err) \<Rightarrow> nat \<Rightarrow> 'w \<times> nat \<Rightarrow> run_result option \<Rightarrow>
   (('w \<times> nat) \<times> run_result option) option" where
  "runNode env L cycle maxTerms wn prev =
     (if snd wn < maxTerms then
        (let out = node_elect env L cycle wn
         in if stops_node env out then Some (fst out, Some (snd out))
            else runNode env L cycle maxTerms (fst out) (Some (snd out)))
      else Some (wn, prev))"

lemma node_elect_count:
  assumes "node_elect env L cycle (w, n) = ((w', n'), res)"
  shows "n' = n \<or> n' = Suc n"
    and "snd (l_acquire L CallerCtx w ''scheduler:primary'' []) = Inr tok \<Longrightarrow> n' = Suc n"
  using assms
  by (auto simp: node_elect_def elect_def elect_pace_def elect_backoff_def elect_finish_def counted_lease_def counted_env_def
      node_config_def node_term_def callback_def Let_def split: prod.splits sum.splits if_splits option.splits)

lemma runNode_bounded:
  assumes "runNode env L cycle maxTerms wn prev = Some out" and "snd wn \<le> maxTerms"
  shows "snd (fst out) \<le> maxTerms \<and>
    (snd (fst out) < maxTerms \<longrightarrow> (\<exists>res. snd out = Some res \<and> stops_node env (fst out, res)))"
proof -
  have "snd wn \<le> maxTerms \<longrightarrow> snd (fst out) \<le> maxTerms \<and>
    (snd (fst out) < maxTerms \<longrightarrow> (\<exists>res. snd out = Some res \<and> stops_node env (fst out, res)))"
  proof (induction rule: runNode.raw_induct
      [where P = "\<lambda>env L cycle maxTerms wn prev out. snd wn \<le> maxTerms \<longrightarrow> snd (fst out) \<le> maxTerms \<and>
         (snd (fst out) < maxTerms \<longrightarrow> (\<exists>res. snd out = Some res \<and> stops_node env (fst out, res)))", OF _ assms(1)])
    case (1 f env L cycle maxTerms wn prev out)
    obtain w n w' n' res where w: "wn = (w, n)" "node_elect env L cycle (w, n) = ((w', n'), res)"
      by (metis surj_pair)
    show ?case
    proof (cases "n < maxTerms \<and> \<not> stops_node env ((w', n'), res)")
      case True
      then have "f env L cycle maxTerms (w', n') (Some res) = Some out"
        using 1(2) w by simp
      then have "n' \<le> maxTerms \<longrightarrow> snd (fst out) \<le> maxTerms \<and>
          (snd (fst out) < maxTerms \<longrightarrow> (\<exists>res. snd out = Some res \<and> stops_node env (fst out, res)))"
        using 1(1) by fastforce
      then show ?thesis using node_elect_count(1) [OF w(2)] True by auto
    next
      case False
      then show ?thesis using 1(2) w node_elect_count(1) [OF w(2)] by (auto split: if_splits)
    qed
  qed
  then show ?thesis using assms(2) by blast
qed

lemma runNode_returns:
  assumes "\<And>w. \<exists>tok. snd (l_acquire L CallerCtx w ''scheduler:primary'' []) = Inr tok"
  shows "\<exists>out. runNode env L cycle maxTerms wn prev = Some out"
proof (induction "maxTerms - snd wn" arbitrary: wn prev rule: less_induct)
  case less
  obtain w n w' n' res where w: "wn = (w, n)" "node_elect env L cycle (w, n) = ((w', n'), res)"
    by (metis surj_pair)
  obtain tok where "snd (l_acquire L CallerCtx w ''scheduler:primary'' []) = Inr tok" using assms by blast
  then have n': "n' = Suc n" by (rule node_elect_count(2) [OF w(2)])
  show ?case
  proof (cases "n < maxTerms \<and> \<not> stops_node env ((w', n'), res)")
    case True
    then have "\<exists>out. runNode env L cycle maxTerms (w', n') (Some res) = Some out"
      using less [of "(w', n')"] w(1) n' by auto
    then show ?thesis using True w by (subst runNode.simps) simp
  next
    case False
    then show ?thesis using w by (subst runNode.simps) auto
  qed
qed

section \<open>Properties\<close>

text \<open>
  C35. A leader whose renewals stall stops in time. While it works, whatever the interleaving with other
  clients: its lease window stays the one \<open>Acquire\<close> gave it, as no renewal ever succeeds; its renewal
  context has no cause until the goroutine exits, which happens only once that window has closed, and
  then the cause is \<open>ErrLeaseWindowExhausted\<close>, never fencing. \<open>Elect\<close> then returns its function's error
  without a call of \<open>Release\<close>.
\<close>

theorem stalled_leader_loses_window:
  assumes "\<And>clk. ctx_error (fin clk)" and "list_all while_leading acts"
    and "renew_run (stalledRenew fin b) cfg rcfg tok acts (start_renewal cfg rcfg tok None now s) = Some r"
  shows "rn_window r = tk_deadline tok \<and>
    (if rn_phase r = Exited
     then rn_cause r = Some ErrLeaseWindowExhausted \<and> tk_deadline tok \<le> rn_now r \<and>
       (\<forall>env L ecfg (w :: 'w) e. ctx_error e \<longrightarrow>
          elect_finish env L ecfg w tok (Some e) (rn_cause r) = (elect_backoff env ecfg w, Some e))
     else lease_window r = (tk_deadline tok, True))"
proof -
  have "stalled_inv tok (start_renewal cfg rcfg tok None now s)"
    by (simp add: stalled_inv_def start_renewal_def initialWindow_def)
  from stalled_run [OF assms(1) this assms(2,3)] have "stalled_inv tok r" .
  then show ?thesis by (auto simp: stalled_inv_def lease_window_def elect_finish_def ctx_error_def)
qed

text \<open>A renewal of a second: the first call stalls, and the window closes on it.\<close>

definition ex_stalled :: "raction list" where
  "ex_stalled = [Pass 600000, SeeTick, CheckWindow 0 0, Pass 600000, SeeWindow]"

theorem stalled_leader_loses_window_witness:
  "\<exists>r. renew_run (stalledRenew (\<lambda>clk. CtxDeadlineExceeded) memory) (ex_cfg ''a'') (renewal_defaults (ex_cfg ''a''))
      (ex_token ''a'' 1 1000005) ex_stalled
      (start_renewal (ex_cfg ''a'') (renewal_defaults (ex_cfg ''a'')) (ex_token ''a'' 1 1000005) None (At 5)
         (ex_mem (ex_row ''a'' 1 1000005))) = Some r \<and>
    rn_phase r = Exited \<and> rn_cause r = Some ErrLeaseWindowExhausted"
proof -
  obtain r where run: "renew_run (stalledRenew (\<lambda>clk. CtxDeadlineExceeded) memory) (ex_cfg ''a'')
      (renewal_defaults (ex_cfg ''a'')) (ex_token ''a'' 1 1000005) ex_stalled
      (start_renewal (ex_cfg ''a'') (renewal_defaults (ex_cfg ''a'')) (ex_token ''a'' 1 1000005) None (At 5)
         (ex_mem (ex_row ''a'' 1 1000005))) = Some r"
    "rn_phase r = Exited"
    by (simp add: ex_stalled_def ex_renewal_simps cancel_cause_def)
  have "rn_cause r = Some ErrLeaseWindowExhausted"
    using stalled_leader_loses_window [OF _ _ run(1), where ?'w = unit] run(2)
    by (simp add: ex_stalled_def ctx_error_def)
  then show ?thesis using run by blast
qed

text \<open>
  A node leads at most its terms. When the retry loop ends, the node has led at most \<open>maxTerms\<close>
  terms, and fewer only if its last election was fenced or its context had ended; while it
  can always acquire the lease, the loop ends.
\<close>

theorem node_leads_its_terms:
  shows "(runNode env L cycle maxTerms (w, 0) None = Some ((w', n), prev) \<longrightarrow>
      n \<le> maxTerms \<and> (n < maxTerms \<longrightarrow> (\<exists>res. prev = Some res \<and> stops_node env ((w', n), res)))) \<and>
    ((\<forall>w. \<exists>tok. snd (l_acquire L CallerCtx w ''scheduler:primary'' []) = Inr tok) \<longrightarrow>
      (\<exists>out. runNode env L cycle maxTerms (w, 0) None = Some out))"
  using runNode_bounded [of env L cycle maxTerms "(w, 0)" None "((w', n), prev)"]
    runNode_returns [of L env cycle maxTerms "(w, 0)" None] by auto

text \<open>A lease nobody else wants.\<close>

definition ex_free_lease :: "unit lease" where
  "ex_free_lease =
     \<lparr>l_acquire = (\<lambda>c w i os. (w, Inr zero_token)), l_checkpoint = (\<lambda>c w k st. (w, None)),
      l_release = (\<lambda>c w k m. (w, None)), l_read_checkpoint = (\<lambda>c w k. (w, Inr zero_checkpoint)),
      l_start_renewal = (\<lambda>c w k os. w), l_stop_renewal = (\<lambda>w. w), l_cause = (\<lambda>w. None)\<rparr>"

definition ex_calm :: "unit leader_env" where
  "ex_calm = \<lparr>le_sleep = (\<lambda>d w. w), le_ctx_err = (\<lambda>w. None), le_renew_err = (\<lambda>w. None), le_draw = (\<lambda>w. 0)\<rparr>"

definition ex_cycle :: "unit \<Rightarrow> unit \<times> ctx_err" where "ex_cycle w = (w, None)"

lemma ex_node_elect:
  "node_elect ex_calm ex_free_lease ex_cycle ((), n) = (((), Suc n), Done None)"
  by (simp add: node_elect_def elect_def elect_backoff_def elect_finish_def counted_lease_def counted_env_def
      node_config_def node_term_def work_mode_def ex_free_lease_def ex_calm_def ex_cycle_def)

lemma ex_runNode:
  "runNode ex_calm ex_free_lease ex_cycle 2 ((), 0) None = Some (((), 2), Some (Done None))"
proof -
  have go: "\<not> stops_node ex_calm (((), n), Done None)" for n
    by (simp add: stops_node_def ex_calm_def)
  have lead: "runNode ex_calm ex_free_lease ex_cycle 2 ((), n) p =
      runNode ex_calm ex_free_lease ex_cycle 2 ((), Suc n) (Some (Done None))" if "n < 2" for n p
    using that by (subst runNode.simps) (simp add: ex_node_elect go)
  have stop: "runNode ex_calm ex_free_lease ex_cycle 2 ((), Suc 1) p = Some (((), 2), p)" for p
    by (subst runNode.simps) (simp add: numeral_2_eq_2)
  show ?thesis using lead [of 0 None] lead [of 1 "Some (Done None)"] stop by simp
qed

theorem node_leads_its_terms_witness:
  "(\<exists>out. runNode ex_calm ex_free_lease ex_cycle 2 ((), 0) None = Some out) \<and> (2 :: nat) \<le> 2"
  using node_leads_its_terms [of ex_calm ex_free_lease ex_cycle 2 "()" "()" 2 "Some (Done None)"] ex_runNode
  by (simp add: ex_free_lease_def)

end
