(* ===== verification/Partition.thy ===== *)
theory Partition
  imports Pool Codec
begin

text \<open>
  \<open>examples/partition-processor/main.go\<close>: pools of workers that process partitions.

  The work functions of its four scenarios, and the slot error \<open>slotDone\<close> with which a slot leaves its
  pool. The codec is a parameter. The world of scenario 3 has the offsets that its slots share. Sleeps
  and log lines are left out.
\<close>

section \<open>The work functions\<close>

record partition_progress =
  last_offset :: int

definition zero_partition :: partition_progress where
  "zero_partition = \<lparr>last_offset = 0\<rparr>"

definition slotDone :: gerror where
  "slotDone = PermErr True None"

definition idleInterval :: duration where "idleInterval = 100 * millisecond"
definition rerunInterval :: duration where "rerunInterval = 300 * millisecond"

definition partition_pool :: "string list \<Rightarrow> duration \<Rightarrow> pool_config" where
  "partition_pool workIDs backoff = \<lparr>pc_work_ids = workIDs, pc_acquire = [], pc_renewal = [], pc_cleanup = 0,
     pc_idle = idleInterval, pc_rerun = rerunInterval, pc_backoff = backoff\<rparr>"

text \<open>Scenario 1.\<close>

definition distribution_work :: "'w work_fn" where
  "distribution_work w tok cp = (w, Returned None (Some slotDone))"

text \<open>Scenario 2: one batch from the beginning, and one from the offset of the checkpoint.\<close>

definition encode_done :: "partition_progress codec \<Rightarrow> partition_progress \<Rightarrow> work_outcome" where
  "encode_done codec progress =
     (case Encode codec progress of
        Inl err \<Rightarrow> Returned None (Some err)
      | Inr data \<Rightarrow> Returned data (Some slotDone))"

definition batch_work :: "partition_progress codec \<Rightarrow> 'w work_fn" where
  "batch_work codec w tok cp = (w, encode_done codec \<lparr>last_offset = 100\<rparr>)"

definition resume_batch :: "partition_progress codec \<Rightarrow> 'w work_fn" where
  "resume_batch codec w tok cp =
     (case Decode codec zero_partition (cp_state cp) of
        Inl err \<Rightarrow> (w, Returned None (Some err))
      | Inr progress \<Rightarrow>
          (w, encode_done codec (progress\<lparr>last_offset := wrap64 (last_offset progress + 100)\<rparr>)))"

text \<open>Scenario 3: \<open>sel\<close> is the branch its \<open>select\<close> takes.\<close>

definition queue_work ::
  "partition_progress codec \<Rightarrow> ('w \<Rightarrow> 'w \<times> ctx_err) \<Rightarrow> string \<Rightarrow> ('w \<times> (string \<Rightarrow> int option)) work_fn" where
  "queue_work codec sel workID = (\<lambda>(w, offsets) tok cp.
     if workID = ''queue-2'' then ((w, offsets), Returned None (Some slotDone))
     else
       let (w, err) = sel w
       in case err of
            Some e \<Rightarrow> ((w, offsets), Returned None (Some e))
          | None \<Rightarrow>
              let offset = wrap64 ((case offsets workID of None \<Rightarrow> 0 | Some n \<Rightarrow> n) + 50);
                  offsets = offsets(workID \<mapsto> offset)
              in case Encode codec \<lparr>last_offset = offset\<rparr> of
                   Inl err \<Rightarrow> ((w, offsets), Returned None (Some err))
                 | Inr data \<Rightarrow> ((w, offsets), Returned data None))"

text \<open>Scenario 4.\<close>

definition topic_work :: "string \<Rightarrow> 'w work_fn" where
  "topic_work workID w tok cp =
     (if workID = ''topic-legacy'' then (w, Returned None (Some ErrRetire))
      else (w, Returned None (Some slotDone)))"

section \<open>One slot on a quiet backend\<close>

text \<open>
  The lease client on the memory backend, when nobody else calls and no context ends: the \<open>n\<close>-th call
  runs at time \<open>T n\<close> of the backend's clock, between the local readings \<open>loc n\<close>.
\<close>

definition quiet_envs :: "(nat \<Rightarrow> int) \<Rightarrow> (nat \<Rightarrow> instant \<times> instant) \<Rightarrow> nat \<Rightarrow> attempt_env" where
  "quiet_envs T loc n = \<lparr>ae_before = [], ae_call = \<lparr>ce_ctx = None, ce_clk = (\<lambda>k. At (T n)),
     ce_start = fst (loc n), ce_end = snd (loc n)\<rparr>, ae_wait = None\<rparr>"

definition quiet_world ::
  "(nat \<Rightarrow> int) \<Rightarrow> (nat \<Rightarrow> instant \<times> instant) \<Rightarrow> mem_records \<Rightarrow> u64 \<Rightarrow> nat \<Rightarrow> event list \<Rightarrow> memory_backend cworld" where
  "quiet_world T loc rs q n log = \<lparr>cw_store = \<lparr>records = rs, seq = q\<rparr>, cw_envs = quiet_envs T loc, cw_n = n,
     cw_cause = None, cw_log = log\<rparr>"

definition quiet_token :: "client_config \<Rightarrow> (nat \<Rightarrow> int) \<Rightarrow> (nat \<Rightarrow> instant \<times> instant) \<Rightarrow> nat \<Rightarrow> string \<Rightarrow> u64 \<Rightarrow> token" where
  "quiet_token cfg T loc n w k = \<lparr>tk_work = w, tk_holder = cf_holder cfg, tk_token = k, tk_expires = At (T n + cf_ttl cfg),
     tk_deadline = time_add (fst (loc n)) (cf_ttl cfg)\<rparr>"

lemma quiet_token_sel [simp]:
  "tk_work (quiet_token cfg T loc n w k) = w" "tk_holder (quiet_token cfg T loc n w k) = cf_holder cfg"
  "tk_token (quiet_token cfg T loc n w k) = k"
  by (simp_all add: quiet_token_def)

lemmas quiet_defs = quiet_envs_def quiet_world_def cw_op_def Let_def time_simps time_add_def toRecord_def

lemma quiet_acquire:
  assumes "w \<noteq> ''''" and "\<forall>r. map_of rs w = Some r \<longrightarrow> ns (row_expires r) < T n"
  shows "\<exists>log'. l_acquire (client_lease memory cfg) c (quiet_world T loc rs q n log) w [] =
    (quiet_world T loc (AList.update w (successor_row (map_of rs w) (cf_holder cfg) (q + 1) (At (T n + cf_ttl cfg)) (At (T n))) rs)
       (q + 1) (Suc n) log', Inr (quiet_token cfg T loc n w (q + 1)))"
  using assms
  by (cases "map_of rs w")
     (simp_all add: quiet_defs quiet_token_def client_lease_def client_acquire_def default_acquire_config_def
        acquire_attempt_def mem_acquire_def newToken_def successor_row_def)

lemma quiet_holder:
  assumes "map_of rs (tk_work tok) = Some r" and "held_by r (toRecord tok)"
  shows "\<exists>log'. l_read_checkpoint (client_lease memory cfg) c (quiet_world T loc rs q n log) tok =
      (quiet_world T loc rs q (Suc n) log', Inr \<lparr>cp_state = row_checkpoint r, cp_prev_exit = row_prev_exit r,
         cp_prev_holder = row_prev_holder r\<rparr>)"
    and "row_exit r = ExitNone \<Longrightarrow> d \<noteq> [] \<Longrightarrow>
      \<exists>log'. l_checkpoint (client_lease memory cfg) c (quiet_world T loc rs q n log) tok (Some d) =
      (quiet_world T loc (AList.update (tk_work tok) (r\<lparr>row_checkpoint := Some d, row_expires := At (T n + cf_ttl cfg),
         row_updated := At (T n)\<rparr>) rs) q (Suc n) log', None)"
    and "T n < ns (row_expires r) \<Longrightarrow> declarable m \<Longrightarrow>
      \<exists>log'. l_release (client_lease memory cfg) c (quiet_world T loc rs q n log) tok m =
      (quiet_world T loc (AList.update (tk_work tok) (r\<lparr>row_exit := m, row_expires := At (T n - millisecond),
         row_updated := At (T n)\<rparr>) rs) q (Suc n) log', None)"
  using assms
  by (auto simp: quiet_defs client_read_checkpoint_def client_checkpoint_def client_release_def mem_read_checkpoint_def
      mem_checkpoint_def mem_release_def held_by_def op_error_def releaseGracePeriod_def declarable_iff)

lemma quiet_cause [simp]: "cw_cause (quiet_world T loc rs q n log) = None"
  by (simp add: quiet_world_def)

lemma slotDone_facts [simp]:
  "errors_is slotDone ErrFenced \<longleftrightarrow> False" "errors_is slotDone ErrRetire \<longleftrightarrow> False"
  "errors_as_permanent slotDone = Some True"
  by (simp_all add: slotDone_def)

text \<open>
  One run of a slot whose work function returns a state and \<open>slotDone\<close>: the state is stored, and the
  lease released as abandoned.
\<close>

lemma quiet_batch:
  assumes r: "slot_runner (client_lease memory cfg) (partition_pool ids bo) fn = Inr r"
    and "w \<noteq> ''''" and lapsed: "\<forall>r. map_of rs w = Some r \<longrightarrow> ns (row_expires r) < T n"
    and fn: "\<And>w' tok. fn w' tok (inherited (map_of rs w)) = (w', Returned (Some d) (Some slotDone))"
    and "d \<noteq> []" and "T (n + 3) < T (n + 2) + cf_ttl cfg"
  shows "\<exists>rs' log' row. runner_run r (quiet_world T loc rs q n log) w =
      (quiet_world T loc rs' (q + 1) (n + 4) log', Done (Some slotDone)) \<and>
    map_of rs' = (map_of rs)(w \<mapsto> row) \<and> row_checkpoint row = Some d \<and> row_exit row = ExitAbandoned \<and>
    row_holder row = cf_holder cfg \<and> row_expires row = At (T (n + 3) - millisecond)"
proof -
  let ?L = "client_lease memory cfg"
  let ?tok = "quiet_token cfg T loc n w (q + 1)"
  let ?r1 = "successor_row (map_of rs w) (cf_holder cfg) (q + 1) (At (T n + cf_ttl cfg)) (At (T n))"
  let ?r2 = "?r1\<lparr>row_checkpoint := Some d, row_expires := At (T (n + 2) + cf_ttl cfg), row_updated := At (T (n + 2))\<rparr>"
  let ?rs1 = "AList.update w ?r1 rs"
  let ?rs2 = "AList.update w ?r2 ?rs1"
  have fields: "ru_lease r = ?L" "ru_fn r = fn" "ru_acquire r = []"
    using r by (auto simp: slot_runner_def NewRunner_def partition_pool_def)
  obtain l1 where acq: "l_acquire ?L CallerCtx (quiet_world T loc rs q n log) w [] =
      (quiet_world T loc ?rs1 (q + 1) (Suc n) l1, Inr ?tok)"
    using quiet_acquire [of w rs T n cfg CallerCtx loc q log] assms(2) lapsed by blast
  have h1: "map_of ?rs1 (tk_work ?tok) = Some ?r1" "held_by ?r1 (toRecord ?tok)"
    by (simp_all add: held_by_def update_conv')
  have inh: "\<lparr>cp_state = row_checkpoint ?r1, cp_prev_exit = row_prev_exit ?r1, cp_prev_holder = row_prev_holder ?r1\<rparr> =
      inherited (map_of rs w)"
    by (cases "map_of rs w") (simp_all add: inherited_def successor_row_def zero_checkpoint_def)
  have n: "Suc (Suc n) = n + 2" "Suc (n + 2) = n + 3" "Suc (n + 3) = n + 4" by simp_all
  obtain l2 where rd: "l_read_checkpoint ?L CallerCtx (quiet_world T loc ?rs1 (q + 1) (Suc n) l1) ?tok =
      (quiet_world T loc ?rs1 (q + 1) (n + 2) l2, Inr (inherited (map_of rs w)))"
    using quiet_holder(1) [OF h1, of cfg CallerCtx T loc "q + 1" "Suc n" l1] unfolding inh n by blast
  obtain l3 where cp: "l_checkpoint ?L (CleanupCtx (ru_cleanup r)) (quiet_world T loc ?rs1 (q + 1) (n + 2) l2) ?tok (Some d) =
      (quiet_world T loc ?rs2 (q + 1) (n + 3) l3, None)"
    using quiet_holder(2) [OF h1, of d cfg "CleanupCtx (ru_cleanup r)" T loc "q + 1" "n + 2" l2] assms(5)
    unfolding n by (simp only: quiet_token_sel successor_row_sel) blast
  have h2: "map_of ?rs2 (tk_work ?tok) = Some ?r2" "held_by ?r2 (toRecord ?tok)"
    by (simp_all add: held_by_def update_conv')
  obtain l4 where rel: "l_release ?L (CleanupCtx (ru_cleanup r)) (quiet_world T loc ?rs2 (q + 1) (n + 3) l3) ?tok ExitAbandoned =
      (quiet_world T loc (AList.update w (?r2\<lparr>row_exit := ExitAbandoned, row_expires := At (T (n + 3) - millisecond),
         row_updated := At (T (n + 3))\<rparr>) ?rs2) (q + 1) (n + 4) l4, None)"
  proof -
    have "T (n + 3) < ns (row_expires ?r2)" "declarable ExitAbandoned"
      using assms(6) by (simp_all add: declarable_iff)
    from quiet_holder(3) [OF h2, where T = T and n = "n + 3", OF this,
        of cfg "CleanupCtx (ru_cleanup r)" loc "q + 1" l3] that show ?thesis
      unfolding n by (simp only: quiet_token_sel) blast
  qed
  have "runner_run r (quiet_world T loc rs q n log) w =
      (quiet_world T loc (AList.update w (?r2\<lparr>row_exit := ExitAbandoned, row_expires := At (T (n + 3) - millisecond),
         row_updated := At (T (n + 3))\<rparr>) ?rs2) (q + 1) (n + 4) l4, Done (Some slotDone))"
    using acq rd cp rel fn
    by (simp add: runner_run_def run_finish_def run_release_def fields work_mode_def del: client_lease_sel(1-3))
  moreover have "map_of (AList.update w (?r2\<lparr>row_exit := ExitAbandoned, row_expires := At (T (n + 3) - millisecond),
         row_updated := At (T (n + 3))\<rparr>) ?rs2) =
       (map_of rs)(w \<mapsto> ?r2\<lparr>row_exit := ExitAbandoned, row_expires := At (T (n + 3) - millisecond),
         row_updated := At (T (n + 3))\<rparr>)"
    by (simp add: update_conv')
  ultimately show ?thesis
    by - (intro exI conjI, assumption, assumption, simp_all)
qed

section \<open>Properties\<close>

text \<open>
  What the slots rely on of \<open>encoding/json\<close>: an offset is encoded into something, and decoded back.
\<close>

definition json_offset_ok :: "partition_progress codec \<Rightarrow> bool" where
  "json_offset_ok codec \<longleftrightarrow> (\<forall>p. is_int64 (last_offset p) \<longrightarrow> (\<exists>d. d \<noteq> [] \<and> co_marshal codec p = Inr (Some d) \<and>
     co_unmarshal codec (Some d) zero_partition = (p, None)))"

lemma json_offset:
  assumes "json_offset_ok codec" and "is_int64 (last_offset p)"
  obtains d where "d \<noteq> []" "Encode codec p = Inr (Some d)" "Decode codec zero_partition (Some d) = Inr p"
proof -
  obtain d where "d \<noteq> []" "co_marshal codec p = Inr (Some d)" "co_unmarshal codec (Some d) zero_partition = (p, None)"
    using assms unfolding json_offset_ok_def by blast
  then show ?thesis by (intro that [of d]) (simp_all add: Encode_def Decode_def)
qed

text \<open>
  C34. A second pool resumes where the first one stopped. On the memory backend, with nobody else calling,
  a slot of pool A that owns a new partition and then, at any later time, a slot of pool B end as dead
  slots do, with \<open>slotDone\<close>; the partition is then released as abandoned by B, so nobody has to wait for
  its time to live, and the next holder reads the offset after both batches.
\<close>

theorem partition_resumes:
  assumes "slot_runner (client_lease memory cfgA) (partition_pool ids bo) (batch_work codec) = Inr rA"
    and "slot_runner (client_lease memory cfgB) (partition_pool ids bo') (resume_batch codec) = Inr rB"
    and "json_offset_ok codec" and "w \<noteq> ''''" and "mono T"
    and "T 3 < T 2 + cf_ttl cfgA" and "T 7 < T 6 + cf_ttl cfgB"
  shows "\<exists>wA wB row. runner_run rA (quiet_world T loc [] q 0 []) w = (wA, Done (Some slotDone)) \<and>
    runner_run rB wA w = (wB, Done (Some slotDone)) \<and> mem_view (cw_store wB) w = Some row \<and>
    row_exit row = ExitAbandoned \<and> row_holder row = cf_holder cfgB \<and> ns (row_expires row) < T 7 \<and>
    Decode codec zero_partition (row_checkpoint row) = Inr \<lparr>last_offset = 200\<rparr>"
proof -
  have small: "is_int64 (last_offset \<lparr>last_offset = 100\<rparr>)" "is_int64 (last_offset \<lparr>last_offset = 200\<rparr>)"
    by (simp_all add: is_int64_def)
  obtain d1 where d1: "d1 \<noteq> []" "Encode codec \<lparr>last_offset = 100\<rparr> = Inr (Some d1)"
    "Decode codec zero_partition (Some d1) = Inr \<lparr>last_offset = 100\<rparr>"
    by (rule json_offset [OF assms(3) small(1)])
  obtain d2 where d2: "d2 \<noteq> []" "Encode codec \<lparr>last_offset = 200\<rparr> = Inr (Some d2)"
    "Decode codec zero_partition (Some d2) = Inr \<lparr>last_offset = 200\<rparr>"
    by (rule json_offset [OF assms(3) small(2)])
  have fnA: "batch_work codec w' tok cp = (w', Returned (Some d1) (Some slotDone))" for w' :: "memory_backend cworld" and tok cp
    by (simp add: batch_work_def encode_done_def d1(2))
  obtain rs1 log1 row1 where A: "runner_run rA (quiet_world T loc [] q 0 []) w =
      (quiet_world T loc rs1 (q + 1) 4 log1, Done (Some slotDone))"
    "map_of rs1 = [w \<mapsto> row1]" "row_checkpoint row1 = Some d1" "row_exit row1 = ExitAbandoned"
    "row_expires row1 = At (T 3 - millisecond)"
    using quiet_batch [OF assms(1,4), of "[]" T 0 d1 loc q "[]"] fnA d1(1) assms(6)
    by (auto simp: numeral_2_eq_2)
  have fnB: "resume_batch codec w' tok (inherited (map_of rs1 w)) = (w', Returned (Some d2) (Some slotDone))"
    for w' :: "memory_backend cworld" and tok
    by (simp add: resume_batch_def inherited_def A(2,3) d1(3) encode_done_def wrap64_def d2(2))
  have "T 3 \<le> T 4" using assms(5) by (simp add: monoD)
  then have "\<forall>r. map_of rs1 w = Some r \<longrightarrow> ns (row_expires r) < T 4" by (simp add: A(2,5))
  from quiet_batch [OF assms(2,4), where T = T and n = 4, OF this fnB d2(1), where loc = loc and q = "q + 1" and log = log1] assms(7)
  obtain rs2 log2 row2 where B: "runner_run rB (quiet_world T loc rs1 (q + 1) 4 log1) w =
      (quiet_world T loc rs2 (q + 1 + 1) 8 log2, Done (Some slotDone))"
    "map_of rs2 = (map_of rs1)(w \<mapsto> row2)" "row_checkpoint row2 = Some d2" "row_exit row2 = ExitAbandoned"
    "row_holder row2 = cf_holder cfgB" "row_expires row2 = At (T 7 - millisecond)"
    by auto
  show ?thesis
    using A(1) B d2(3)
    by (intro exI [of _ "quiet_world T loc rs1 (q + 1) 4 log1"] exI [of _ "quiet_world T loc rs2 (q + 1 + 1) 8 log2"]
        exI [of _ row2] conjI) (simp_all add: quiet_world_def mem_view_def)
qed

text \<open>A codec of offsets: a sign and a byte for each unit.\<close>

definition ex_offset_codec :: "partition_progress codec" where
  "ex_offset_codec =
     \<lparr>co_marshal = (\<lambda>p. Inr (Some ((if last_offset p < 0 then 1 else 0) # replicate (nat \<bar>last_offset p\<bar>) 0))),
      co_unmarshal = (\<lambda>d p. (\<lparr>last_offset = (case d of
          Some (sign # units) \<Rightarrow> (if sign = 1 then - int (length units) else int (length units)) | _ \<Rightarrow> 0)\<rparr>, None))\<rparr>"

lemma ex_offset_json: "json_offset_ok ex_offset_codec"
  unfolding json_offset_ok_def
proof (intro allI impI)
  fix p :: partition_progress
  show "\<exists>d. d \<noteq> [] \<and> co_marshal ex_offset_codec p = Inr (Some d) \<and>
      co_unmarshal ex_offset_codec (Some d) zero_partition = (p, None)"
    by (rule exI [of _ "(if last_offset p < 0 then 1 else 0) # replicate (nat \<bar>last_offset p\<bar>) 0"])
       (cases p, simp add: ex_offset_codec_def)
qed

theorem partition_resumes_witness:
  "\<exists>rA rB wA wB row. slot_runner (client_lease memory (ex_cfg ''a'')) (partition_pool [''w''] 0) (batch_work ex_offset_codec) = Inr rA \<and>
     slot_runner (client_lease memory (ex_cfg ''b'')) (partition_pool [''w''] 0) (resume_batch ex_offset_codec) = Inr rB \<and>
     runner_run rA (quiet_world int (\<lambda>n. (At 0, At 1)) [] 0 0 []) ''w'' = (wA, Done (Some slotDone)) \<and>
     runner_run rB wA ''w'' = (wB, Done (Some slotDone)) \<and> mem_view (cw_store wB) ''w'' = Some row \<and>
     Decode ex_offset_codec zero_partition (row_checkpoint row) = Inr \<lparr>last_offset = 200\<rparr>"
proof -
  obtain rA where rA: "slot_runner (client_lease memory (ex_cfg ''a'')) (partition_pool [''w''] 0) (batch_work ex_offset_codec) = Inr rA"
    by (simp add: slot_runner_def NewRunner_def)
  obtain rB where rB: "slot_runner (client_lease memory (ex_cfg ''b'')) (partition_pool [''w''] 0) (resume_batch ex_offset_codec) = Inr rB"
    by (simp add: slot_runner_def NewRunner_def)
  have "mono int" by (simp add: mono_def)
  from partition_resumes [OF rA rB ex_offset_json _ this, of "''w''" "\<lambda>n. (At 0, At 1)" 0] rA rB
  show ?thesis by (auto simp: ex_cfg_def)
qed

end
