(* ===== verification/Exhaustion.thy ===== *)
theory Exhaustion
  imports Renewal
begin

text \<open>
  \<open>examples/renewal-backoff/main.go\<close>, scenario 2: a lease acquired on a memory backend with a fake clock,
  which is then advanced past the lease, while renewal runs on the local clock.
\<close>

definition backoff_worker :: client_config where
  "backoff_worker = \<lparr>cf_ttl = 200 * millisecond, cf_holder = ''worker-C''\<rparr>"

definition backoff_options :: renewal_config where
  "backoff_options = apply_options [WithRenewalBackoff (50 * millisecond) (200 * millisecond) f64_zero]
     (renewal_defaults backoff_worker)"

text \<open>
  The backend's clock reads \<open>x\<close>, and a second more once it is advanced; \<open>start\<close> and \<open>now\<close> are local
  readings, before \<open>Acquire\<close> and at \<open>StartRenewal\<close>.
\<close>

definition acquired_lease :: "int \<Rightarrow> instant \<Rightarrow> memory_backend \<times> token" where
  "acquired_lease x start =
     (case acquire_attempt memory backoff_worker
         \<lparr>ce_ctx = None, ce_clk = (\<lambda>k. At x), ce_start = start, ce_end = start\<rparr> memory_new ''task:work-item'' of
        (s, ev, Inl e) \<Rightarrow> (s, zero_token)
      | (s, ev, Inr tok) \<Rightarrow> (s, tok))"

definition advanced :: "int \<Rightarrow> clock" where
  "advanced x = (\<lambda>k. At (x + second))"

definition exhaustion_start :: "int \<Rightarrow> instant \<Rightarrow> instant \<Rightarrow> memory_backend renewal" where
  "exhaustion_start x start now =
     (let (s, tok) = acquired_lease x start
      in start_renewal backoff_worker backoff_options tok None now s)"

text \<open>
  The actions of the scenario before \<open>stopRenewal\<close>: nobody else calls the backend, whose clock has been
  advanced, and the caller's context stays live.
\<close>

fun exhausting :: "int \<Rightarrow> raction \<Rightarrow> bool" where
  "exhausting x CallStop = False"
| "exhausting x (CancelParent e) = False"
| "exhausting x (Others cs) = (cs = [])"
| "exhausting x (Serve c clk) = (clk = advanced x \<and> (\<forall>e. c = Some e \<longrightarrow> ctx_error e))"
| "exhausting x (Late c clk) = (clk = advanced x)"
| "exhausting x act = True"

definition exhaustion_inv :: "int \<Rightarrow> token \<Rightarrow> memory_backend \<Rightarrow> memory_backend renewal \<Rightarrow> bool" where
  "exhaustion_inv x tok s r \<longleftrightarrow>
     rn_store r = s \<and> rn_window r = tk_deadline tok \<and> \<not> rn_stop r \<and> rn_parent r = None \<and>
     (\<forall>a base start err d. rn_phase r = Calling a base start (Some (err, d)) \<longrightarrow>
        (\<exists>e. err = Some e \<and> (e = ErrLeaseExpired \<or> (\<exists>c. e = Wrap ''memory: Renew'' c \<and> ctx_error c)))) \<and>
     (if rn_phase r = Exited
      then rn_cause r = Some join_expired \<or> rn_cause r = Some ErrLeaseWindowExhausted \<and> tk_deadline tok \<le> rn_now r
      else rn_cause r = None)"

lemma acquired_lease_eq:
  "acquired_lease x start =
     (\<lparr>records = [(''task:work-item'', successor_row None ''worker-C'' 1 (At (x + 200 * millisecond)) (At x))], seq = 1\<rparr>,
      newToken \<lparr>lr_work = ''task:work-item'', lr_holder = ''worker-C'', lr_token = 1, lr_expires = At (x + 200 * millisecond)\<rparr>
        (time_add start (200 * millisecond)))"
  by (simp add: acquired_lease_def acquire_attempt_def mem_acquire_def backoff_worker_def memory_new_def successor_row_def
      time_add_def Let_def)

lemma lapsed_renew:
  assumes "(s, tok) = acquired_lease x start"
  shows "mem_renew c (advanced x) s (toRecord tok) ttl =
    (s, Some (case c of None \<Rightarrow> ErrLeaseExpired | Some e \<Rightarrow> Wrap ''memory: Renew'' e))"
  using assms
  by (cases c) (simp_all add: acquired_lease_eq mem_renew_def advanced_def held_by_def time_simps)

lemma exhaustion_step:
  assumes "exhaustion_inv x tok s r" and "renew_step memory backoff_worker rcfg tok act r = Some r'"
    and "exhausting x act" and "(s, tok) = acquired_lease x start"
  shows "exhaustion_inv x tok s r'"
  using assms(2)
proof (cases rule: renew_stepE)
  case (serve c clk a base st s' err)
  then show ?thesis
    using assms(1,3) lapsed_renew [OF assms(4), of c "cf_ttl backoff_worker"]
    by (cases c) (auto simp: exhaustion_inv_def)
next
  case (late c clk)
  then show ?thesis
    using assms(1,3) lapsed_renew [OF assms(4), of c "cf_ttl backoff_worker"] by (auto simp: exhaustion_inv_def)
next
  case (receive a base st err d)
  then obtain e where "err = Some e" "e = ErrLeaseExpired \<or> (\<exists>c. e = Wrap ''memory: Renew'' c \<and> ctx_error c)"
    using assms(1) by (auto simp: exhaustion_inv_def)
  then show ?thesis
    using receive assms(1) by (auto simp: exhaustion_inv_def renew_helpers ctx_error_def join_expired_def)
qed (use assms(1,3) in \<open>auto simp: exhaustion_inv_def renew_helpers intro: instant_le_add\<close>)

text \<open>
  A lease that lapsed in the backend ends renewal. In scenario 2, whatever the order
  in which timers, calls and results are seen: no renewal succeeds, so the window stays where
  \<open>Acquire\<close> put it; the renewal context is live until the goroutine exits, and its cause then matches
  \<open>ErrLeaseWindowExhausted\<close>, either because the backend reported the lapse, and then it matches
  \<open>ErrLeaseExpired\<close> as well, or because the window had closed.
\<close>

theorem lapsed_lease_exhausts_window:
  assumes "(s, tok) = acquired_lease x start" and "list_all (exhausting x) acts"
    and "renew_run memory backoff_worker backoff_options tok acts (exhaustion_start x start now) = Some r"
  shows "rn_store r = s \<and> rn_window r = time_add start (200 * millisecond) \<and>
    (if rn_phase r = Exited
     then err_matches (rn_cause r) ErrLeaseWindowExhausted \<and>
       (err_matches (rn_cause r) ErrLeaseExpired \<or> rn_window r \<le> rn_now r)
     else rn_cause r = None)"
proof -
  have run: "exhaustion_inv x tok s r0 \<Longrightarrow> list_all (exhausting x) as \<Longrightarrow>
      renew_run memory backoff_worker backoff_options tok as r0 = Some r \<Longrightarrow> exhaustion_inv x tok s r" for as r0
    by (induction as arbitrary: r0) (auto split: option.splits intro: exhaustion_step [OF _ _ _ assms(1)])
  have "exhaustion_inv x tok s (exhaustion_start x start now)"
    using assms(1) by (simp add: exhaustion_inv_def exhaustion_start_def start_renewal_def initialWindow_def flip: assms(1))
  from run [OF this assms(2,3)] show ?thesis
    using assms(1) by (auto simp: exhaustion_inv_def acquired_lease_eq join_expired_def)
qed

definition ex_exhausting :: "raction list" where
  "ex_exhausting = [Pass (100 * millisecond), SeeTick, CheckWindow 0 0, Serve None (advanced 5), Receive]"

theorem lapsed_lease_exhausts_window_witness:
  "\<exists>r. renew_run memory backoff_worker backoff_options (snd (acquired_lease 5 (At 3))) ex_exhausting
      (exhaustion_start 5 (At 3) (At 4)) = Some r \<and> rn_phase r = Exited \<and>
     err_matches (rn_cause r) ErrLeaseWindowExhausted \<and> err_matches (rn_cause r) ErrLeaseExpired"
proof -
  obtain s tok where lease: "(s, tok) = acquired_lease 5 (At 3)" by (metis surj_pair)
  have tok: "snd (acquired_lease 5 (At 3)) = tok" using lease by (metis snd_conv)
  obtain r where run: "renew_run memory backoff_worker backoff_options tok ex_exhausting (exhaustion_start 5 (At 3) (At 4)) = Some r"
    "rn_phase r = Exited" "rn_now r < rn_window r"
    using lease
    by (simp add: acquired_lease_eq exhaustion_start_def start_renewal_def ex_exhausting_def backoff_options_def
        renewal_defaults_def WithRenewalBackoff_def defaultRenewalInterval_def backoff_worker_def initialWindow_def
        mem_renew_def advanced_def held_by_def toRecord_def time_simps time_add_def renew_helpers cancel_cause_def
        newToken_def)
  have "err_matches (rn_cause r) ErrLeaseWindowExhausted \<and> err_matches (rn_cause r) ErrLeaseExpired"
    using lapsed_lease_exhausts_window [OF lease _ run(1)] run(2,3)
    by (auto simp: ex_exhausting_def simp flip: not_less)
  then show ?thesis using run tok by blast
qed

end
