(* ===== verification/Json.thy ===== *)
theory Json
  imports Prelude
begin

text \<open>
  What the programs use of Go's \<open>encoding/json\<close>: documents, printed as \<open>Marshal\<close> prints them and read
  as \<open>Unmarshal\<close> reads them.

  A document is text, a list of bytes as characters. Strings are escaped as \<open>Marshal\<close> does, HTML
  characters and line separators included, and decoded with Go's treatment of invalid UTF-8 and lone
  surrogates. The reader is a lexer and a parser with an explicit stack, like Go's scanner, and has its
  nesting limit.
\<close>

section \<open>UTF-8\<close>

abbreviation byte :: "char \<Rightarrow> nat" where "byte c \<equiv> of_char c"

definition cont :: "char \<Rightarrow> bool" where
  "cont c \<longleftrightarrow> 128 \<le> byte c \<and> byte c < 192"

text \<open>The length of the rune at the head of a text, and 0 if there is none.\<close>

definition utf8_width :: "string \<Rightarrow> nat" where
  "utf8_width s =
     (case s of
        [] \<Rightarrow> 0
      | a # t \<Rightarrow>
          let n = byte a
          in if n < 128 then 1
             else if 194 \<le> n \<and> n < 224 then (case t of b # u \<Rightarrow> if cont b then 2 else 0 | _ \<Rightarrow> 0)
             else if 224 \<le> n \<and> n < 240 then
               (case t of
                  b # c # u \<Rightarrow>
                    if cont b \<and> cont c \<and> (n = 224 \<longrightarrow> 160 \<le> byte b) \<and> (n = 237 \<longrightarrow> byte b < 160) then 3 else 0
                | _ \<Rightarrow> 0)
             else if 240 \<le> n \<and> n < 245 then
               (case t of
                  b # c # d # u \<Rightarrow>
                    if cont b \<and> cont c \<and> cont d \<and> (n = 240 \<longrightarrow> 144 \<le> byte b) \<and> (n = 244 \<longrightarrow> byte b < 144) then 4 else 0
                | _ \<Rightarrow> 0)
             else 0)"

fun valid_utf8 :: "string \<Rightarrow> bool" where
  "valid_utf8 [] = True"
| "valid_utf8 (a # s) = (utf8_width (a # s) \<noteq> 0 \<and> valid_utf8 (drop (utf8_width (a # s) - 1) s))"

definition encode_rune :: "nat \<Rightarrow> string" where
  "encode_rune n =
     (if n < 128 then [char_of n]
      else if n < 2048 then [char_of (192 + n div 64), char_of (128 + n mod 64)]
      else if n < 65536 then
        [char_of (224 + n div 4096), char_of (128 + n div 64 mod 64), char_of (128 + n mod 64)]
      else
        [char_of (240 + n div 262144), char_of (128 + n div 4096 mod 64), char_of (128 + n div 64 mod 64),
         char_of (128 + n mod 64)])"

definition rune_error :: string where "rune_error = encode_rune 65533"

lemma width_head:
  "utf8_width [] = 0" "byte a < 128 \<Longrightarrow> utf8_width (a # s) = 1"
  by (simp_all add: utf8_width_def)

lemma width_cases:
  assumes "utf8_width s \<noteq> 0"
  obtains (one) a t where "s = a # t" "byte a < 128" "utf8_width s = 1"
  | (two) a b t where "s = a # b # t" "128 \<le> byte a" "utf8_width s = 2" "\<And>u. utf8_width (a # b # u) = 2"
  | (three) a b c t where "s = a # b # c # t" "128 \<le> byte a" "utf8_width s = 3" "\<And>u. utf8_width (a # b # c # u) = 3"
  | (four) a b c d t where "s = a # b # c # d # t" "128 \<le> byte a" "utf8_width s = 4"
      "\<And>u. utf8_width (a # b # c # d # u) = 4"
proof (cases s)
  case Nil
  then show ?thesis using assms by (simp add: width_head)
next
  case (Cons a t)
  consider "byte a < 128" | "194 \<le> byte a \<and> byte a < 224" | "224 \<le> byte a \<and> byte a < 240"
    | "240 \<le> byte a \<and> byte a < 245"
    using assms unfolding Cons utf8_width_def Let_def list.case by argo
  then show ?thesis
  proof cases
    case 1
    then show ?thesis using one Cons by (simp add: width_head)
  next
    case 2
    then obtain b u where "t = b # u" "cont b"
      using assms Cons by (cases t) (auto simp: utf8_width_def Let_def split: if_splits)
    then show ?thesis using 2 Cons by (intro two [of a b u]) (simp_all add: utf8_width_def)
  next
    case 3
    then obtain b c u where "t = b # c # u"
      "cont b \<and> cont c \<and> (byte a = 224 \<longrightarrow> 160 \<le> byte b) \<and> (byte a = 237 \<longrightarrow> byte b < 160)"
      using assms Cons by (cases t; cases "tl t") (auto simp: utf8_width_def Let_def split: if_splits)
    then show ?thesis using 3 Cons by (intro three [of a b c u]) (simp_all add: utf8_width_def)
  next
    case 4
    then obtain b c d u where "t = b # c # d # u"
      "cont b \<and> cont c \<and> cont d \<and> (byte a = 240 \<longrightarrow> 144 \<le> byte b) \<and> (byte a = 244 \<longrightarrow> byte b < 144)"
      using assms Cons by (cases t; cases "tl t"; cases "tl (tl t)") (auto simp: utf8_width_def Let_def split: if_splits)
    then show ?thesis using 4 Cons by (intro four [of a b c d u]) (simp_all add: utf8_width_def)
  qed
qed

lemma width_take: "utf8_width s \<noteq> 0 \<Longrightarrow> utf8_width (take (utf8_width s) s @ u) = utf8_width s"
  by (cases rule: width_cases [of s]) (auto simp: numeral_eq_Suc width_head)

lemma width_le: "utf8_width s \<le> length s"
  by (cases "utf8_width s = 0") (simp, cases rule: width_cases [of s], auto)

lemma valid_utf8_append: "valid_utf8 s \<Longrightarrow> valid_utf8 t \<Longrightarrow> valid_utf8 (s @ t)"
proof (induction s rule: valid_utf8.induct)
  case (2 a s)
  let ?n = "utf8_width (a # s)"
  have n: "?n \<noteq> 0" "valid_utf8 (drop (?n - 1) s)" using 2 by simp_all
  have "take ?n (a # s) @ drop (?n - 1) s = a # s"
    using n(1) by (cases ?n) simp_all
  then have "utf8_width ((a # s) @ t) = ?n"
    using width_take [OF n(1), of "drop (?n - 1) s @ t"] by (metis append.assoc)
  moreover have "?n - 1 \<le> length s" using width_le [of "a # s"] by simp
  ultimately show ?case using 2 n by simp
qed simp

lemma valid_utf8_rune:
  assumes "n < 1114112" and "\<not> (55296 \<le> n \<and> n < 57344)"
  shows "valid_utf8 (encode_rune n)"
proof -
  consider "n < 128" | "128 \<le> n" "n < 2048" | "2048 \<le> n" "n < 65536" | "65536 \<le> n" by linarith
  then show ?thesis
  proof cases
    case 1
    then show ?thesis by (simp add: encode_rune_def utf8_width_def)
  next
    case 2
    then have "2 \<le> n div 64" "n div 64 < 32" by linarith+
    then show ?thesis using 2 by (simp add: encode_rune_def utf8_width_def cont_def)
  next
    case 3
    define m where "m = n div 64"
    have n: "n div 4096 = m div 64" using div_mult2_eq [of n 64 64] by (simp add: m_def)
    have m: "32 \<le> m" "m < 1024" "\<not> (864 \<le> m \<and> m < 896)" using 3 assms(2) unfolding m_def by linarith+
    have "32 \<le> m mod 64" if "m div 64 = 0" using m(1) that by (simp add: div_eq_0_iff)
    moreover have "m mod 64 < 32" if "m div 64 = 13"
      using m(3) that div_mult_mod_eq [of m 64] mod_less_divisor [of 64 m] by linarith
    moreover have "m div 64 < 16" using m(2) by linarith
    ultimately show ?thesis using 3 by (simp add: encode_rune_def utf8_width_def cont_def n m_def [symmetric])
  next
    case 4
    define m where "m = n div 4096"
    have n: "n div 262144 = m div 64" using div_mult2_eq [of n 4096 64] by (simp add: m_def)
    have m: "16 \<le> m" "m < 272" using 4 assms(1) unfolding m_def by linarith+
    have "16 \<le> m mod 64" if "m div 64 = 0" using m(1) that by (simp add: div_eq_0_iff)
    moreover have "m mod 64 < 16" if "m div 64 = 4"
      using m(2) that div_mult_mod_eq [of m 64] by linarith
    moreover have "m div 64 < 5" using m(2) by linarith
    ultimately show ?thesis using 4 by (simp add: encode_rune_def utf8_width_def cont_def n m_def [symmetric])
  qed
qed

lemma valid_rune_error: "valid_utf8 rune_error"
  unfolding rune_error_def by (rule valid_utf8_rune) simp_all

section \<open>Strings\<close>

abbreviation backslash :: char where "backslash \<equiv> CHR 0x5C"
abbreviation quote :: char where "quote \<equiv> CHR 0x22"

definition hex_digit :: "nat \<Rightarrow> char" where
  "hex_digit n = char_of (if n < 10 then 48 + n else 87 + n)"

text \<open>The ASCII characters that need no escape, HTML's included.\<close>

definition html_safe :: "char \<Rightarrow> bool" where
  "html_safe c \<longleftrightarrow> 32 \<le> byte c \<and> byte c < 128 \<and> c \<notin> {quote, backslash, CHR ''<'', CHR ''>'', CHR ''&''}"

definition escape_ascii :: "char \<Rightarrow> string" where
  "escape_ascii c =
     (if html_safe c then [c]
      else if c = quote \<or> c = backslash then [backslash, c]
      else if byte c = 8 then [backslash, CHR ''b'']
      else if byte c = 12 then [backslash, CHR ''f'']
      else if byte c = 10 then [backslash, CHR ''n'']
      else if byte c = 13 then [backslash, CHR ''r'']
      else if byte c = 9 then [backslash, CHR ''t'']
      else [backslash, CHR ''u'', CHR ''0'', CHR ''0'', hex_digit (byte c div 16), hex_digit (byte c mod 16)])"

text \<open>\<open>appendString\<close>; U+2028 and U+2029 separate lines in JavaScript.\<close>

function escape :: "string \<Rightarrow> string" where
  "escape [] = []"
| "escape (a # s) =
     (let k = utf8_width (a # s)
      in if byte a < 128 then escape_ascii a @ escape s
         else if k = 0 then backslash # ''ufffd'' @ escape s
         else if take k (a # s) = encode_rune 8232 then backslash # ''u2028'' @ escape (drop (k - 1) s)
         else if take k (a # s) = encode_rune 8233 then backslash # ''u2029'' @ escape (drop (k - 1) s)
         else take k (a # s) @ escape (drop (k - 1) s))"
  by pat_completeness auto
termination by (relation "measure length") auto

definition hex_val :: "char \<Rightarrow> nat option" where
  "hex_val c =
     (let n = byte c
      in if 48 \<le> n \<and> n < 58 then Some (n - 48)
         else if 97 \<le> n \<and> n < 103 then Some (n - 87)
         else if 65 \<le> n \<and> n < 71 then Some (n - 55)
         else None)"

text \<open>Four hexadecimal digits, and the text after them.\<close>

definition hex4 :: "string \<Rightarrow> (nat \<times> string) option" where
  "hex4 s =
     (case s of
        a # b # c # d # t \<Rightarrow>
          (case (hex_val a, hex_val b, hex_val c, hex_val d) of
             (Some a, Some b, Some c, Some d) \<Rightarrow> Some (((a * 16 + b) * 16 + c) * 16 + d, t)
           | _ \<Rightarrow> None)
      | _ \<Rightarrow> None)"

text \<open>The rune of a surrogate pair whose first half is \<open>n\<close>.\<close>

definition surrogate_pair :: "nat \<Rightarrow> string \<Rightarrow> (nat \<times> string) option" where
  "surrogate_pair n s =
     (case s of
        a # b # t \<Rightarrow>
          if 55296 \<le> n \<and> n < 56320 \<and> a = backslash \<and> b = CHR ''u'' then
            (case hex4 t of
               Some (m, u) \<Rightarrow>
                 if 56320 \<le> m \<and> m < 57344 then Some (65536 + (n - 55296) * 1024 + (m - 56320), u) else None
             | None \<Rightarrow> None)
          else None
      | _ \<Rightarrow> None)"

definition unescape :: "char \<Rightarrow> char option" where
  "unescape c =
     (if c = quote \<or> c = backslash \<or> c = CHR ''/'' then Some c
      else if c = CHR ''b'' then Some (char_of (8 :: nat))
      else if c = CHR ''f'' then Some (char_of (12 :: nat))
      else if c = CHR ''n'' then Some (char_of (10 :: nat))
      else if c = CHR ''r'' then Some (char_of (13 :: nat))
      else if c = CHR ''t'' then Some (char_of (9 :: nat))
      else None)"

definition prepend :: "string \<Rightarrow> (string \<times> string) option \<Rightarrow> (string \<times> string) option" where
  "prepend p = map_option (\<lambda>(s, rest). (p @ s, rest))"

lemma hex4_shorter: "hex4 s = Some (n, t) \<Longrightarrow> length t < length s"
  by (auto simp: hex4_def split: list.splits option.splits)

lemma surrogate_shorter: "surrogate_pair n s = Some (m, t) \<Longrightarrow> length t < length s"
  by (auto simp: surrogate_pair_def split: list.splits option.splits if_splits dest: hex4_shorter)

text \<open>A string literal after its opening quote: its value, and the text after the closing quote.\<close>

function read_string :: "string \<Rightarrow> (string \<times> string) option" where
  "read_string [] = None"
| "read_string (a # s) =
     (if a = quote then Some ([], s)
      else if a = backslash then
        (case s of
           [] \<Rightarrow> None
         | b # t \<Rightarrow>
             if b = CHR ''u'' then
               (case hex4 t of
                  None \<Rightarrow> None
                | Some (n, u) \<Rightarrow>
                    (case surrogate_pair n u of
                       Some (m, v) \<Rightarrow> prepend (encode_rune m) (read_string v)
                     | None \<Rightarrow>
                         prepend (if 55296 \<le> n \<and> n < 57344 then rune_error else encode_rune n) (read_string u)))
             else
               (case unescape b of None \<Rightarrow> None | Some c \<Rightarrow> prepend [c] (read_string t)))
      else if byte a < 32 then None
      else
        let k = utf8_width (a # s)
        in if k = 0 then prepend rune_error (read_string s)
           else prepend (take k (a # s)) (read_string (drop (k - 1) s)))"
  by pat_completeness auto
termination
  by (relation "measure length") (auto dest!: hex4_shorter surrogate_shorter)

lemma prepend_simps [simp]:
  "prepend p None = None" "prepend p (Some (s, rest)) = Some (p @ s, rest)"
  "prepend p x = Some (s, rest) \<longleftrightarrow> (\<exists>s'. x = Some (s', rest) \<and> s = p @ s')"
  by (auto simp: prepend_def)

lemma read_string_shorter: "read_string s = Some (t, rest) \<Longrightarrow> length rest < length s"
proof (induction s arbitrary: t rule: read_string.induct)
  case (2 a s)
  then show ?case
    by (fastforce simp: Let_def split: if_splits list.splits option.splits prod.splits dest: hex4_shorter surrogate_shorter)
qed simp

lemma hex_val_less: "hex_val c = Some n \<Longrightarrow> n < 16"
  by (auto simp: hex_val_def Let_def split: if_splits)

lemma hex4_less: "hex4 s = Some (n, t) \<Longrightarrow> n < 65536"
  by (auto simp: hex4_def split: list.splits option.splits dest!: hex_val_less)

lemma surrogate_range: "surrogate_pair n s = Some (m, t) \<Longrightarrow> 65536 \<le> m \<and> m < 1114112"
  by (auto simp: surrogate_pair_def split: list.splits option.splits if_splits)

lemma valid_rune_text:
  assumes "utf8_width (a # s) \<noteq> 0"
  shows "valid_utf8 (take (utf8_width (a # s)) (a # s))"
proof -
  let ?k = "utf8_width (a # s)"
  obtain k where k: "?k = Suc k" using assms by (cases ?k) auto
  have "utf8_width (take ?k (a # s)) = ?k" using width_take [OF assms, of "[]"] by simp
  then show ?thesis by (simp add: k)
qed

lemma unescape_ascii: "unescape c = Some d \<Longrightarrow> byte d < 128"
  by (auto simp: unescape_def split: if_splits)

text \<open>Whatever is read is valid UTF-8.\<close>

lemma read_string_valid: "read_string s = Some (t, rest) \<Longrightarrow> valid_utf8 t"
proof (induction s arbitrary: t rule: read_string.induct)
  case (2 a s)
  consider (stop) "a = quote" | (esc) "a = backslash" | (control) "a \<noteq> quote" "a \<noteq> backslash" "byte a < 32"
    | (bad) "a \<noteq> quote" "a \<noteq> backslash" "\<not> byte a < 32" "utf8_width (a # s) = 0"
    | (rune) "a \<noteq> quote" "a \<noteq> backslash" "\<not> byte a < 32" "utf8_width (a # s) \<noteq> 0"
    by blast
  then show ?case
  proof cases
    case esc
    then obtain b u where s: "s = b # u" using 2(6) by (auto split: list.splits)
    show ?thesis
    proof (cases "b = CHR ''u''")
      case True
      then obtain n v where n: "hex4 u = Some (n, v)" using 2(6) esc s by (auto split: option.splits)
      show ?thesis
      proof (cases "surrogate_pair n v")
        case None
        then obtain t' where "read_string v = Some (t', rest)" "t = (if 55296 \<le> n \<and> n < 57344 then rune_error else encode_rune n) @ t'"
          using 2(6) esc s True n by auto
        then show ?thesis
          using 2(1) [OF _ esc s True n refl None] esc valid_rune_error valid_utf8_rune [of n] hex4_less [OF n]
          by (auto intro!: valid_utf8_append)
      next
        case (Some p)
        obtain m x where p: "p = (m, x)" by (cases p)
        then obtain t' where "read_string x = Some (t', rest)" "t = encode_rune m @ t'"
          using 2(6) esc s True n Some by auto
        then show ?thesis
          using 2(2) [OF _ esc s True n refl Some p [symmetric]] esc valid_utf8_rune [of m] surrogate_range [of n v m x] Some p
          by (auto intro!: valid_utf8_append)
      qed
    next
      case False
      then obtain c t' where c: "unescape b = Some c" "read_string u = Some (t', rest)" "t = [c] @ t'"
        using 2(6) esc s by (auto split: option.splits)
      then have "valid_utf8 t'" using 2(3) [OF _ esc s False c(1)] esc by simp
      then show ?thesis using c(3) unescape_ascii [OF c(1)] by (simp add: width_head)
    qed
  next
    case bad
    then obtain t' where "read_string s = Some (t', rest)" "t = rune_error @ t'"
      using 2(6) by auto
    then show ?thesis using 2(4) [OF bad(1-3) refl bad(4)] valid_rune_error by (auto intro: valid_utf8_append)
  next
    case rune
    then obtain t' where "read_string (drop (utf8_width (a # s) - 1) s) = Some (t', rest)"
      "t = take (utf8_width (a # s)) (a # s) @ t'"
      using 2(6) by (auto simp: Let_def)
    then show ?thesis using 2(5) [OF rune(1-3) refl rune(4)] valid_rune_text [OF rune(4)] by (auto intro: valid_utf8_append)
  qed (use 2(6) in auto)
qed simp

text \<open>What \<open>Marshal\<close> escaped is read back.\<close>

lemma hex_digit_val: "n < 16 \<Longrightarrow> hex_val (hex_digit n) = Some n"
  by (simp add: hex_val_def hex_digit_def Let_def)

lemma read_ascii:
  assumes "byte c < 128"
  shows "read_string (escape_ascii c @ s) = prepend [c] (read_string s)"
proof -
  consider (safe) "html_safe c" | (self) "\<not> html_safe c" "c = quote \<or> c = backslash"
    | (short) "\<not> html_safe c" "\<not> (c = quote \<or> c = backslash)" "byte c \<in> {8, 12, 10, 13, 9}"
    | (hex) "\<not> html_safe c" "\<not> (c = quote \<or> c = backslash)" "byte c \<notin> {8, 12, 10, 13, 9}"
    by blast
  then show ?thesis
  proof cases
    case safe
    then show ?thesis using assms by (simp add: escape_ascii_def html_safe_def width_head Let_def)
  next
    case self
    then show ?thesis by (auto simp: escape_ascii_def unescape_def)
  next
    case short
    then have "c = char_of (byte c)" "byte c = 8 \<or> byte c = 12 \<or> byte c = 10 \<or> byte c = 13 \<or> byte c = 9" by auto
    then show ?thesis using short(1,2) by (elim disjE) (simp_all add: escape_ascii_def unescape_def)
  next
    case hex
    have "hex4 (CHR ''0'' # CHR ''0'' # hex_digit (byte c div 16) # hex_digit (byte c mod 16) # s) = Some (byte c, s)"
      using assms hex_digit_val [of "byte c div 16"] hex_digit_val [of "byte c mod 16"]
      by (simp add: hex4_def hex_val_def [of "CHR ''0''"])
    moreover have "encode_rune (byte c) = [c]" using assms by (simp add: encode_rune_def)
    moreover have "surrogate_pair (byte c) s = None"
      using assms by (auto simp: surrogate_pair_def split: list.splits)
    ultimately show ?thesis using hex assms by (simp add: escape_ascii_def)
  qed
qed

lemma read_separators:
  "read_string (backslash # ''u2028'' @ s) = prepend (encode_rune 8232) (read_string s)"
  "read_string (backslash # ''u2029'' @ s) = prepend (encode_rune 8233) (read_string s)"
proof -
  have "hex4 (''2028'' @ s) = Some (8232, s)" "hex4 (''2029'' @ s) = Some (8233, s)"
    by (simp_all add: hex4_def hex_val_def)
  moreover have "surrogate_pair 8232 s = None" "surrogate_pair 8233 s = None"
    by (auto simp: surrogate_pair_def split: list.splits)
  ultimately show "read_string (backslash # ''u2028'' @ s) = prepend (encode_rune 8232) (read_string s)"
    "read_string (backslash # ''u2029'' @ s) = prepend (encode_rune 8233) (read_string s)"
    by simp_all
qed

lemma read_rune:
  assumes "utf8_width (a # s) \<noteq> 0" and "\<not> byte a < 128"
  shows "read_string (take (utf8_width (a # s)) (a # s) @ u) = prepend (take (utf8_width (a # s)) (a # s)) (read_string u)"
proof -
  let ?k = "utf8_width (a # s)"
  obtain k where k: "?k = Suc k" using assms by (cases ?k) auto
  have len: "k \<le> length s" using width_le [of "a # s"] k by simp
  have a: "a \<noteq> quote" "a \<noteq> backslash" "\<not> byte a < 32" using assms(2) by auto
  have w: "utf8_width (a # take k s @ u) = Suc k" using width_take [OF assms(1), of u] k by simp
  show ?thesis using a w len by (simp add: k Let_def)
qed

lemma read_escape: "valid_utf8 s \<Longrightarrow> read_string (escape s @ quote # rest) = Some (s, rest)"
proof (induction s rule: escape.induct)
  case (2 a s)
  let ?k = "utf8_width (a # s)"
  have valid: "?k \<noteq> 0" "valid_utf8 (drop (?k - 1) s)" using 2 by simp_all
  show ?case
  proof (cases "byte a < 128")
    case True
    then show ?thesis using 2(1) [OF refl True] valid by (simp add: width_head read_ascii)
  next
    case False
    have split: "take ?k (a # s) @ drop (?k - 1) s = a # s" using valid(1) by (cases ?k) simp_all
    consider (ls) "take ?k (a # s) = encode_rune 8232" | (ps) "take ?k (a # s) = encode_rune 8233" "take ?k (a # s) \<noteq> encode_rune 8232"
      | (other) "take ?k (a # s) \<noteq> encode_rune 8232" "take ?k (a # s) \<noteq> encode_rune 8233" by blast
    then show ?thesis
    proof cases
      case ls
      then show ?thesis
        using 2(3) [OF refl False valid(1) ls valid(2)] False valid(1) split read_separators
        by (simp add: Let_def del: read_string.simps) 
    next
      case ps
      then show ?thesis
        using 2(4) [OF refl False valid(1) ps(2,1) valid(2)] False valid(1) split read_separators
        by (simp add: Let_def del: read_string.simps)
    next
      case other
      then show ?thesis
        using 2(5) [OF refl False valid(1) other valid(2)] False valid(1) split read_rune [OF valid(1) False]
        by (simp add: Let_def del: read_string.simps)
    qed
  qed
qed simp

section \<open>Documents\<close>

text \<open>A number is its literal.\<close>

datatype json =
    JNull
  | JBool bool
  | JNum string
  | JStr string
  | JArr "json list"
  | JObj "(string \<times> json) list"

fun sep :: "'a \<Rightarrow> 'a list list \<Rightarrow> 'a list" where
  "sep x [] = []"
| "sep x [y] = y"
| "sep x (y # z # zs) = y @ x # sep x (z # zs)"

definition print_string :: "string \<Rightarrow> string" where
  "print_string s = quote # escape s @ [quote]"

fun print_json :: "json \<Rightarrow> string" where
  "print_json JNull = ''null''"
| "print_json (JBool b) = (if b then ''true'' else ''false'')"
| "print_json (JNum s) = s"
| "print_json (JStr s) = print_string s"
| "print_json (JArr vs) = CHR ''['' # sep (CHR '','') (map print_json vs) @ [CHR '']'']"
| "print_json (JObj ps) =
     CHR ''{'' # sep (CHR '','') (map (\<lambda>(k, v). print_string k @ CHR '':'' # print_json v) ps) @ [CHR ''}'']"

section \<open>The lexer\<close>

datatype jtoken = Punct char | Scalar json

definition digit :: "char \<Rightarrow> bool" where
  "digit c \<longleftrightarrow> 48 \<le> byte c \<and> byte c < 58"

text \<open>One or more digits.\<close>

definition read_digits :: "string \<Rightarrow> (string \<times> string) option" where
  "read_digits s = (if takeWhile digit s = [] then None else Some (takeWhile digit s, dropWhile digit s))"

definition read_fraction :: "string \<Rightarrow> (string \<times> string) option" where
  "read_fraction s =
     (case s of
        c # t \<Rightarrow> if c = CHR ''.'' then prepend [c] (read_digits t) else Some ([], s)
      | [] \<Rightarrow> Some ([], s))"

definition read_exponent :: "string \<Rightarrow> (string \<times> string) option" where
  "read_exponent s =
     (case s of
        c # t \<Rightarrow>
          if c = CHR ''e'' \<or> c = CHR ''E'' then
            (case t of
               d # u \<Rightarrow>
                 if d = CHR ''+'' \<or> d = CHR ''-'' then prepend [c, d] (read_digits u) else prepend [c] (read_digits t)
             | [] \<Rightarrow> None)
          else Some ([], s)
      | [] \<Rightarrow> Some ([], s))"

text \<open>A leading zero ends the integer part.\<close>

definition read_integer :: "string \<Rightarrow> (string \<times> string) option" where
  "read_integer s =
     (case s of c # t \<Rightarrow> if c = CHR ''0'' then Some ([c], t) else read_digits s | [] \<Rightarrow> None)"

definition read_number :: "string \<Rightarrow> (string \<times> string) option" where
  "read_number s =
     (case s of
        [] \<Rightarrow> None
      | c # t \<Rightarrow>
          let (sign, s) = (if c = CHR ''-'' then ([c], t) else ([], s))
          in case read_integer s of
               None \<Rightarrow> None
             | Some (i, s) \<Rightarrow>
                 (case read_fraction s of
                    None \<Rightarrow> None
                  | Some (f, s) \<Rightarrow> prepend (sign @ i @ f) (read_exponent s)))"

definition read_scalar :: "string \<Rightarrow> (json \<times> string) option" where
  "read_scalar s =
     (if s \<noteq> [] \<and> hd s = quote then map_option (\<lambda>(t, rest). (JStr t, rest)) (read_string (tl s))
      else if take 4 s = ''null'' then Some (JNull, drop 4 s)
      else if take 4 s = ''true'' then Some (JBool True, drop 4 s)
      else if take 5 s = ''false'' then Some (JBool False, drop 5 s)
      else map_option (\<lambda>(t, rest). (JNum t, rest)) (read_number s))"

lemma read_digits_shorter: "read_digits s = Some (i, t) \<Longrightarrow> length t < length s"
  by (cases s) (auto simp: read_digits_def length_dropWhile_le le_imp_less_Suc split: if_splits)

lemma read_number_shorter:
  assumes "read_number s = Some (n, t)"
  shows "length t < length s"
proof -
  have frac: "length v \<le> length u" if "read_fraction u = Some (f, v)" for u f v
    using that by (auto simp: read_fraction_def dest: read_digits_shorter split: list.splits if_splits)
  have exp: "length v \<le> length u" if "read_exponent u = Some (f, v)" for u f v
    using that by (auto simp: read_exponent_def dest: read_digits_shorter split: list.splits if_splits)
  have int: "length v < length u" if "read_integer u = Some (f, v)" for u f v
    using that by (auto simp: read_integer_def dest: read_digits_shorter split: list.splits if_splits)
  show ?thesis
    using assms
    by (auto simp: read_number_def Let_def split: list.splits option.splits if_splits dest!: int frac exp)
qed

lemma read_scalar_shorter: "read_scalar s = Some (v, t) \<Longrightarrow> length t < length s"
  by (cases s) (auto simp: read_scalar_def split: if_splits dest!: read_string_shorter read_number_shorter)

function json_lex :: "string \<Rightarrow> jtoken list option" where
  "json_lex [] = Some []"
| "json_lex (c # s) =
     (if byte c \<in> {32, 9, 10, 13} then json_lex s
      else if c \<in> set ''{}[]:,'' then map_option ((#) (Punct c)) (json_lex s)
      else
        (case read_scalar (c # s) of
           None \<Rightarrow> None
         | Some (v, rest) \<Rightarrow> map_option ((#) (Scalar v)) (json_lex rest)))"
  by pat_completeness auto
termination by (relation "measure length") (auto dest: read_scalar_shorter)

section \<open>The parser\<close>

text \<open>What the parser expects, and the containers it is in; the limit is Go's \<open>maxNestingDepth\<close>.\<close>

datatype expect = Value | FirstElem | FirstKey | NextKey | Colon | Next

datatype frame = InArr "json list" | InObj "(string \<times> json) list" string

datatype pstate = Expect expect "frame list" | Parsed json

definition maxNestingDepth :: nat where "maxNestingDepth = 10000"

definition deliver :: "json \<Rightarrow> frame list \<Rightarrow> pstate" where
  "deliver v st =
     (case st of
        [] \<Rightarrow> Parsed v
      | InArr vs # st \<Rightarrow> Expect Next (InArr (vs @ [v]) # st)
      | InObj ps k # st \<Rightarrow> Expect Next (InObj (ps @ [(k, v)]) '''' # st))"

text \<open>The start of a value.\<close>

fun parse_value :: "frame list \<Rightarrow> jtoken \<Rightarrow> pstate option" where
  "parse_value st (Scalar v) = Some (deliver v st)"
| "parse_value st (Punct c) =
     (if maxNestingDepth \<le> length st then None
      else if c = CHR ''['' then Some (Expect FirstElem (InArr [] # st))
      else if c = CHR ''{'' then Some (Expect FirstKey (InObj [] '''' # st))
      else None)"

fun parse_step :: "pstate \<Rightarrow> jtoken \<Rightarrow> pstate option" where
  "parse_step (Expect Value st) t = parse_value st t"
| "parse_step (Expect FirstElem (InArr vs # st)) t =
     (if t = Punct (CHR '']'') then Some (deliver (JArr vs) st) else parse_value (InArr vs # st) t)"
| "parse_step (Expect FirstKey (InObj ps k # st)) t =
     (if t = Punct (CHR ''}'') then Some (deliver (JObj ps) st)
      else case t of Scalar (JStr k) \<Rightarrow> Some (Expect Colon (InObj ps k # st)) | _ \<Rightarrow> None)"
| "parse_step (Expect NextKey (InObj ps k # st)) t =
     (case t of Scalar (JStr k) \<Rightarrow> Some (Expect Colon (InObj ps k # st)) | _ \<Rightarrow> None)"
| "parse_step (Expect Colon st) t = (if t = Punct (CHR '':'') then Some (Expect Value st) else None)"
| "parse_step (Expect Next (InArr vs # st)) t =
     (if t = Punct (CHR '','') then Some (Expect Value (InArr vs # st))
      else if t = Punct (CHR '']'') then Some (deliver (JArr vs) st)
      else None)"
| "parse_step (Expect Next (InObj ps k # st)) t =
     (if t = Punct (CHR '','') then Some (Expect NextKey (InObj ps k # st))
      else if t = Punct (CHR ''}'') then Some (deliver (JObj ps) st)
      else None)"
| "parse_step s t = None"

fun parse_run :: "pstate \<Rightarrow> jtoken list \<Rightarrow> pstate option" where
  "parse_run s [] = Some s"
| "parse_run s (t # ts) = (case parse_step s t of None \<Rightarrow> None | Some s \<Rightarrow> parse_run s ts)"

definition parse_json :: "string \<Rightarrow> json option" where
  "parse_json text =
     (case json_lex text of
        None \<Rightarrow> None
      | Some ts \<Rightarrow> (case parse_run (Expect Value []) ts of Some (Parsed v) \<Rightarrow> Some v | _ \<Rightarrow> None))"

section \<open>What is printed is read back\<close>

definition int_literal :: "string \<Rightarrow> bool" where
  "int_literal s \<longleftrightarrow>
     (let d = (if s \<noteq> [] \<and> hd s = CHR ''-'' then tl s else s)
      in d \<noteq> [] \<and> list_all digit d \<and> (hd d = CHR ''0'' \<longrightarrow> d = ''0''))"

text \<open>Documents of valid strings and integers.\<close>

fun printable :: "json \<Rightarrow> bool" where
  "printable (JNum s) = int_literal s"
| "printable (JStr s) = valid_utf8 s"
| "printable (JArr vs) = list_all printable vs"
| "printable (JObj ps) = list_all (\<lambda>(k, v). valid_utf8 k \<and> printable v) ps"
| "printable v = True"

fun depth :: "json \<Rightarrow> nat" where
  "depth (JArr vs) = Suc (fold max (map depth vs) 0)"
| "depth (JObj ps) = Suc (fold max (map (\<lambda>(k, v). depth v) ps) 0)"
| "depth v = 0"

fun tokens :: "json \<Rightarrow> jtoken list" where
  "tokens (JArr vs) = Punct (CHR ''['') # sep (Punct (CHR '','')) (map tokens vs) @ [Punct (CHR '']'')]"
| "tokens (JObj ps) =
     Punct (CHR ''{'') # sep (Punct (CHR '','')) (map (\<lambda>(k, v). Scalar (JStr k) # Punct (CHR '':'') # tokens v) ps) @
     [Punct (CHR ''}'')]"
| "tokens v = [Scalar v]"

definition ends :: "string \<Rightarrow> bool" where
  "ends s \<longleftrightarrow> (case s of [] \<Rightarrow> True | c # t \<Rightarrow> c \<in> set ''{}[]:,'')"

lemma ends_Cons [simp]: "ends [] = True" "ends (c # t) = (c \<in> set ''{}[]:,'')"
  by (simp_all add: ends_def)

lemma lex_punct: "c \<in> set ''{}[]:,'' \<Longrightarrow> json_lex (c # s) = map_option ((#) (Punct c)) (json_lex s)"
  by auto

lemma lex_string:
  assumes "valid_utf8 s"
  shows "json_lex (print_string s @ rest) = map_option ((#) (Scalar (JStr s))) (json_lex rest)"
proof -
  have "read_scalar (print_string s @ rest) = Some (JStr s, rest)"
    using read_escape [OF assms, of rest] by (simp add: read_scalar_def print_string_def del: read_string.simps)
  then show ?thesis by (simp add: print_string_def)
qed

lemma digits_end: "ends rest \<Longrightarrow> list_all digit d \<Longrightarrow> takeWhile digit (d @ rest) = d \<and> dropWhile digit (d @ rest) = rest"
  by (cases rest) (auto simp: takeWhile_append dropWhile_append list_all_iff digit_def)

lemma read_int:
  assumes "int_literal s" and "ends rest"
  shows "read_number (s @ rest) = Some (s, rest)"
proof -
  have tail: "read_fraction rest = Some ([], rest)" "read_exponent rest = Some ([], rest)"
    using assms(2) by (cases rest; auto simp: read_fraction_def read_exponent_def)+
  have int: "read_integer (d @ rest) = Some (d, rest)"
    if d: "d \<noteq> []" "list_all digit d" "hd d = CHR ''0'' \<longrightarrow> d = ''0''" for d
  proof (cases "hd d = CHR ''0''")
    case True
    then show ?thesis using d(3) by (simp add: read_integer_def)
  next
    case False
    obtain c d' where c: "d = c # d'" using d(1) by (cases d) auto
    have "takeWhile digit (c # d' @ rest) = c # d'" "dropWhile digit (c # d' @ rest) = rest"
      using digits_end [OF assms(2) d(2)] c by simp_all
    then show ?thesis using False c by (simp add: read_integer_def read_digits_def del: takeWhile.simps dropWhile.simps)
  qed
  obtain c t where s: "s = c # t" using assms(1) by (cases s) (auto simp: int_literal_def)
  show ?thesis
  proof (cases "c = CHR ''-''")
    case True
    then have "read_integer (t @ rest) = Some (t, rest)"
      using assms(1) s by (intro int) (simp_all add: int_literal_def)
    then show ?thesis using s True tail by (simp add: read_number_def)
  next
    case False
    then have "read_integer (s @ rest) = Some (s, rest)"
      using assms(1) s by (intro int) (simp_all add: int_literal_def)
    then show ?thesis using s False tail by (simp add: read_number_def)
  qed
qed

lemma int_head:
  assumes "int_literal s"
  obtains c t where "s = c # t" "c = CHR ''-'' \<or> digit c"
  using assms by (cases s) (auto simp: int_literal_def split: if_splits)

lemma lex_int:
  assumes "int_literal s" and "ends rest"
  shows "json_lex (s @ rest) = map_option ((#) (Scalar (JNum s))) (json_lex rest)"
proof -
  obtain c t where s: "s = c # t" "c = CHR ''-'' \<or> digit c" by (rule int_head [OF assms(1)])
  have c: "byte c \<notin> {32, 9, 10, 13}" "c \<notin> set ''{}[]:,''" "c \<noteq> quote" "c \<noteq> CHR ''n''" "c \<noteq> CHR ''t''" "c \<noteq> CHR ''f''"
    using s(2) by (auto simp: digit_def)
  have "read_scalar (s @ rest) = Some (JNum s, rest)"
    using c(3-6) read_int [OF assms] s(1) by (simp add: read_scalar_def)
  then show ?thesis using c(1,2) s(1) by simp
qed

lemma lex_word:
  "json_lex (''null'' @ rest) = map_option ((#) (Scalar JNull)) (json_lex rest)"
  "json_lex (''true'' @ rest) = map_option ((#) (Scalar (JBool True))) (json_lex rest)"
  "json_lex (''false'' @ rest) = map_option ((#) (Scalar (JBool False))) (json_lex rest)"
  by (simp_all add: read_scalar_def)

lemma map_option_Cons: "map_option ((#) x) = map_option ((@) [x])"
  by (rule arg_cong [of _ _ map_option]) (rule ext, simp)

text \<open>Separated texts json_lex to separated tokens.\<close>

lemma lex_sep:
  assumes "\<And>x rest. x \<in> set xs \<Longrightarrow> ends rest \<Longrightarrow> json_lex (f x @ rest) = map_option ((@) (g x)) (json_lex rest)" and "ends rest"
  shows "json_lex (sep (CHR '','') (map f xs) @ rest) = map_option ((@) (sep (Punct (CHR '','')) (map g xs))) (json_lex rest)"
  using assms
proof (induction xs rule: induct_list012)
  case 1
  then show ?case by (cases "json_lex rest") simp_all
next
  case (2 x)
  then show ?case by simp
next
  case (3 x y zs)
  let ?more = "sep (CHR '','') (map f (y # zs)) @ rest"
  have "json_lex (f x @ CHR '','' # ?more) = map_option ((@) (g x)) (json_lex (CHR '','' # ?more))"
    using 3(3) by simp
  also have "json_lex (CHR '','' # ?more) = map_option ((#) (Punct (CHR '',''))) (json_lex ?more)"
    by (rule lex_punct) simp
  also have "json_lex ?more = map_option ((@) (sep (Punct (CHR '','')) (map g (y # zs)))) (json_lex rest)"
    by (rule 3(2)) (use 3 in simp_all)
  finally show ?case by (cases "json_lex rest") simp_all
qed

lemma lex_print: "printable v \<Longrightarrow> ends rest \<Longrightarrow> json_lex (print_json v @ rest) = map_option ((@) (tokens v)) (json_lex rest)"
proof (induction v arbitrary: rest rule: print_json.induct)
  case (2 b)
  then show ?case using lex_word by (cases b) (simp_all add: map_option_Cons del: json_lex.simps)
next
  case (3 s)
  then show ?case by (simp add: lex_int map_option_Cons)
next
  case (4 s)
  then show ?case by (simp add: lex_string map_option_Cons)
next
  case (5 vs)
  have "json_lex (sep (CHR '','') (map print_json vs) @ CHR '']'' # rest) =
      map_option ((@) (sep (Punct (CHR '','')) (map tokens vs))) (json_lex (CHR '']'' # rest))"
    by (rule lex_sep) (use 5 in \<open>auto simp: list_all_iff\<close>)
  then show ?case
    by (cases "json_lex rest") (simp_all add: lex_punct del: json_lex.simps)
next
  case (6 ps)
  have "json_lex (sep (CHR '','') (map (\<lambda>(k, v). print_string k @ CHR '':'' # print_json v) ps) @ CHR ''}'' # rest) =
      map_option ((@) (sep (Punct (CHR '','')) (map (\<lambda>(k, v). Scalar (JStr k) # Punct (CHR '':'') # tokens v) ps)))
        (json_lex (CHR ''}'' # rest))"
  proof (rule lex_sep)
    fix x rest assume x: "x \<in> set ps" "ends rest"
    obtain k v where p: "x = (k, v)" by (cases x)
    then have kv: "valid_utf8 k" "json_lex (print_json v @ rest) = map_option ((@) (tokens v)) (json_lex rest)"
      using 6 x by (auto simp: list_all_iff)
    then show "json_lex ((case x of (k, v) \<Rightarrow> print_string k @ CHR '':'' # print_json v) @ rest) =
        map_option ((@) (case x of (k, v) \<Rightarrow> Scalar (JStr k) # Punct (CHR '':'') # tokens v)) (json_lex rest)"
      by (cases "json_lex rest") (simp_all add: p lex_string lex_punct del: json_lex.simps)
  qed simp
  then show ?case
    by (cases "json_lex rest") (simp_all add: lex_punct del: json_lex.simps)
qed (use lex_word in \<open>simp_all add: map_option_Cons del: json_lex.simps\<close>)

text \<open>The parser on the tokens of a document.\<close>

definition wants_value :: "expect \<Rightarrow> frame list \<Rightarrow> bool" where
  "wants_value e st \<longleftrightarrow> e = Value \<or> e = FirstElem \<and> (\<exists>vs st'. st = InArr vs # st')"

lemma wants_value_step:
  "wants_value e st \<Longrightarrow> t \<noteq> Punct (CHR '']'') \<Longrightarrow> parse_step (Expect e st) t = parse_value st t"
  by (auto simp: wants_value_def)

lemma fold_max_ge: "n \<in> set xs \<Longrightarrow> n \<le> fold max xs (0 :: nat)"
  unfolding Max.set_eq_fold [symmetric] by (rule Max_ge) simp_all

lemma parse_tokens:
  "wants_value e st \<Longrightarrow> length st + depth v \<le> maxNestingDepth \<Longrightarrow>
   parse_run (Expect e st) (tokens v @ ts) = parse_run (deliver v st) ts"
proof (induction v arbitrary: e st ts rule: tokens.induct)
  case (1 vs)
  have room: "length st < maxNestingDepth" using 1(3) by simp
  have elems: "parse_run (Expect e' (InArr acc # st)) (sep (Punct (CHR '','')) (map tokens us) @ Punct (CHR '']'') # ts) =
      parse_run (deliver (JArr (acc @ us)) st) ts"
    if "set us \<subseteq> set vs" "us \<noteq> []" "wants_value e' (InArr acc # st)" for us acc e'
    using that
  proof (induction us arbitrary: acc e' rule: induct_list012)
    case (2 u)
    have "parse_run (Expect e' (InArr acc # st)) (tokens u @ Punct (CHR '']'') # ts) =
        parse_run (deliver u (InArr acc # st)) (Punct (CHR '']'') # ts)"
      using 2 1(3) fold_max_ge [of "depth u" "map depth vs"] by (intro 1(1)) auto
    then show ?case by (simp add: deliver_def)
  next
    case (3 u u' us)
    have "parse_run (Expect e' (InArr acc # st)) (tokens u @ Punct (CHR '','') #
          sep (Punct (CHR '','')) (map tokens (u' # us)) @ Punct (CHR '']'') # ts) =
        parse_run (deliver u (InArr acc # st)) (Punct (CHR '','') # sep (Punct (CHR '','')) (map tokens (u' # us)) @ Punct (CHR '']'') # ts)"
      using 3(3,5) 1(3) fold_max_ge [of "depth u" "map depth vs"] by (intro 1(1)) auto
    also have "\<dots> = parse_run (Expect Value (InArr (acc @ [u]) # st)) (sep (Punct (CHR '','')) (map tokens (u' # us)) @ Punct (CHR '']'') # ts)"
      by (simp add: deliver_def)
    also have "\<dots> = parse_run (deliver (JArr ((acc @ [u]) @ u' # us)) st) ts"
      using 3(3) by (intro 3(2)) (simp_all add: wants_value_def)
    finally show ?case by simp
  qed simp
  have "parse_run (Expect FirstElem (InArr [] # st)) (sep (Punct (CHR '','')) (map tokens vs) @ Punct (CHR '']'') # ts) =
      parse_run (deliver (JArr vs) st) ts"
    using elems [of vs FirstElem "[]"] by (cases vs) (simp_all add: wants_value_def)
  then show ?case
    using room wants_value_step [OF 1(2), of "Punct (CHR ''['')"] by simp
next
  case (2 ps)
  have room: "length st < maxNestingDepth" using 2(3) by simp
  have pair: "parse_run (Expect e' (InObj acc x # st)) ((Scalar (JStr k) # Punct (CHR '':'') # tokens v) @ us) =
      parse_run (Expect Next (InObj (acc @ [(k, v)]) '''' # st)) us"
    if "(k, v) \<in> set ps" "e' = FirstKey \<or> e' = NextKey" for k v acc x us e'
  proof -
    have "depth v \<le> fold max (map (\<lambda>(k, v). depth v) ps) 0" by (rule fold_max_ge) (use that(1) in force)
    then have "parse_run (Expect Value (InObj acc k # st)) (tokens v @ us) = parse_run (deliver v (InObj acc k # st)) us"
      using that(1) 2(3) by (intro 2(1)) (auto simp: wants_value_def)
    then show ?thesis using that(2) by (auto simp: deliver_def)
  qed
  have members: "parse_run (Expect e' (InObj acc x # st))
        (sep (Punct (CHR '','')) (map (\<lambda>(k, v). Scalar (JStr k) # Punct (CHR '':'') # tokens v) us) @ Punct (CHR ''}'') # ts) =
      parse_run (deliver (JObj (acc @ us)) st) ts"
    if "set us \<subseteq> set ps" "us \<noteq> []" "e' = FirstKey \<or> e' = NextKey" for us acc x e'
    using that
  proof (induction us arbitrary: acc x e' rule: induct_list012)
    case (2 u)
    then show ?case using pair [of "fst u" "snd u" e'] by (cases u) simp
  next
    case (3 u u' us)
    let ?toks = "sep (Punct (CHR '','')) (map (\<lambda>(k, v). Scalar (JStr k) # Punct (CHR '':'') # tokens v) (u' # us)) @ Punct (CHR ''}'') # ts"
    have "parse_run (Expect e' (InObj acc x # st)) ((Scalar (JStr (fst u)) # Punct (CHR '':'') # tokens (snd u)) @ Punct (CHR '','') # ?toks) =
        parse_run (Expect Next (InObj (acc @ [u]) '''' # st)) (Punct (CHR '','') # ?toks)"
      using pair [of "fst u" "snd u" e'] 3(3,5) by simp
    also have "\<dots> = parse_run (Expect NextKey (InObj (acc @ [u]) '''' # st)) ?toks" by simp
    also have "\<dots> = parse_run (deliver (JObj ((acc @ [u]) @ u' # us)) st) ts"
      using 3(3) by (intro 3(2)) simp_all
    finally show ?case by (cases u) simp
  qed simp
  have "parse_run (Expect FirstKey (InObj [] '''' # st))
      (sep (Punct (CHR '','')) (map (\<lambda>(k, v). Scalar (JStr k) # Punct (CHR '':'') # tokens v) ps) @ Punct (CHR ''}'') # ts) =
      parse_run (deliver (JObj ps) st) ts"
    using members [of ps FirstKey "[]" "''''"] by (cases ps) simp_all
  then show ?case
    using room wants_value_step [OF 2(2), of "Punct (CHR ''{'')"] by simp
qed (simp_all add: wants_value_step)

text \<open>A printed document parses to itself.\<close>

lemma parse_print:
  assumes "printable v" and "depth v \<le> maxNestingDepth"
  shows "parse_json (print_json v) = Some v"
proof -
  have "json_lex (print_json v) = Some (tokens v)"
    using lex_print [OF assms(1), of "[]"] by simp
  moreover have "parse_run (Expect Value []) (tokens v) = Some (Parsed v)"
    using parse_tokens [of Value "[]" v "[]"] assms(2) by (simp add: wants_value_def deliver_def)
  ultimately show ?thesis by (simp add: parse_json_def)
qed

text \<open>And every string of a parsed document is valid UTF-8.\<close>

fun valid_strings :: "json \<Rightarrow> bool" where
  "valid_strings (JStr s) = valid_utf8 s"
| "valid_strings (JArr vs) = list_all valid_strings vs"
| "valid_strings (JObj ps) = list_all (\<lambda>(k, v). valid_utf8 k \<and> valid_strings v) ps"
| "valid_strings v = True"

definition valid_token :: "jtoken \<Rightarrow> bool" where
  "valid_token t \<longleftrightarrow> (case t of Punct c \<Rightarrow> True | Scalar v \<Rightarrow> valid_strings v)"

fun valid_frame :: "frame \<Rightarrow> bool" where
  "valid_frame (InArr vs) = list_all valid_strings vs"
| "valid_frame (InObj ps k) = (valid_utf8 k \<and> list_all (\<lambda>(k, v). valid_utf8 k \<and> valid_strings v) ps)"

fun valid_state :: "pstate \<Rightarrow> bool" where
  "valid_state (Parsed v) = valid_strings v"
| "valid_state (Expect e st) = list_all valid_frame st"

lemma lex_valid: "json_lex s = Some ts \<Longrightarrow> list_all valid_token ts"
proof (induction s arbitrary: ts rule: json_lex.induct)
  case (2 c s)
  then show ?case
    by (auto simp: read_scalar_def valid_token_def split: if_splits option.splits dest: read_string_valid)
qed simp

lemma deliver_valid: "valid_strings v \<Longrightarrow> list_all valid_frame st \<Longrightarrow> valid_state (deliver v st)"
  by (cases st; cases "hd st") (auto simp: deliver_def)

lemma parse_step_valid:
  "parse_step s t = Some s' \<Longrightarrow> valid_state s \<Longrightarrow> valid_token t \<Longrightarrow> valid_state s'"
  by (induction s t rule: parse_step.induct)
     (auto simp: valid_token_def intro!: deliver_valid split: if_splits jtoken.splits json.splits elim!: parse_value.elims)

lemma parse_valid: "parse_json s = Some v \<Longrightarrow> valid_strings v"
proof -
  have run: "parse_run p ts = Some p' \<Longrightarrow> valid_state p \<Longrightarrow> list_all valid_token ts \<Longrightarrow> valid_state p'" for p ts p'
    by (induction p ts rule: parse_run.induct) (auto split: option.splits dest: parse_step_valid)
  assume "parse_json s = Some v"
  then obtain ts where "json_lex s = Some ts" "parse_run (Expect Value []) ts = Some (Parsed v)"
    by (auto simp: parse_json_def split: option.splits pstate.splits)
  then show ?thesis using run [of "Expect Value []" ts] lex_valid by fastforce
qed

end
