(* ===== verification/Json_Codec.thy ===== *)
theory Json_Codec
  imports Json Migration Cancellation Partition
begin

text \<open>
  \<open>checkpoint.JSONCodec\<close> on the checkpoints of the examples: structs of strings, booleans and integers.

  A struct is printed field by field under its tags. Reading one goes through the members of the object
  in order: a key that names a field up to case sets it, others are skipped, and a value of the wrong
  type is an error but does not end the reading. An empty list stands for a nil slice, which is printed
  as \<open>null\<close>.
\<close>

section \<open>Structs\<close>

definition text_bytes :: "string \<Rightarrow> u8 list" where
  "text_bytes s = map (\<lambda>c. of_nat (byte c)) s"

definition bytes_text :: "u8 list \<Rightarrow> string" where
  "bytes_text bs = map (\<lambda>x. char_of (unat x)) bs"

text \<open>Names are compared up to case; the long s and the Kelvin sign fold to ASCII.\<close>

fun fold_name :: "string \<Rightarrow> string" where
  "fold_name [] = []"
| "fold_name (a # s) =
     (if take 2 (a # s) = encode_rune 383 then CHR ''S'' # fold_name (drop 1 s)
      else if take 3 (a # s) = encode_rune 8490 then CHR ''K'' # fold_name (drop 2 s)
      else (if 97 \<le> byte a \<and> byte a < 123 then char_of (byte a - 32) else a) # fold_name s)"

type_synonym 'a field = "string \<times> (json \<Rightarrow> 'a \<Rightarrow> 'a \<times> bool)"

definition find_field :: "'a field list \<Rightarrow> string \<Rightarrow> (json \<Rightarrow> 'a \<Rightarrow> 'a \<times> bool) option" where
  "find_field fds k = map_of (map (\<lambda>(name, f). (fold_name name, f)) fds) (fold_name k)"

fun read_members :: "'a field list \<Rightarrow> (string \<times> json) list \<Rightarrow> 'a \<times> bool \<Rightarrow> 'a \<times> bool" where
  "read_members fds [] (v, ok) = (v, ok)"
| "read_members fds ((k, x) # ps) (v, ok) =
     (case find_field fds k of
        None \<Rightarrow> read_members fds ps (v, ok)
      | Some f \<Rightarrow> let (v', good) = f x v in read_members fds ps (v', ok \<and> good))"

definition json_unmarshal :: "'a field list \<Rightarrow> string \<Rightarrow> 'a \<Rightarrow> 'a \<times> gerror option" where
  "json_unmarshal fds text v =
     (case parse_json text of
        None \<Rightarrow> (v, Some (ErrNew ''json: syntax error''))
      | Some JNull \<Rightarrow> (v, None)
      | Some (JObj ps) \<Rightarrow>
          let (v', ok) = read_members fds ps (v, True)
          in (v', if ok then None else Some (ErrNew ''json: cannot unmarshal''))
      | Some x \<Rightarrow> (v, Some (ErrNew ''json: cannot unmarshal'')))"

definition JSONCodec :: "('a \<Rightarrow> json) \<Rightarrow> 'a field list \<Rightarrow> 'a codec" where
  "JSONCodec to_json fds =
     \<lparr>co_marshal = (\<lambda>v. Inr (Some (text_bytes (print_json (to_json v))))),
      co_unmarshal = (\<lambda>data v. json_unmarshal fds (case data of None \<Rightarrow> [] | Some bs \<Rightarrow> bytes_text bs) v)\<rparr>"

section \<open>Values of fields\<close>

text \<open>What a JSON value makes of a variable, and whether its type fits; \<open>null\<close> leaves all but slices alone.\<close>

definition set_bool :: "json \<Rightarrow> bool \<Rightarrow> bool \<times> bool" where
  "set_bool x old = (case x of JBool b \<Rightarrow> (b, True) | JNull \<Rightarrow> (old, True) | _ \<Rightarrow> (old, False))"

definition set_strings :: "json \<Rightarrow> string list \<Rightarrow> string list \<times> bool" where
  "set_strings x old =
     (case x of
        JArr vs \<Rightarrow>
          (map (\<lambda>(i, v). case v of JStr s \<Rightarrow> s | _ \<Rightarrow> if i < length old then old ! i else '''') (enumerate 0 vs),
           list_all (\<lambda>v. case v of JStr s \<Rightarrow> True | JNull \<Rightarrow> True | _ \<Rightarrow> False) vs)
      | JNull \<Rightarrow> ([], True)
      | _ \<Rightarrow> (old, False))"

definition digits_val :: "string \<Rightarrow> nat" where
  "digits_val s = foldl (\<lambda>n c. n * 10 + (byte c - 48)) 0 s"

text \<open>\<open>strconv.ParseInt\<close> in base 10 for 64 bits.\<close>

definition parse_int :: "string \<Rightarrow> int option" where
  "parse_int s =
     (let minus = (s \<noteq> [] \<and> hd s = CHR ''-''); d = (if minus then tl s else s);
          n = (if minus then - int (digits_val d) else int (digits_val d))
      in if d \<noteq> [] \<and> list_all digit d \<and> is_int64 n then Some n else None)"

definition print_int :: "int \<Rightarrow> string" where
  "print_int n = (if n < 0 then CHR ''-'' # itoa (nat (- n)) else itoa (nat n))"

definition set_int :: "json \<Rightarrow> int \<Rightarrow> int \<times> bool" where
  "set_int x old =
     (case x of
        JNum s \<Rightarrow> (case parse_int s of Some n \<Rightarrow> (n, True) | None \<Rightarrow> (old, False))
      | JNull \<Rightarrow> (old, True)
      | _ \<Rightarrow> (old, False))"

section \<open>The checkpoints of the examples\<close>

definition progress_fields :: "progress field list" where
  "progress_fields =
     [(''migrated_tenants'', \<lambda>x p. let (ts, ok) = set_strings x (mp_tenants p) in (p\<lparr>mp_tenants := ts\<rparr>, ok))]"

definition progress_codec :: "progress codec" where
  "progress_codec = JSONCodec
     (\<lambda>p. JObj [(''migrated_tenants'', if mp_tenants p = [] then JNull else JArr (map JStr (mp_tenants p)))]) progress_fields"

definition cancellation_codec :: "cancellation codec" where
  "cancellation_codec = JSONCodec
     (\<lambda>p. JObj [(''billing_cancelled'', JBool (BillingCancelled p)), (''resources_scheduled'', JBool (ResourcesScheduled p)),
        (''data_archived'', JBool (DataArchived p)), (''email_sent'', JBool (EmailSent p))])
     [(''billing_cancelled'', \<lambda>x p. let (b, ok) = set_bool x (BillingCancelled p) in (p\<lparr>BillingCancelled := b\<rparr>, ok)),
      (''resources_scheduled'', \<lambda>x p. let (b, ok) = set_bool x (ResourcesScheduled p) in (p\<lparr>ResourcesScheduled := b\<rparr>, ok)),
      (''data_archived'', \<lambda>x p. let (b, ok) = set_bool x (DataArchived p) in (p\<lparr>DataArchived := b\<rparr>, ok)),
      (''email_sent'', \<lambda>x p. let (b, ok) = set_bool x (EmailSent p) in (p\<lparr>EmailSent := b\<rparr>, ok))]"

definition partition_codec :: "partition_progress codec" where
  "partition_codec = JSONCodec
     (\<lambda>p. JObj [(''last_offset'', JNum (print_int (last_offset p)))])
     [(''last_offset'', \<lambda>x p. let (n, ok) = set_int x (last_offset p) in (p\<lparr>last_offset := n\<rparr>, ok))]"

section \<open>Round trips\<close>

lemma bytes_text_bytes [simp]: "bytes_text (text_bytes s) = s"
  by (simp add: bytes_text_def text_bytes_def unat_of_nat map_idI)

lemma text_bytes_Nil [simp]: "text_bytes s = [] \<longleftrightarrow> s = []"
  by (simp add: text_bytes_def)

text \<open>An encoded object is read member by member.\<close>

lemma JSONCodec_object:
  assumes "to_json v = JObj ps" and "printable (JObj ps)" and "depth (JObj ps) \<le> maxNestingDepth"
  obtains d where "d \<noteq> []" "co_marshal (JSONCodec to_json fds) v = Inr (Some d)"
    "\<And>z. co_unmarshal (JSONCodec to_json fds) (Some d) z =
       (case read_members fds ps (z, True) of (v', ok) \<Rightarrow> (v', if ok then None else Some (ErrNew ''json: cannot unmarshal'')))"
proof (rule that [of "text_bytes (print_json (JObj ps))"])
  show "text_bytes (print_json (JObj ps)) \<noteq> []" by simp
qed (simp_all add: JSONCodec_def assms(1) json_unmarshal_def parse_print [OF assms(2,3)] del: print_json.simps)

lemma itoa_digits:
  "list_all digit (itoa n) \<and> itoa n \<noteq> [] \<and> (hd (itoa n) = CHR ''0'' \<longrightarrow> n = 0) \<and> digits_val (itoa n) = n"
proof (induction n rule: itoa.induct)
  case (1 n)
  have zero: "char_of (48 + m) = CHR ''0'' \<longleftrightarrow> m = 0" if "m < 10" for m :: nat
  proof -
    have "byte (char_of (48 + m)) = 48 + m" "byte (CHR ''0'') = 48" using that by simp_all
    then show ?thesis by (metis add_cancel_left_right of_char_eq_iff)
  qed
  have dig: "digit (char_of (48 + m))" if "m < 10" for m :: nat
    using that by (simp add: digit_def)
  show ?case
  proof (cases "n < 10")
    case True
    then show ?thesis using zero [of n] dig [of n] by (simp add: itoa.simps [of n] digits_val_def)
  next
    case False
    then have "0 < n div 10" "n mod 10 < 10" by auto
    then show ?thesis
      using False 1 dig [of "n mod 10"] by (subst (1 2 3 4) itoa.simps) (simp add: digits_val_def)
  qed
qed

lemma print_int_facts:
  assumes "is_int64 n"
  shows "int_literal (print_int n)" and "parse_int (print_int n) = Some n"
proof -
  have no_minus: "hd (itoa m) \<noteq> CHR ''-''" for m
    using itoa_digits [of m] by (cases "itoa m") (auto simp: digit_def)
  have zero: "itoa 0 = ''0''" by (simp add: itoa.simps char_of_eq_iff)
  show "int_literal (print_int n)"
    using itoa_digits [of "nat (- n)"] itoa_digits [of "nat n"] no_minus zero
    by (auto simp: int_literal_def print_int_def)
  show "parse_int (print_int n) = Some n"
    using itoa_digits [of "nat (- n)"] itoa_digits [of "nat n"] no_minus assms
    by (simp add: parse_int_def print_int_def)
qed

definition upper :: "char \<Rightarrow> char" where
  "upper c = (if 97 \<le> byte c \<and> byte c < 123 then char_of (byte c - 32) else c)"

lemma fold_ascii: "list_all (\<lambda>c. byte c < 128) s \<Longrightarrow> fold_name s = map upper s"
proof (induction s rule: fold_name.induct)
  case (2 a s)
  have "encode_rune 383 = [char_of (197 :: nat), char_of (191 :: nat)]"
    "encode_rune 8490 = [char_of (226 :: nat), char_of (132 :: nat), char_of (170 :: nat)]"
    by (simp_all add: encode_rune_def)
  moreover have "a \<noteq> char_of (197 :: nat)" "a \<noteq> char_of (226 :: nat)" using 2(4) by auto
  ultimately show ?case using 2 by (simp add: upper_def)
qed simp

lemma fold_fields [simp]:
  "fold_name ''migrated_tenants'' = ''MIGRATED_TENANTS''" "fold_name ''last_offset'' = ''LAST_OFFSET''"
  "fold_name ''billing_cancelled'' = ''BILLING_CANCELLED''" "fold_name ''resources_scheduled'' = ''RESOURCES_SCHEDULED''"
  "fold_name ''data_archived'' = ''DATA_ARCHIVED''" "fold_name ''email_sent'' = ''EMAIL_SENT''"
  by (simp_all add: fold_ascii upper_def char_of_eq_iff del: fold_name.simps)

declare fold_name.simps [simp del]

lemma ascii_valid: "list_all (\<lambda>c. byte c < 128) s \<Longrightarrow> valid_utf8 s"
  by (induction s) (simp_all add: width_head)

lemma set_strings_of_strings: "set_strings (JArr (map JStr ts)) old = (ts, True)"
proof -
  have "map (\<lambda>(i, v). case v of JStr s \<Rightarrow> s | _ \<Rightarrow> if i < length old then old ! i else '''') (enumerate 0 (map JStr ts)) = ts"
    by (rule nth_equalityI) (simp_all add: nth_enumerate_eq)
  then show ?thesis by (simp add: set_strings_def list_all_iff)
qed

lemma set_strings_null: "set_strings JNull old = ([], True)"
  by (simp add: set_strings_def)

lemma set_strings_valid:
  assumes "set_strings x old = (ts, ok)" and "valid_strings x" and "list_all valid_utf8 old"
  shows "list_all valid_utf8 ts"
proof -
  have "valid_utf8 (case v of JStr s \<Rightarrow> s | _ \<Rightarrow> if i < length old then old ! i else '''')"
    if "v \<in> set vs" "list_all valid_strings vs" for i v vs
    using that assms(3) by (auto simp: list_all_iff split: json.split)
  note elem = this
  show ?thesis
  proof (cases "\<exists>vs. x = JArr vs")
    case True
    then obtain vs where x: "x = JArr vs" by blast
    have "snd p \<in> set vs" if "p \<in> set (enumerate 0 vs)" for p
      using that by (auto simp: in_set_enumerate_eq) (metis nth_mem)
    then show ?thesis
      using elem [of _ vs] assms(1,2) by (auto simp: set_strings_def x list.pred_map list.pred_set split_def)
  next
    case False
    then show ?thesis using assms by (cases x) (auto simp: set_strings_def)
  qed
qed

section \<open>The codecs meet what the programs rely on\<close>

lemma names_valid:
  "valid_utf8 ''migrated_tenants''" "valid_utf8 ''last_offset''" "valid_utf8 ''billing_cancelled''"
  "valid_utf8 ''resources_scheduled''" "valid_utf8 ''data_archived''" "valid_utf8 ''email_sent''"
  by (rule ascii_valid, simp)+

lemma fold_max_zeros: "fold max (map (\<lambda>x. 0) xs) (n :: nat) = n"
  by (induction xs) simp_all

lemma progress_roundtrip:
  assumes "list_all valid_utf8 (mp_tenants p)"
  shows "\<exists>d. d \<noteq> [] \<and> co_marshal progress_codec p = Inr (Some d) \<and> co_unmarshal progress_codec (Some d) zero_progress = (p, None)"
proof -
  let ?x = "if mp_tenants p = [] then JNull else JArr (map JStr (mp_tenants p))"
  have "printable (JObj [(''migrated_tenants'', ?x)])"
    using assms names_valid by (auto simp: list_all_iff simp del: valid_utf8.simps)
  moreover have "depth (JObj [(''migrated_tenants'', ?x)]) \<le> maxNestingDepth"
    by (simp add: maxNestingDepth_def comp_def fold_max_zeros)
  ultimately show ?thesis
    by (rule JSONCodec_object [where to_json = "\<lambda>p. JObj [(''migrated_tenants'', if mp_tenants p = [] then JNull else
          JArr (map JStr (mp_tenants p)))]" and v = p, OF refl])
       (cases "mp_tenants p = []"; auto simp: progress_codec_def progress_fields_def find_field_def set_strings_of_strings set_strings_null)
qed

text \<open>Decoded cursors are valid UTF-8, whatever was stored.\<close>

lemma progress_valid:
  assumes "co_unmarshal progress_codec d zero_progress = (p, e)"
  shows "list_all valid_utf8 (mp_tenants p)"
proof -
  have members: "list_all valid_utf8 (mp_tenants v')"
    if "read_members progress_fields ps (v, ok) = (v', ok')" "list_all (\<lambda>(k, x). valid_strings x) ps" "list_all valid_utf8 (mp_tenants v)"
    for ps v ok v' ok'
    using that
  proof (induction ps arbitrary: v ok)
    case (Cons kx ps)
    obtain k x where kx: "kx = (k, x)" by (cases kx)
    obtain ts good where s: "set_strings x (mp_tenants v) = (ts, good)" by (cases "set_strings x (mp_tenants v)")
    then have "list_all valid_utf8 ts" using set_strings_valid [OF s] Cons.prems(2,3) kx by simp
    then show ?case
      using Cons.IH [of "v\<lparr>mp_tenants := ts\<rparr>" "ok \<and> good"] Cons.IH [of v ok] Cons.prems kx s
      by (auto simp: find_field_def progress_fields_def split: if_splits)
  qed simp
  have strings: "list_all (\<lambda>(k, x). valid_strings x) ps" if "parse_json t = Some (JObj ps)" for t ps
    using parse_valid [OF that] by (auto simp: list_all_iff)
  show ?thesis
    using assms members [OF _ strings]
    by (auto simp: progress_codec_def JSONCodec_def json_unmarshal_def zero_progress_def Let_def
        split: option.splits json.splits prod.splits)
qed

lemma progress_json_ok: "json_ok valid_utf8 progress_codec"
  unfolding json_ok_def
proof (intro conjI allI impI)
  fix d p e assume "co_unmarshal progress_codec d zero_progress = (p, Some e)"
  then show "\<not> errors_is e ErrRetire"
    by (auto simp: progress_codec_def JSONCodec_def json_unmarshal_def Let_def split: option.splits json.splits prod.splits if_splits)
qed (use progress_roundtrip progress_valid in blast)+

lemma cancellation_roundtrip:
  "\<exists>d. d \<noteq> [] \<and> co_marshal cancellation_codec p = Inr (Some d) \<and> co_unmarshal cancellation_codec (Some d) z = (p, None)"
proof -
  let ?ps = "\<lambda>p. [(''billing_cancelled'', JBool (BillingCancelled p)), (''resources_scheduled'', JBool (ResourcesScheduled p)),
        (''data_archived'', JBool (DataArchived p)), (''email_sent'', JBool (EmailSent p))]"
  have "printable (JObj (?ps p))" using names_valid by (simp del: valid_utf8.simps)
  moreover have "depth (JObj (?ps p)) \<le> maxNestingDepth" by (simp add: maxNestingDepth_def)
  ultimately show ?thesis
    by (rule JSONCodec_object [where to_json = "\<lambda>p. JObj (?ps p)" and v = p, OF refl])
       (auto simp: cancellation_codec_def find_field_def set_bool_def)
qed

lemma cancellation_json_ok: "json_flags_ok cancellation_codec"
  unfolding json_flags_ok_def using cancellation_roundtrip by blast

lemma partition_json_ok: "json_offset_ok partition_codec"
  unfolding json_offset_ok_def
proof (intro allI impI)
  fix p :: partition_progress
  assume small: "is_int64 (last_offset p)"
  let ?ps = "\<lambda>p. [(''last_offset'', JNum (print_int (last_offset p)))]"
  have "printable (JObj (?ps p))" using names_valid print_int_facts(1) [OF small] by (simp del: valid_utf8.simps)
  moreover have "depth (JObj (?ps p)) \<le> maxNestingDepth" by (simp add: maxNestingDepth_def)
  ultimately show "\<exists>d. d \<noteq> [] \<and> co_marshal partition_codec p = Inr (Some d) \<and>
      co_unmarshal partition_codec (Some d) zero_partition = (p, None)"
    by (rule JSONCodec_object [where to_json = "\<lambda>p. JObj (?ps p)" and v = p, OF refl])
       (use print_int_facts(2) [OF small] in \<open>auto simp: partition_codec_def find_field_def set_int_def zero_partition_def\<close>)
qed

section \<open>Property\<close>

text \<open>
  C21. Round trips of the JSON checkpoints. \<open>Encode\<close> succeeds on every cursor of tenants with valid UTF-8
  names, on every set of cancellation flags and on every 64-bit offset; what it returns is not empty, so
  that a backend stores it as it is; and \<open>Decode\<close> gives back the value.
\<close>

theorem checkpoints_roundtrip:
  assumes "list_all valid_utf8 (mp_tenants p)" and "is_int64 (last_offset q)"
  shows "(\<exists>d. Encode progress_codec p = Inr (Some d) \<and> d \<noteq> [] \<and> Decode progress_codec zero_progress (Some d) = Inr p) \<and>
    (\<exists>d. Encode cancellation_codec f = Inr (Some d) \<and> d \<noteq> [] \<and> Decode cancellation_codec zero_cancellation (Some d) = Inr f) \<and>
    (\<exists>d. Encode partition_codec q = Inr (Some d) \<and> d \<noteq> [] \<and> Decode partition_codec zero_partition (Some d) = Inr q)"
proof (intro conjI)
  show "\<exists>d. Encode progress_codec p = Inr (Some d) \<and> d \<noteq> [] \<and> Decode progress_codec zero_progress (Some d) = Inr p"
    using progress_roundtrip [OF assms(1)] by (auto simp: Encode_def Decode_def)
  show "\<exists>d. Encode cancellation_codec f = Inr (Some d) \<and> d \<noteq> [] \<and> Decode cancellation_codec zero_cancellation (Some d) = Inr f"
    using cancellation_roundtrip [of f zero_cancellation] by (auto simp: Encode_def Decode_def)
  show "\<exists>d. Encode partition_codec q = Inr (Some d) \<and> d \<noteq> [] \<and> Decode partition_codec zero_partition (Some d) = Inr q"
    using partition_json_ok assms(2) by (fastforce simp: json_offset_ok_def Encode_def Decode_def)
qed

theorem checkpoints_roundtrip_witness:
  "(\<exists>d. Encode progress_codec \<lparr>mp_tenants = [''tenant-001'', '''']\<rparr> = Inr (Some d) \<and>
      Decode progress_codec zero_progress (Some d) = Inr \<lparr>mp_tenants = [''tenant-001'', '''']\<rparr>) \<and>
   (\<exists>d. Encode partition_codec \<lparr>last_offset = - (2 ^ 63)\<rparr> = Inr (Some d) \<and>
      Decode partition_codec zero_partition (Some d) = Inr \<lparr>last_offset = - (2 ^ 63)\<rparr>)"
proof -
  have "list_all valid_utf8 (mp_tenants \<lparr>mp_tenants = [''tenant-001'', '''']\<rparr>)" using ascii_valid by (simp del: valid_utf8.simps)
  moreover have "is_int64 (last_offset \<lparr>last_offset = - (2 ^ 63)\<rparr>)" by (simp add: is_int64_def)
  ultimately show ?thesis
    using checkpoints_roundtrip [of "\<lparr>mp_tenants = [''tenant-001'', '''']\<rparr>" "\<lparr>last_offset = - (2 ^ 63)\<rparr>"] by blast
qed

end
