(* ===== verification/Paced.thy ===== *)
theory Paced
  imports Migration
begin

text \<open>
  The lease client on the memory backend in a sequential program that sleeps: nobody else calls the
  backend and no context ends. \<open>time.Sleep\<close> moves the clock readings of all later calls; whatever else
  the program does takes less than a second in all, so that the readings of every call lie in the second
  after the time that the sleeps account for. The clock does not go back from one call to the next.
\<close>

definition delay :: "duration \<Rightarrow> attempt_env \<Rightarrow> attempt_env" where
  "delay d env = env\<lparr>ae_call := \<lparr>ce_ctx = ce_ctx (ae_call env), ce_clk = (\<lambda>k. time_add (ce_clk (ae_call env) k) d),
     ce_start = time_add (ce_start (ae_call env)) d, ce_end = time_add (ce_end (ae_call env)) d\<rparr>\<rparr>"

definition pause :: "duration \<Rightarrow> 's cworld \<Rightarrow> 's cworld" where
  "pause d w = w\<lparr>cw_envs := (\<lambda>n. delay d (cw_envs w n))\<rparr>"

definition reading :: "'s cworld \<Rightarrow> nat \<Rightarrow> nat \<Rightarrow> int" where
  "reading w n k = ns (ce_clk (ae_call (cw_envs w n)) k)"

definition on_pace :: "int \<Rightarrow> 's cworld \<Rightarrow> bool" where
  "on_pace T w \<longleftrightarrow> cw_cause w = None \<and>
     (\<forall>n. ae_before (cw_envs w n) = [] \<and> ce_ctx (ae_call (cw_envs w n)) = None \<and>
        (\<forall>k. T \<le> reading w n k \<and> reading w n k < T + second)) \<and>
     (\<forall>n m j k. n < m \<longrightarrow> reading w n j \<le> reading w m k)"

text \<open>A row that every call to come finds lapsed.\<close>

definition lapsed :: "'s cworld \<Rightarrow> row \<Rightarrow> bool" where
  "lapsed w r \<longleftrightarrow> (\<forall>n\<ge>cw_n w. \<forall>k. ns (row_expires r) < reading w n k)"

text \<open>The row of a work ID, and a token's own row.\<close>

abbreviation work_row :: "memory_backend cworld \<Rightarrow> string \<Rightarrow> row option" where
  "work_row w i \<equiv> mem_view (cw_store w) i"

definition holds :: "memory_backend cworld \<Rightarrow> token \<Rightarrow> row \<Rightarrow> bool" where
  "holds w tok r \<longleftrightarrow> work_row w (tk_work tok) = Some r \<and> held_by r (toRecord tok)"

lemma paced_pause: "on_pace T w \<Longrightarrow> on_pace (T + d) (pause d w)"
  by (auto simp: on_pace_def pause_def delay_def reading_def algebra_simps)

lemma pause_store [simp]: "cw_store (pause d w) = cw_store w" "cw_cause (pause d w) = cw_cause w"
  by (simp_all add: pause_def)

lemma paced_call:
  assumes "on_pace T w"
  shows "ae_before (cw_envs w n) = []" "ce_ctx (ae_call (cw_envs w n)) = None" "cw_cause w = None"
    "T \<le> ns (ce_clk (ae_call (cw_envs w n)) k)" "ns (ce_clk (ae_call (cw_envs w n)) k) < T + second"
  using assms by (auto simp: on_pace_def reading_def)

lemma lapsed_early: "on_pace T w \<Longrightarrow> ns (row_expires r) < T \<Longrightarrow> lapsed w r"
  by (meson lapsed_def on_pace_def less_le_trans)

lemma paced_after:
  "on_pace T w \<Longrightarrow> on_pace T (w\<lparr>cw_store := s, cw_n := n, cw_log := l\<rparr>)"
  by (simp add: on_pace_def reading_def)

lemma paced_fresh [simp]: "on_pace T (w\<lparr>cw_store := s\<rparr>) = on_pace T w"
  by (simp add: on_pace_def reading_def)

lemmas paced_defs = cw_op_def Let_def mem_view_def toRecord_def held_by_def time_simps

section \<open>The calls\<close>

lemma paced_acquire:
  assumes "on_pace T w" and "i \<noteq> ''''" and "\<And>r. work_row w i = Some r \<Longrightarrow> lapsed w r"
  obtains w' tok r where "l_acquire (client_lease memory cfg) c w i [] = (w', Inr tok)" "on_pace T w'"
    "tk_work tok = i" "tk_holder tok = cf_holder cfg" "tk_token tok = seq (cw_store w) + 1"
    "seq (cw_store w') = seq (cw_store w) + 1" "mem_view (cw_store w') = (mem_view (cw_store w))(i \<mapsto> r)"
    "holds w' tok r" "row_exit r = ExitNone" "T + cf_ttl cfg \<le> ns (row_expires r)"
    "ns (row_expires r) < T + second + cf_ttl cfg"
    "row_checkpoint r = cp_state (inherited (work_row w i))" "row_prev_exit r = cp_prev_exit (inherited (work_row w i))"
    "row_prev_holder r = cp_prev_holder (inherited (work_row w i))"
proof -
  define env where "env = ae_call (cw_envs w (cw_n w))"
  have env: "ce_ctx env = None" "ae_before (cw_envs w (cw_n w)) = []" "T \<le> ns (ce_clk env k)" "ns (ce_clk env k) < T + second" for k
    using paced_call(1,2,4,5) [OF assms(1)] by (auto simp: env_def)
  define k :: nat where "k = (if work_row w i = None then 0 else 1)"
  define r where "r = successor_row (work_row w i) (cf_holder cfg) (seq (cw_store w) + 1) (time_add (ce_clk env k) (cf_ttl cfg)) (ce_clk env (k + 1))"
  define tok where "tok = newToken \<lparr>lr_work = i, lr_holder = cf_holder cfg, lr_token = seq (cw_store w) + 1,
    lr_expires = row_expires r\<rparr> (time_add (ce_start env) (cf_ttl cfg))"
  define s where "s = \<lparr>records = AList.update i r (records (cw_store w)), seq = seq (cw_store w) + 1\<rparr>"
  have free: "time_after (ce_clk env 0) (row_expires r)" if "map_of (records (cw_store w)) i = Some r" for r
    using assms(3) [of r] that by (simp add: time_simps mem_view_def lapsed_def reading_def env_def)
  have mem: "mem_acquire None (ce_clk env) (cw_store w) i (cf_holder cfg) (cf_ttl cfg) =
      (s, Inr \<lparr>lr_work = i, lr_holder = cf_holder cfg, lr_token = seq (cw_store w) + 1, lr_expires = row_expires r\<rparr>)"
    using free by (cases "work_row w i") (auto simp: mem_acquire_def r_def k_def s_def successor_row_def mem_view_def Let_def)
  show ?thesis
  proof (rule that)
    show "l_acquire (client_lease memory cfg) c w i [] =
        (w\<lparr>cw_store := s, cw_n := cw_n w + 1, cw_log := cw_log w @ [OnAcquire i tok (call_dur env) None]\<rparr>, Inr tok)"
      using mem env(1,2) assms(2) by (simp add: client_lease_def client_acquire_def default_acquire_config_def
          acquire_attempt_def env_def [symmetric] tok_def Let_def)
    show "mem_view (cw_store (w\<lparr>cw_store := s, cw_n := cw_n w + 1, cw_log := cw_log w @ [OnAcquire i tok (call_dur env) None]\<rparr>)) =
        (mem_view (cw_store w))(i \<mapsto> r)"
      by (simp add: s_def mem_view_def fun_eq_iff)
  qed (use assms(1) env(3,4) [of k] in \<open>auto simp: paced_after holds_def tok_def newToken_def s_def mem_view_def r_def successor_row_def
      held_by_def toRecord_def inherited_def zero_checkpoint_def split: option.split\<close>)
qed

lemma paced_op:
  assumes "on_pace T w" and "f (ae_call (cw_envs w (cw_n w))) (cw_store w) = (s, evs, x)"
  obtains w' where "cw_op memory f w = (w', x)" "on_pace T w'" "cw_store w' = s" "cw_n w' = Suc (cw_n w)" "cw_envs w' = cw_envs w"
  using assms paced_call(1) [OF assms(1), of "cw_n w"]
  by (simp add: cw_op_def paced_after)

lemma paced_read:
  assumes "on_pace T w" and "holds w tok r"
  obtains w' where "l_read_checkpoint (client_lease memory cfg) c w tok =
      (w', Inr \<lparr>cp_state = row_checkpoint r, cp_prev_exit = row_prev_exit r, cp_prev_holder = row_prev_holder r\<rparr>)"
    "on_pace T w'" "cw_store w' = cw_store w"
proof -
  have mem: "mem_read_checkpoint None clk (cw_store w) (toRecord tok) =
      (cw_store w, Inr \<lparr>cp_state = row_checkpoint r, cp_prev_exit = row_prev_exit r, cp_prev_holder = row_prev_holder r\<rparr>)" for clk
    using assms(2) by (auto simp: mem_read_checkpoint_def holds_def paced_defs)
  obtain evs where "client_read_checkpoint memory cfg (ae_call (cw_envs w (cw_n w))) (cw_store w) tok =
      (cw_store w, evs, Inr \<lparr>cp_state = row_checkpoint r, cp_prev_exit = row_prev_exit r, cp_prev_holder = row_prev_holder r\<rparr>)"
    using mem paced_call(2) [OF assms(1), of "cw_n w"] by (simp add: client_read_checkpoint_def op_error_def Let_def)
  from paced_op [of T w "\<lambda>env s. client_read_checkpoint memory cfg env s tok", OF assms(1) this] show ?thesis
    using that by (simp add: client_lease_sel) blast
qed

lemma paced_checkpoint:
  assumes "on_pace T w" and "holds w tok r" and "row_exit r = ExitNone" and "d \<noteq> []"
  obtains w' r' where "l_checkpoint (client_lease memory cfg) c w tok (Some d) = (w', None)" "on_pace T w'"
    "holds w' tok r'" "mem_view (cw_store w') = (mem_view (cw_store w))(tk_work tok \<mapsto> r')" "seq (cw_store w') = seq (cw_store w)"
    "row_exit r' = ExitNone" "row_checkpoint r' = Some d" "T + cf_ttl cfg \<le> ns (row_expires r')"
    "ns (row_expires r') < T + second + cf_ttl cfg"
proof -
  define env where "env = ae_call (cw_envs w (cw_n w))"
  have env: "ce_ctx env = None" "T \<le> ns (ce_clk env 0)" "ns (ce_clk env 0) < T + second"
    using paced_call [OF assms(1)] by (auto simp: env_def)
  define r' where "r' = r\<lparr>row_checkpoint := Some d, row_expires := time_add (ce_clk env 0) (cf_ttl cfg), row_updated := ce_clk env 1\<rparr>"
  define s where "s = (cw_store w)\<lparr>records := AList.update (tk_work tok) r' (records (cw_store w))\<rparr>"
  have r': "held_by r' (toRecord tok)" "row_exit r' = ExitNone" "row_checkpoint r' = Some d"
    "T + cf_ttl cfg \<le> ns (row_expires r')" "ns (row_expires r') < T + second + cf_ttl cfg"
    using assms(2,3) env by (auto simp: r'_def holds_def held_by_def)
  obtain evs where "client_checkpoint memory cfg env (cw_store w) tok (Some d) = (s, evs, None)"
    using assms(2-4) env
    by (auto simp: client_checkpoint_def mem_checkpoint_def holds_def op_error_def paced_defs s_def r'_def)
  from paced_op [of T w "\<lambda>env s. client_checkpoint memory cfg env s tok (Some d)", OF assms(1) this [unfolded env_def]]
  obtain w' where w': "l_checkpoint (client_lease memory cfg) c w tok (Some d) = (w', None)" "on_pace T w'" "cw_store w' = s"
    by auto
  show ?thesis
    by (rule that [OF w'(1,2), of r']) (use w'(3) r' in \<open>auto simp: holds_def s_def mem_view_def fun_eq_iff\<close>)
qed

text \<open>A write under a token that another acquisition superseded.\<close>

lemma paced_fenced:
  assumes "on_pace T w" and "work_row w (tk_work tok) = Some r" and "row_token r \<noteq> tk_token tok"
  obtains w' e where "l_checkpoint (client_lease memory cfg) c w tok st = (w', Some e)" "errors_is e ErrFenced"
    "on_pace T w'" "cw_store w' = cw_store w"
proof -
  obtain evs e where "client_checkpoint memory cfg (ae_call (cw_envs w (cw_n w))) (cw_store w) tok st = (cw_store w, evs, Some e)"
    "errors_is e ErrFenced"
    using assms(2,3) paced_call(2) [OF assms(1), of "cw_n w"]
    by (auto simp: client_checkpoint_def mem_checkpoint_def op_error_def paced_defs)
  from paced_op [of T w "\<lambda>env s. client_checkpoint memory cfg env s tok st", OF assms(1) this(1)] this(2) show ?thesis
    using that by auto
qed

lemma paced_release:
  assumes "on_pace T w" and "holds w tok r" and "declarable m" and "T + second \<le> ns (row_expires r)"
  obtains w' r' where "l_release (client_lease memory cfg) c w tok m = (w', None)" "on_pace T w'"
    "mem_view (cw_store w') = (mem_view (cw_store w))(tk_work tok \<mapsto> r')" "seq (cw_store w') = seq (cw_store w)"
    "row_exit r' = m" "row_checkpoint r' = row_checkpoint r" "row_holder r' = row_holder r" "lapsed w' r'"
proof -
  define env where "env = ae_call (cw_envs w (cw_n w))"
  have env: "ce_ctx env = None" "T \<le> ns (ce_clk env k)" "ns (ce_clk env k) < T + second" for k
    using paced_call [OF assms(1)] by (auto simp: env_def)
  define r' where "r' = r\<lparr>row_exit := m, row_expires := time_add (ce_clk env 1) releaseGracePeriod, row_updated := ce_clk env 2\<rparr>"
  define s where "s = (cw_store w)\<lparr>records := AList.update (tk_work tok) r' (records (cw_store w))\<rparr>"
  have live: "ns (ce_clk env 0) < ns (row_expires r)" using env(3) [of 0] assms(4) by simp
  obtain evs where "client_release memory cfg env (cw_store w) tok m = (s, evs, None)"
    using assms(2,3) env(1) live
    by (auto simp: client_release_def mem_release_def holds_def op_error_def paced_defs s_def r'_def declarable_iff)
  from paced_op [of T w "\<lambda>env s. client_release memory cfg env s tok m", OF assms(1) this [unfolded env_def]]
  obtain w' where w': "l_release (client_lease memory cfg) c w tok m = (w', None)" "on_pace T w'" "cw_store w' = s"
    "cw_n w' = Suc (cw_n w)" "cw_envs w' = cw_envs w"
    by auto
  have "lapsed w' r'"
    unfolding lapsed_def
  proof (intro allI impI)
    fix n k assume "cw_n w' \<le> n"
    then have "reading w (cw_n w) 1 \<le> reading w n k" using assms(1) w'(4) by (simp add: on_pace_def)
    then show "ns (row_expires r') < reading w' n k"
      using w'(5) by (simp add: r'_def releaseGracePeriod_def reading_def env_def)
  qed
  then show ?thesis
    by (intro that [OF w'(1,2), of r']) (use w'(3) in \<open>auto simp: s_def r'_def mem_view_def fun_eq_iff\<close>)
qed

section \<open>A run\<close>

text \<open>
  A runner over the logged client whose work function, from this start, ends well at time \<open>T2\<close>: the
  row is left with the declared exit and the final state, and a successor may come.
\<close>

definition started_with :: "memory_backend cworld \<Rightarrow> client_config \<Rightarrow> string \<Rightarrow> int \<Rightarrow> memory_backend cworld \<Rightarrow> token \<Rightarrow> row \<Rightarrow> bool" where
  "started_with w cfg i T w1 tok row \<longleftrightarrow>
     on_pace T w1 \<and> holds w1 tok row \<and> tk_work tok = i \<and> tk_holder tok = cf_holder cfg \<and>
     tk_token tok = seq (cw_store w) + 1 \<and> seq (cw_store w1) = seq (cw_store w) + 1 \<and>
     mem_view (cw_store w1) = (mem_view (cw_store w))(i \<mapsto> row) \<and> row_exit row = ExitNone \<and>
     T + cf_ttl cfg \<le> ns (row_expires row) \<and> row_checkpoint row = cp_state (inherited (work_row w i))"

definition worked_on :: "memory_backend cworld \<Rightarrow> string \<Rightarrow> int \<Rightarrow> memory_backend cworld \<Rightarrow> token \<Rightarrow> row \<Rightarrow> bool" where
  "worked_on w i T w2 tok row \<longleftrightarrow>
     on_pace T w2 \<and> holds w2 tok row \<and> tk_work tok = i \<and> seq (cw_store w2) = seq (cw_store w) + 1 \<and>
     (\<forall>j. j \<noteq> i \<longrightarrow> work_row w2 j = work_row w j) \<and> row_exit row = ExitNone \<and> T + second \<le> ns (row_expires row)"

lemma started_worked: "started_with w cfg i T w1 tok row \<Longrightarrow> second \<le> cf_ttl cfg \<Longrightarrow> worked_on w i T w1 tok row"
  by (auto simp: started_with_def worked_on_def)

text \<open>A checkpoint, of the work function or the runner.\<close>

lemma worked_checkpoint:
  assumes "worked_on w i T w2 tok row" and "d \<noteq> []" and "second \<le> cf_ttl cfg"
  obtains w3 row3 where "l_checkpoint (client_lease memory cfg) c w2 tok (Some d) = (w3, None)"
    "worked_on w i T w3 tok row3" "row_checkpoint row3 = Some d" "T + cf_ttl cfg \<le> ns (row_expires row3)"
    "ns (row_expires row3) < T + second + cf_ttl cfg"
proof -
  have "on_pace T w2" "holds w2 tok row" "row_exit row = ExitNone" using assms(1) by (simp_all add: worked_on_def)
  from paced_checkpoint [OF this assms(2)] obtain w3 row3 where w3:
    "l_checkpoint (client_lease memory cfg) c w2 tok (Some d) = (w3, None)" "on_pace T w3" "holds w3 tok row3"
    "mem_view (cw_store w3) = (mem_view (cw_store w2))(tk_work tok \<mapsto> row3)" "seq (cw_store w3) = seq (cw_store w2)"
    "row_exit row3 = ExitNone" "row_checkpoint row3 = Some d" "T + cf_ttl cfg \<le> ns (row_expires row3)"
    "ns (row_expires row3) < T + second + cf_ttl cfg"
    by metis
  show ?thesis
    by (rule that [OF w3(1) _ w3(7-9)]) (use assms(1,3) w3 in \<open>auto simp: worked_on_def\<close>)
qed

lemma worked_pause:
  "worked_on w i T w2 tok row \<Longrightarrow> T + d + second \<le> ns (row_expires row) \<Longrightarrow> worked_on w i (T + d) (pause d w2) tok row"
  by (auto simp: worked_on_def holds_def intro: paced_pause)

lemma paced_run:
  assumes "on_pace T w" and "i \<noteq> ''''" and "\<And>r. work_row w i = Some r \<Longrightarrow> lapsed w r"
    and "ru_lease r = logged_lease ev (client_lease memory cfg)" and "ru_acquire r = []" and "second \<le> cf_ttl cfg"
    and work: "\<And>w1 tok row. started_with w cfg i T w1 tok row \<Longrightarrow>
      \<exists>w2 t2 st werr row2. ru_fn r (w1, t) tok (inherited (work_row w i)) = ((w2, t2), Returned st werr) \<and>
        (werr = None \<or> werr = Some ErrRetire) \<and> st \<noteq> Some [] \<and> worked_on w i T2 w2 tok row2 \<and> Q t2 st row2 werr"
  obtains w' t2 st row2 werr row' where
    "runner_run r (w, t) i = ((w', t2 @ (case st of None \<Rightarrow> [] | Some d \<Rightarrow> [ev (Some d) None])), Done None)"
    "Q t2 st row2 werr" "on_pace T2 w'" "work_row w' i = Some row'"
    "row_exit row' = (if werr = None then ExitFinished else ExitRetired)"
    "row_checkpoint row' = (case st of None \<Rightarrow> row_checkpoint row2 | Some d \<Rightarrow> Some d)"
    "row_holder row' = cf_holder cfg" "lapsed w' row'"
    "seq (cw_store w') = seq (cw_store w) + 1" "\<And>j. j \<noteq> i \<Longrightarrow> work_row w' j = work_row w j"
proof -
  obtain w0 tok row where acq: "l_acquire (client_lease memory cfg) CallerCtx w i [] = (w0, Inr tok)"
    and w0: "started_with w cfg i T w0 tok row" "row_prev_exit row = cp_prev_exit (inherited (work_row w i))"
    "row_prev_holder row = cp_prev_holder (inherited (work_row w i))"
    by (rule paced_acquire [OF assms(1-3), of cfg CallerCtx]) (auto simp: started_with_def)
  obtain w1 where rd: "l_read_checkpoint (client_lease memory cfg) CallerCtx w0 tok = (w1, Inr (inherited (work_row w i)))"
    and w1: "on_pace T w1" "cw_store w1 = cw_store w0"
  proof (rule paced_read [of T w0 tok row cfg CallerCtx])
    show "on_pace T w0" "holds w0 tok row" using w0(1) by (simp_all add: started_with_def)
  next
    fix w1 assume "l_read_checkpoint (client_lease memory cfg) CallerCtx w0 tok = (w1, Inr \<lparr>cp_state = row_checkpoint row,
        cp_prev_exit = row_prev_exit row, cp_prev_holder = row_prev_holder row\<rparr>)" "on_pace T w1" "cw_store w1 = cw_store w0"
    then show ?thesis using that w0 by (simp add: started_with_def del: client_lease_sel)
  qed
  have "started_with w cfg i T w1 tok row"
    using w0(1) w1 by (auto simp: started_with_def holds_def)
  then obtain w2 t2 st werr row2 where fn: "ru_fn r (w1, t) tok (inherited (work_row w i)) = ((w2, t2), Returned st werr)"
    and ok: "werr = None \<or> werr = Some ErrRetire" "st \<noteq> Some []" and w2: "worked_on w i T2 w2 tok row2" and Q: "Q t2 st row2 werr"
    using work by blast
  obtain w3 row3 where cp: "case st of None \<Rightarrow> w3 = w2
      | Some d \<Rightarrow> l_checkpoint (client_lease memory cfg) (CleanupCtx (ru_cleanup r)) w2 tok (Some d) = (w3, None)"
    and w3: "worked_on w i T2 w3 tok row3"
      "row_checkpoint row3 = (case st of None \<Rightarrow> row_checkpoint row2 | Some d \<Rightarrow> Some d)"
  proof (cases st)
    case None
    then show ?thesis using that [of w2 row2] w2 by simp
  next
    case (Some d)
    then have "d \<noteq> []" using ok(2) by simp
    then obtain w3 row3 where
      "l_checkpoint (client_lease memory cfg) (CleanupCtx (ru_cleanup r)) w2 tok (Some d) = (w3, None)"
      "worked_on w i T2 w3 tok row3" "row_checkpoint row3 = Some d"
      by (rule worked_checkpoint [OF w2 _ assms(6)])
    then show ?thesis using that [of w3 row3] Some by (simp del: client_lease_sel)
  qed
  let ?m = "if werr = None then ExitFinished else ExitRetired"
  have "on_pace T2 w3" "holds w3 tok row3" "T2 + second \<le> ns (row_expires row3)" "declarable ?m"
    using w3(1) by (simp_all add: worked_on_def declarable_iff)
  from paced_release [OF this(1,2,4,3)] obtain w' row' where
    rel: "l_release (client_lease memory cfg) (CleanupCtx (ru_cleanup r)) w3 tok ?m = (w', None)"
    and w': "on_pace T2 w'" "mem_view (cw_store w') = (mem_view (cw_store w3))(tk_work tok \<mapsto> row')"
      "seq (cw_store w') = seq (cw_store w3)" "row_exit row' = ?m" "row_checkpoint row' = row_checkpoint row3"
      "row_holder row' = row_holder row3" "lapsed w' row'"
    by metis
  have cause: "cw_cause w2 = None" using w2 by (simp add: worked_on_def on_pace_def)
  have mode: "work_mode werr = (?m, None)" using ok(1) by (auto simp: work_mode_def)
  have "run_finish r (w2, t2) tok st werr None =
      ((w', t2 @ (case st of None \<Rightarrow> [] | Some d \<Rightarrow> [ev (Some d) None])), None)"
    using ok(1) mode cp rel assms(4)
    by (cases st; elim disjE) (simp_all add: run_finish_def run_release_def del: client_lease_sel)
  then have run: "runner_run r (w, t) i = ((w', t2 @ (case st of None \<Rightarrow> [] | Some d \<Rightarrow> [ev (Some d) None])), Done None)"
    using acq rd fn cause assms(4,5) by (simp add: runner_run_def)
  show ?thesis
  proof (rule that [OF run Q w'(1)])
    show "row_holder row' = cf_holder cfg"
      using w'(6) w3(1) w0(1) by (simp add: worked_on_def started_with_def holds_def held_by_def toRecord_def)
  qed (use w' w3 in \<open>auto simp: worked_on_def\<close>)
qed

section \<open>Programs\<close>

text \<open>What \<open>main\<close> calls: \<open>memory.New\<close>, \<open>worklease.New\<close> on that backend, and \<open>time.Sleep\<close>.\<close>

record 'w program =
  pr_fresh :: "'w \<Rightarrow> 'w"
  pr_new :: "client_config \<Rightarrow> 'w lease"
  pr_sleep :: "duration \<Rightarrow> 'w \<Rightarrow> 'w"

text \<open>A token or data whose error is dropped.\<close>

definition or_zero :: "'z \<Rightarrow> gerror + 'z \<Rightarrow> 'z" where
  "or_zero z x = (case x of Inl e \<Rightarrow> z | Inr y \<Rightarrow> y)"

text \<open>On memory backends, with the writes logged as the events \<open>ev\<close>.\<close>

definition logged_program :: "(bytes \<Rightarrow> gerror option \<Rightarrow> 'ev) \<Rightarrow> (memory_backend cworld \<times> 'ev list) program" where
  "logged_program ev =
     \<lparr>pr_fresh = (\<lambda>(w, t). (w\<lparr>cw_store := memory_new\<rparr>, t)),
      pr_new = (\<lambda>cfg. logged_lease ev (client_lease memory cfg)),
      pr_sleep = (\<lambda>d (w, t). (pause d w, t))\<rparr>"

lemma logged_program_sel [simp]:
  "pr_fresh (logged_program ev) (w, t) = (w\<lparr>cw_store := memory_new\<rparr>, t)"
  "pr_new (logged_program ev) cfg = logged_lease ev (client_lease memory cfg)"
  "pr_sleep (logged_program ev) d (w, t) = (pause d w, t)"
  by (simp_all add: logged_program_def)

section \<open>A world on pace\<close>

definition ex_on_pace :: "memory_backend cworld" where
  "ex_on_pace = ex_world\<lparr>cw_envs := (\<lambda>n. \<lparr>ae_before = [], ae_call = \<lparr>ce_ctx = None, ce_clk = (\<lambda>k. At 5),
     ce_start = At 5, ce_end = At 5\<rparr>, ae_wait = None\<rparr>)\<rparr>"

lemma ex_on_pace_ok: "on_pace 5 ex_on_pace"
  by (simp add: on_pace_def reading_def ex_on_pace_def ex_world_def)

end
