(* ===== verification/Migration_Program.thy ===== *)
theory Migration_Program
  imports Paced Json_Codec
begin

text \<open>
  The whole of \<open>examples/cross-tenant-migration/main.go\<close>: its three scenarios and \<open>main\<close>, on the
  runner and the lease client over fresh memory backends.

  A scenario returns \<open>Done None\<close> if it reaches its end, \<open>Done (Some e)\<close> if it logs \<open>e\<close> and returns, and
  \<open>Propagated\<close> if it panics, which ends the program.
\<close>

section \<open>The program\<close>

text \<open>
  \<open>ended\<close> is the error of the context if it is done when the \<open>select\<close> chooses.
\<close>

definition migrateTenant :: "(duration \<Rightarrow> 'w \<Rightarrow> 'w) \<Rightarrow> ('w \<Rightarrow> ctx_err) \<Rightarrow> 'w migrate" where
  "migrateTenant sleep ended w tenantID =
     (case ended w of
        Some err \<Rightarrow> (w, Some err)
      | None \<Rightarrow> (sleep (100 * millisecond) w, None))"

definition coordinator :: "duration \<Rightarrow> string \<Rightarrow> client_config" where
  "coordinator ttl holder = \<lparr>cf_ttl = ttl, cf_holder = ''coordinator-'' @ holder\<rparr>"

definition tenants :: "string list" where
  "tenants = [''tenant-001'', ''tenant-002'', ''tenant-003'', ''tenant-004'',
     ''tenant-005'', ''tenant-006'', ''tenant-007'', ''tenant-008'']"

text \<open>\<open>newMigrationRunner(lease, tenants, onStart).Run(ctx, "migration:schema-v2")\<close>.\<close>

definition run_coordinator ::
  "progress codec \<Rightarrow> 'w lease \<Rightarrow> 'w migrate \<Rightarrow> ('w \<Rightarrow> token \<Rightarrow> 'w) option \<Rightarrow> 'w \<Rightarrow> 'w \<times> run_result" where
  "run_coordinator codec L mt onStart w =
     (case newMigrationRunner codec L mt tenants onStart of
        Inl e \<Rightarrow> (w, Propagated)
      | Inr r \<Rightarrow> runner_run r w ''migration:schema-v2'')"

definition migration_happy_path :: "progress codec \<Rightarrow> 'w program \<Rightarrow> (ctx_used \<Rightarrow> 'w migrate) \<Rightarrow> 'w \<Rightarrow> 'w \<times> run_result" where
  "migration_happy_path codec P mt w =
     (let (w, res) = run_coordinator codec (pr_new P (coordinator (30 * second) ''A'')) (mt RenewalCtx) None w
      in if res \<noteq> Done None then (w, res)
         else run_coordinator codec (pr_new P (coordinator (30 * second) ''A2'')) (mt RenewalCtx) None w)"

text \<open>The loop of the coordinators that do not reach their end.\<close>

fun migrate_some ::
  "progress codec \<Rightarrow> 'w lease \<Rightarrow> 'w migrate \<Rightarrow> token \<Rightarrow> string list \<Rightarrow> progress \<Rightarrow> 'w \<Rightarrow> 'w \<times> progress \<times> gerror option" where
  "migrate_some codec L mt tok [] progress w = (w, progress, None)"
| "migrate_some codec L mt tok (tenantID # rest) progress w =
     (let (w, err) = mt w tenantID
      in case err of
           Some e \<Rightarrow> (w, progress, Some e)
         | None \<Rightarrow>
             let progress = progress\<lparr>mp_tenants := mp_tenants progress @ [tenantID]\<rparr>;
                 (w, err) = l_checkpoint L CallerCtx w tok (or_zero None (Encode codec progress))
             in case err of
                  Some e \<Rightarrow> (w, progress, Some e)
                | None \<Rightarrow> migrate_some codec L mt tok rest progress w)"

definition migration_crash_recovery :: "progress codec \<Rightarrow> 'w program \<Rightarrow> (ctx_used \<Rightarrow> 'w migrate) \<Rightarrow> 'w \<Rightarrow> 'w \<times> run_result" where
  "migration_crash_recovery codec P mt w =
     (let leaseB = pr_new P (coordinator (3 * second) ''B'');
          (w, acq) = l_acquire leaseB CallerCtx w ''migration:schema-v2'' [];
          (w, progress, err) = migrate_some codec leaseB (mt CallerCtx) (or_zero zero_token acq) (take 3 tenants) zero_progress w
      in case err of
           Some e \<Rightarrow> (w, Done (Some e))
         | None \<Rightarrow>
             run_coordinator codec (pr_new P (coordinator (30 * second) ''C'')) (mt RenewalCtx) None
               (pr_sleep P (4 * second) w))"

definition zombie_check :: "progress codec \<Rightarrow> 'w lease \<Rightarrow> token \<Rightarrow> progress \<Rightarrow> 'w \<Rightarrow> token \<Rightarrow> 'w" where
  "zombie_check codec zombieLease zombieToken zombieProgress w eToken =
     (let zombieProgress = zombieProgress\<lparr>mp_tenants := mp_tenants zombieProgress @ [tenants ! 2]\<rparr>
      in fst (l_checkpoint zombieLease CallerCtx w zombieToken (or_zero None (Encode codec zombieProgress))))"

definition migration_zombie_fencing :: "progress codec \<Rightarrow> 'w program \<Rightarrow> (ctx_used \<Rightarrow> 'w migrate) \<Rightarrow> 'w \<Rightarrow> 'w \<times> run_result" where
  "migration_zombie_fencing codec P mt w =
     (let leaseD = pr_new P (coordinator (3 * second) ''D'');
          (w, acq) = l_acquire leaseD CallerCtx w ''migration:schema-v2'' [];
          tokenD = or_zero zero_token acq;
          (w, progress, err) = migrate_some codec leaseD (mt CallerCtx) tokenD (take 2 tenants) zero_progress w
      in case err of
           Some e \<Rightarrow> (w, Done (Some e))
         | None \<Rightarrow>
             run_coordinator codec (pr_new P (coordinator (30 * second) ''E'')) (mt RenewalCtx)
               (Some (zombie_check codec leaseD tokenD progress)) (pr_sleep P (4 * second) w))"

definition migration_main :: "progress codec \<Rightarrow> 'w program \<Rightarrow> (ctx_used \<Rightarrow> 'w migrate) \<Rightarrow> 'w \<Rightarrow> 'w \<times> run_result list" where
  "migration_main codec P mt w =
     (let (w, r1) = migration_happy_path codec P mt (pr_fresh P w)
      in if r1 = Propagated then (w, [r1]) else
      let (w, r2) = migration_crash_recovery codec P mt (pr_fresh P w)
      in if r2 = Propagated then (w, [r1, r2]) else
      let (w, r3) = migration_zombie_fencing codec P mt (pr_fresh P w) in (w, [r1, r2, r3]))"

section \<open>The program on paced memory backends, logged\<close>

text \<open>The context's error in \<open>migrateTenant\<close>: a renewal context with a cause is cancelled, \<open>main\<close>'s never ends.\<close>

definition paced_ended :: "ctx_used \<Rightarrow> 's cworld \<Rightarrow> ctx_err" where
  "paced_ended c w = (if c = RenewalCtx \<and> cw_cause w \<noteq> None then Some CtxCanceled else None)"

definition paced_migrate :: "ctx_used \<Rightarrow> (memory_backend cworld \<times> mevent list) migrate" where
  "paced_migrate c = logged_migrate (migrateTenant pause (paced_ended c))"

text \<open>The writes that were refused.\<close>

fun refused :: "mevent list \<Rightarrow> (bytes \<times> gerror) list" where
  "refused [] = []"
| "refused (Save d (Some e) # t) = (d, e) # refused t"
| "refused (ev # t) = refused t"

lemma refused_append [simp]: "refused (t @ u) = refused t @ refused u"
  by (induction t rule: refused.induct) simp_all

lemma new_is_valid:
  "millisecond \<le> ttl \<Longrightarrow> lease_new (Some memory) (coordinator ttl h) = Inr (memory, coordinator ttl h)"
  by (simp add: lease_new_def coordinator_def minTTL_def)

lemma coordinator_sel [simp]:
  "cf_ttl (coordinator ttl h) = ttl" "cf_holder (coordinator ttl h) = ''coordinator-'' @ h"
  by (simp_all add: coordinator_def)

lemma paced_migrate_app [simp]:
  "on_pace T w \<Longrightarrow> paced_migrate c (w, t) i = ((pause (100 * millisecond) w, t @ [Migrate i None]), None)"
  by (simp add: paced_migrate_def migrateTenant_def paced_ended_def on_pace_def)

section \<open>The loops\<close>

text \<open>One tenant: migrate, wait, save.\<close>

lemma tenant_step:
  assumes "worked_on w0 i T w tok row" and "T + 2 * second \<le> ns (row_expires row)" and "2 * second \<le> cf_ttl cfg"
    and "json_ok valid codec" and "list_all valid (mp_tenants p)"
  obtains d w' row' where "Encode codec p = Inr (Some d)" "Decode codec zero_progress (Some d) = Inr p"
    "paced_migrate c (w, t) x = ((pause (100 * millisecond) w, t @ [Migrate x None]), None)"
    "l_checkpoint (logged_lease Save (client_lease memory cfg)) c' (pause (100 * millisecond) w, t') tok (Some d) =
       ((w', t' @ [Save (Some d) None]), None)"
    "worked_on w0 i (T + 100 * millisecond) w' tok row'" "row_checkpoint row' = Some d"
    "T + 100 * millisecond + cf_ttl cfg \<le> ns (row_expires row')"
    "ns (row_expires row') < T + 100 * millisecond + second + cf_ttl cfg"
proof -
  obtain d where d: "d \<noteq> []" "Encode codec p = Inr (Some d)" "Decode codec zero_progress (normalize_state (Some d)) = Inr p"
    by (rule json_ok_Encode [OF assms(4,5)])
  have norm: "normalize_state (Some d) = Some d" using d(1) by (cases d) simp_all
  have "on_pace T w" using assms(1) by (simp add: worked_on_def)
  then have mt: "paced_migrate c (w, t) x = ((pause (100 * millisecond) w, t @ [Migrate x None]), None)" by simp
  have "worked_on w0 i (T + 100 * millisecond) (pause (100 * millisecond) w) tok row"
    by (rule worked_pause [OF assms(1)]) (use assms(2) in simp)
  from worked_checkpoint [OF this d(1), of cfg c'] assms(3) obtain w' row' where w':
    "l_checkpoint (client_lease memory cfg) c' (pause (100 * millisecond) w) tok (Some d) = (w', None)"
    "worked_on w0 i (T + 100 * millisecond) w' tok row'" "row_checkpoint row' = Some d"
    "T + 100 * millisecond + cf_ttl cfg \<le> ns (row_expires row')"
    "ns (row_expires row') < T + 100 * millisecond + second + cf_ttl cfg"
    by auto
  show ?thesis by (rule that [OF d(2) d(3) [unfolded norm] mt _ w'(2-5)]) (use w'(1) in \<open>simp del: client_lease_sel\<close>)
qed

lemma migrate_loop_paced:
  assumes "worked_on w0 i T w tok row" and "T + 2 * second \<le> ns (row_expires row)" and "2 * second \<le> cf_ttl cfg"
    and "json_ok valid codec" and "list_all valid (mp_tenants p)" and "list_all valid xs"
  shows "\<exists>w' t row'. migrate_loop codec (logged_lease Save (client_lease memory cfg)) (paced_migrate c) tok M xs p (w, t0) =
      ((w', t0 @ t), \<lparr>mp_tenants = mp_tenants p @ filter (\<lambda>x. x \<notin> set M) xs\<rparr>, None) \<and>
    worked_on w0 i (T + 100 * millisecond * int (length (filter (\<lambda>x. x \<notin> set M) xs))) w' tok row' \<and>
    T + 100 * millisecond * int (length (filter (\<lambda>x. x \<notin> set M) xs)) + 2 * second \<le> ns (row_expires row') \<and>
    migrated t = filter (\<lambda>x. x \<notin> set M) xs \<and> refused t = []"
  using assms(1,2,5,6)
proof (induction xs arbitrary: p w row T t0)
  case Nil
  then show ?case by (intro exI [of _ w] exI [of _ "[]"] exI [of _ row]) (simp add: progress.equality)
next
  case (Cons x xs)
  show ?case
  proof (cases "x \<in> set M")
    case True
    then show ?thesis using Cons.IH [OF Cons.prems(1-3)] Cons.prems(4) by simp
  next
    case new: False
    let ?p = "\<lparr>mp_tenants = mp_tenants p @ [x]\<rparr>"
    have valid: "list_all valid (mp_tenants ?p)" using Cons.prems(3,4) by simp
    obtain d w1 row1 where step: "Encode codec ?p = Inr (Some d)"
      "paced_migrate c (w, t0) x = ((pause (100 * millisecond) w, t0 @ [Migrate x None]), None)"
      "l_checkpoint (logged_lease Save (client_lease memory cfg)) BackgroundCtx
         (pause (100 * millisecond) w, t0 @ [Migrate x None]) tok (Some d) =
         ((w1, (t0 @ [Migrate x None]) @ [Save (Some d) None]), None)"
      and w1: "worked_on w0 i (T + 100 * millisecond) w1 tok row1"
        "T + 100 * millisecond + cf_ttl cfg \<le> ns (row_expires row1)"
      by (rule tenant_step [OF Cons.prems(1,2) assms(3,4) valid])
    have live: "T + 100 * millisecond + 2 * second \<le> ns (row_expires row1)" using w1(2) assms(3) by simp
    have xs: "list_all valid xs" using Cons.prems(4) by simp
    from Cons.IH [OF w1(1) live valid xs, of "(t0 @ [Migrate x None]) @ [Save (Some d) None]"]
    obtain w' t row' where IH: "migrate_loop codec (logged_lease Save (client_lease memory cfg)) (paced_migrate c) tok M xs ?p
        (w1, (t0 @ [Migrate x None]) @ [Save (Some d) None]) =
        ((w', ((t0 @ [Migrate x None]) @ [Save (Some d) None]) @ t), \<lparr>mp_tenants = mp_tenants ?p @ filter (\<lambda>x. x \<notin> set M) xs\<rparr>, None)"
      "worked_on w0 i (T + 100 * millisecond + 100 * millisecond * int (length (filter (\<lambda>x. x \<notin> set M) xs))) w' tok row'"
      "T + 100 * millisecond + 100 * millisecond * int (length (filter (\<lambda>x. x \<notin> set M) xs)) + 2 * second \<le> ns (row_expires row')"
      "migrated t = filter (\<lambda>x. x \<notin> set M) xs" "refused t = []"
      by blast
    show ?thesis
    proof (intro exI conjI)
      show "migrate_loop codec (logged_lease Save (client_lease memory cfg)) (paced_migrate c) tok M (x # xs) p (w, t0) =
        ((w', t0 @ [Migrate x None, Save (Some d) None] @ t), \<lparr>mp_tenants = mp_tenants p @ filter (\<lambda>x. x \<notin> set M) (x # xs)\<rparr>, None)"
        using new step IH(1) by (simp del: logged_sel)
    qed (use IH(2-5) new in \<open>simp_all add: algebra_simps\<close>)
  qed
qed

lemma migrate_some_paced:
  assumes "worked_on w0 i T w tok row" and "T + 2 * second \<le> ns (row_expires row)" and "2 * second \<le> cf_ttl cfg"
    and "json_ok valid codec" and "list_all valid (mp_tenants p)" and "list_all valid xs" and "xs \<noteq> []"
  shows "\<exists>w' t row'. migrate_some codec (logged_lease Save (client_lease memory cfg)) (paced_migrate c) tok xs p (w, t0) =
      ((w', t0 @ t), \<lparr>mp_tenants = mp_tenants p @ xs\<rparr>, None) \<and>
    worked_on w0 i (T + 100 * millisecond * int (length xs)) w' tok row' \<and>
    ns (row_expires row') < T + 100 * millisecond * int (length xs) + second + cf_ttl cfg \<and>
    Decode codec zero_progress (row_checkpoint row') = Inr \<lparr>mp_tenants = mp_tenants p @ xs\<rparr> \<and>
    migrated t = xs \<and> refused t = []"
  using assms(1,2,5,6,7)
proof (induction xs arbitrary: p w row T t0)
  case (Cons x xs)
  let ?p = "\<lparr>mp_tenants = mp_tenants p @ [x]\<rparr>"
  have valid: "list_all valid (mp_tenants ?p)" using Cons.prems(3,4) by simp
  obtain d w1 row1 where step: "Encode codec ?p = Inr (Some d)" "Decode codec zero_progress (Some d) = Inr ?p"
    "paced_migrate c (w, t0) x = ((pause (100 * millisecond) w, t0 @ [Migrate x None]), None)"
    "l_checkpoint (logged_lease Save (client_lease memory cfg)) CallerCtx
       (pause (100 * millisecond) w, t0 @ [Migrate x None]) tok (Some d) =
       ((w1, (t0 @ [Migrate x None]) @ [Save (Some d) None]), None)"
    and w1: "worked_on w0 i (T + 100 * millisecond) w1 tok row1" "row_checkpoint row1 = Some d"
      "T + 100 * millisecond + cf_ttl cfg \<le> ns (row_expires row1)"
      "ns (row_expires row1) < T + 100 * millisecond + second + cf_ttl cfg"
    by (rule tenant_step [OF Cons.prems(1,2) assms(3,4) valid])
  show ?case
  proof (cases "xs = []")
    case True
    then show ?thesis
      using step w1
      by (intro exI [of _ w1] exI [of _ "[Migrate x None, Save (Some d) None]"] exI [of _ row1])
         (simp add: or_zero_def del: logged_sel)
  next
    case False
    have live: "T + 100 * millisecond + 2 * second \<le> ns (row_expires row1)" using w1(3) assms(3) by simp
    have xs: "list_all valid xs" using Cons.prems(4) by simp
    from Cons.IH [OF w1(1) live valid xs False, of "(t0 @ [Migrate x None]) @ [Save (Some d) None]"]
    obtain w' t row' where IH: "migrate_some codec (logged_lease Save (client_lease memory cfg)) (paced_migrate c) tok xs ?p
        (w1, (t0 @ [Migrate x None]) @ [Save (Some d) None]) =
        ((w', ((t0 @ [Migrate x None]) @ [Save (Some d) None]) @ t), \<lparr>mp_tenants = mp_tenants ?p @ xs\<rparr>, None)"
      "worked_on w0 i (T + 100 * millisecond + 100 * millisecond * int (length xs)) w' tok row'"
      "ns (row_expires row') < T + 100 * millisecond + 100 * millisecond * int (length xs) + second + cf_ttl cfg"
      "Decode codec zero_progress (row_checkpoint row') = Inr \<lparr>mp_tenants = mp_tenants ?p @ xs\<rparr>"
      "migrated t = xs" "refused t = []"
      by blast
    show ?thesis
    proof (intro exI conjI)
      show "migrate_some codec (logged_lease Save (client_lease memory cfg)) (paced_migrate c) tok (x # xs) p (w, t0) =
        ((w', t0 @ [Migrate x None, Save (Some d) None] @ t), \<lparr>mp_tenants = mp_tenants p @ x # xs\<rparr>, None)"
        using step IH(1) by (simp add: or_zero_def del: logged_sel)
    qed (use IH(2-6) in \<open>simp_all add: algebra_simps\<close>)
  qed
qed simp

section \<open>Runs of a coordinator\<close>

abbreviation schema_row :: "memory_backend cworld \<Rightarrow> row option" where
  "schema_row w \<equiv> work_row w ''migration:schema-v2''"

definition finished_with :: "int \<Rightarrow> memory_backend cworld \<Rightarrow> bytes \<Rightarrow> bool" where
  "finished_with T w st \<longleftrightarrow> on_pace T w \<and> (\<exists>row. schema_row w = Some row \<and> row_exit row = ExitRetired \<and>
     row_checkpoint row = st \<and> lapsed w row)"

lemma coordinator_runner:
  "newMigrationRunner codec L mt tenants onStart =
     Inr \<lparr>ru_lease = L, ru_fn = migration_work codec L mt tenants onStart, ru_acquire = [], ru_renewal = [],
       ru_cleanup = cleanupTimeout\<rparr>"
  by (simp add: newMigrationRunner_def NewRunner_def cleanupTimeout_def)

lemma coordinator_run:
  assumes "on_pace T w" and "\<And>r. schema_row w = Some r \<Longrightarrow> lapsed w r" and "2 * second \<le> cf_ttl cfg"
    and "json_ok valid codec" and "list_all valid tenants" and "list_all valid (mp_tenants p)"
    and prior: "cp_prev_exit (inherited (schema_row w)) = ExitNone \<and> p = zero_progress \<or>
      cp_prev_exit (inherited (schema_row w)) = ExitExpired \<and>
      Decode codec zero_progress (cp_state (inherited (schema_row w))) = Inr p"
    and start: "\<And>w1 tok row. started_with w cfg ''migration:schema-v2'' T w1 tok row \<Longrightarrow>
      \<exists>w2 u. (case onStart of None \<Rightarrow> (w1, t) | Some f \<Rightarrow> f (w1, t) tok) = (w2, t @ u) \<and>
        started_with w cfg ''migration:schema-v2'' T w2 tok row \<and> R u"
  defines "todo \<equiv> filter (\<lambda>x. x \<notin> set (mp_tenants p)) tenants"
  obtains w' u t2 d where
    "run_coordinator codec (logged_lease Save (client_lease memory cfg)) (paced_migrate RenewalCtx) onStart (w, t) =
       ((w', t @ u @ t2), Done None)"
    "R u" "migrated t2 = todo" "refused t2 = []"
    "finished_with (T + 100 * millisecond * int (length todo)) w' (Some d)" "d \<noteq> []"
    "Decode codec zero_progress (Some d) = Inr \<lparr>mp_tenants = mp_tenants p @ todo\<rparr>"
proof -
  let ?L = "logged_lease Save (client_lease memory cfg)"
  let ?T = "T + 100 * millisecond * int (length todo)"
  let ?Q = "\<lambda>t2 st row2 werr. \<exists>u t3 d. t2 = t @ u @ t3 \<and> R u \<and> migrated t3 = todo \<and> refused t3 = [] \<and> st = Some d \<and> d \<noteq> [] \<and>
    werr = Some ErrRetire \<and> Decode codec zero_progress (Some d) = Inr \<lparr>mp_tenants = mp_tenants p @ todo\<rparr>"
  let ?r = "\<lparr>ru_lease = ?L, ru_fn = migration_work codec ?L (paced_migrate RenewalCtx) tenants onStart,
    ru_acquire = [], ru_renewal = [], ru_cleanup = cleanupTimeout\<rparr>"
  have work: "\<exists>w2 t2 st werr row2. ru_fn ?r (w1, t) tok (inherited (schema_row w)) = ((w2, t2), Returned st werr) \<and>
      (werr = None \<or> werr = Some ErrRetire) \<and> st \<noteq> Some [] \<and> worked_on w ''migration:schema-v2'' ?T w2 tok row2 \<and> ?Q t2 st row2 werr"
    if started: "started_with w cfg ''migration:schema-v2'' T w1 tok row" for w1 tok row
  proof -
    obtain w2 u where on: "(case onStart of None \<Rightarrow> (w1, t) | Some f \<Rightarrow> f (w1, t) tok) = (w2, t @ u)"
      and w2: "started_with w cfg ''migration:schema-v2'' T w2 tok row" and u: "R u"
      using start [OF started] by blast
    have live: "worked_on w ''migration:schema-v2'' T w2 tok row" "T + 2 * second \<le> ns (row_expires row)"
      using started_worked [OF w2] w2 assms(3) by (auto simp: started_with_def)
    from migrate_loop_paced [OF live assms(3,4,6,5), where c = RenewalCtx and M = "mp_tenants p" and ?t0.0 = "t @ u"]
    obtain w3 t3 row3 where loop: "migrate_loop codec ?L (paced_migrate RenewalCtx) tok (mp_tenants p) tenants p (w2, t @ u) =
        ((w3, (t @ u) @ t3), \<lparr>mp_tenants = mp_tenants p @ todo\<rparr>, None)"
      and w3: "worked_on w ''migration:schema-v2'' ?T w3 tok row3" "migrated t3 = todo" "refused t3 = []"
      unfolding todo_def by blast
    have valid: "list_all valid (mp_tenants \<lparr>mp_tenants = mp_tenants p @ todo\<rparr>)"
      using assms(5,6) by (auto simp: list_all_iff todo_def)
    obtain d where d: "d \<noteq> []" "Encode codec \<lparr>mp_tenants = mp_tenants p @ todo\<rparr> = Inr (Some d)"
      "Decode codec zero_progress (normalize_state (Some d)) = Inr \<lparr>mp_tenants = mp_tenants p @ todo\<rparr>"
      by (rule json_ok_Encode [OF assms(4) valid])
    have norm: "normalize_state (Some d) = Some d" using d(1) by (cases d) simp_all
    have "ru_fn ?r (w1, t) tok (inherited (schema_row w)) = ((w3, (t @ u) @ t3), Returned (Some d) (Some ErrRetire))"
      using prior on loop d(2) by (auto simp: migration_work_def migrateTenants_def Let_def)
    then show ?thesis using w3 u d(1) d(3) [unfolded norm]
      by (intro exI [of _ w3] exI [of _ "(t @ u) @ t3"] exI [of _ "Some d"] exI [of _ "Some ErrRetire"] exI [of _ row3]) auto
  qed
  have ttl: "second \<le> cf_ttl cfg" using assms(3) by simp
  show ?thesis
  proof (rule paced_run [where r = ?r and ev = Save and cfg = cfg and t = t and Q = ?Q, OF assms(1) _ assms(2) _ _ ttl work])
    fix w' t2 st row2 werr row'
    assume run: "runner_run ?r (w, t) ''migration:schema-v2'' =
        ((w', t2 @ (case st of None \<Rightarrow> [] | Some d \<Rightarrow> [Save (Some d) None])), Done None)"
      and Q: "?Q t2 st row2 werr" and w': "on_pace ?T w'" "schema_row w' = Some row'"
        "row_exit row' = (if werr = None then ExitFinished else ExitRetired)"
        "row_checkpoint row' = (case st of None \<Rightarrow> row_checkpoint row2 | Some d \<Rightarrow> Some d)"
        "lapsed w' row'"
    from Q obtain u t3 d where q: "t2 = t @ u @ t3" "R u" "migrated t3 = todo" "refused t3 = []" "st = Some d" "d \<noteq> []"
      "werr = Some ErrRetire" "Decode codec zero_progress (Some d) = Inr \<lparr>mp_tenants = mp_tenants p @ todo\<rparr>"
      by blast
    have "run_coordinator codec ?L (paced_migrate RenewalCtx) onStart (w, t) =
        ((w', t @ u @ (t3 @ [Save (Some d) None])), Done None)"
      using run q(1,5) by (simp add: run_coordinator_def coordinator_runner)
    then show ?thesis
      by (rule that) (use q w' in \<open>auto simp: finished_with_def\<close>)
  qed simp_all
qed

text \<open>A coordinator that finds the migration retired keeps it so.\<close>

lemma retired_run:
  assumes "on_pace T w" and "schema_row w = Some r" "lapsed w r" "row_exit r = ExitRetired" "row_checkpoint r = Some d"
    and "d \<noteq> []" and "second \<le> cf_ttl cfg"
  obtains w' where "run_coordinator codec (logged_lease Save (client_lease memory cfg)) mt None (w, t) =
      ((w', t @ [Save (Some d) None]), Done None)" "finished_with T w' (Some d)"
proof -
  let ?L = "logged_lease Save (client_lease memory cfg)"
  let ?r = "\<lparr>ru_lease = ?L, ru_fn = migration_work codec ?L mt tenants None,
    ru_acquire = [], ru_renewal = [], ru_cleanup = cleanupTimeout\<rparr>"
  let ?Q = "\<lambda>t2 st row2 werr. t2 = t \<and> st = Some d \<and> werr = Some ErrRetire"
  have work: "\<exists>w2 t2 st werr row2. ru_fn ?r (w1, t) tok (inherited (schema_row w)) = ((w2, t2), Returned st werr) \<and>
      (werr = None \<or> werr = Some ErrRetire) \<and> st \<noteq> Some [] \<and> worked_on w ''migration:schema-v2'' T w2 tok row2 \<and> ?Q t2 st row2 werr"
    if started: "started_with w cfg ''migration:schema-v2'' T w1 tok row" for w1 tok row
    using started_worked [OF started assms(7)] assms(2,4-6)
    by (intro exI [of _ w1] exI [of _ t] exI [of _ "Some d"] exI [of _ "Some ErrRetire"] exI [of _ row])
       (auto simp: migration_work_def inherited_def)
  show ?thesis
  proof (rule paced_run [where r = ?r and ev = Save and cfg = cfg and t = t and Q = ?Q, OF assms(1) _ _ _ _ assms(7) work])
    fix w' t2 st row2 werr row'
    assume "runner_run ?r (w, t) ''migration:schema-v2'' =
        ((w', t2 @ (case st of None \<Rightarrow> [] | Some d \<Rightarrow> [Save (Some d) None])), Done None)"
      "?Q t2 st row2 werr" "on_pace T w'" "schema_row w' = Some row'"
      "row_exit row' = (if werr = None then ExitFinished else ExitRetired)"
      "row_checkpoint row' = (case st of None \<Rightarrow> row_checkpoint row2 | Some d \<Rightarrow> Some d)" "lapsed w' row'"
    then show ?thesis
      by (intro that [of w']) (auto simp: run_coordinator_def coordinator_runner finished_with_def)
  qed (use assms(2,3) in simp_all)
qed

section \<open>The scenarios\<close>

lemma tenants_split: "distinct tenants" "length tenants = 8"
  "filter (\<lambda>x. x \<notin> set (take k tenants)) tenants = drop k tenants"
proof -
  show d: "distinct tenants" and "length tenants = 8" by (simp_all add: tenants_def)
  show "filter (\<lambda>x. x \<notin> set (take k tenants)) tenants = drop k tenants" by (rule filter_not_taken [OF d])
qed

lemma happy_path_runs:
  assumes "on_pace T w" and "schema_row w = None" and "json_ok valid codec" and "list_all valid tenants"
  obtains w' t' d where "migration_happy_path codec (logged_program Save) paced_migrate (w, t) = ((w', t @ t'), Done None)"
    "migrated t' = tenants" "refused t' = []" "finished_with (T + 800 * millisecond) w' d"
    "Decode codec zero_progress d = Inr \<lparr>mp_tenants = tenants\<rparr>"
proof -
  obtain w1 u t2 d where run: "run_coordinator codec (logged_lease Save (client_lease memory (coordinator (30 * second) ''A'')))
      (paced_migrate RenewalCtx) None (w, t) = ((w1, t @ u @ t2), Done None)" "u = []"
    and t2: "migrated t2 = tenants" "refused t2 = []" "finished_with (T + 800 * millisecond) w1 (Some d)" "d \<noteq> []"
      "Decode codec zero_progress (Some d) = Inr \<lparr>mp_tenants = tenants\<rparr>"
    by (rule coordinator_run [where p = zero_progress and onStart = None and R = "\<lambda>u. u = []" and t = t
          and cfg = "coordinator (30 * second) ''A''", OF assms(1) _ _ assms(3,4)])
       (use assms(2) tenants_split(2) in \<open>auto simp: zero_progress_def inherited_def zero_checkpoint_def\<close>)
  obtain r where "schema_row w1 = Some r" "lapsed w1 r" "row_exit r = ExitRetired" "row_checkpoint r = Some d"
    "on_pace (T + 800 * millisecond) w1"
    using t2(3) by (auto simp: finished_with_def)
  then obtain w2 where "run_coordinator codec (logged_lease Save (client_lease memory (coordinator (30 * second) ''A2'')))
      (paced_migrate RenewalCtx) None (w1, t @ u @ t2) = ((w2, (t @ u @ t2) @ [Save (Some d) None]), Done None)"
    "finished_with (T + 800 * millisecond) w2 (Some d)"
    using retired_run [of "T + 800 * millisecond" w1 r d "coordinator (30 * second) ''A2''" codec _ "t @ u @ t2"] t2(4) by auto
  then show ?thesis
    using run t2 by (intro that [of w2 "t2 @ [Save (Some d) None]" "Some d"]) (simp_all add: migration_happy_path_def)
qed

text \<open>A coordinator that stops after \<open>k\<close> tenants, and the four seconds after it.\<close>

lemma crashed_coordinator:
  assumes "on_pace T w" and "schema_row w = None" and "json_ok valid codec" and "list_all valid tenants" and "0 < k" "k \<le> 8"
  obtains w1 tok w2 t2 row where
    "l_acquire (client_lease memory (coordinator (3 * second) h)) CallerCtx w ''migration:schema-v2'' [] = (w1, Inr tok)"
    "migrate_some codec (logged_lease Save (client_lease memory (coordinator (3 * second) h))) (paced_migrate CallerCtx) tok
       (take k tenants) zero_progress (w1, t) = ((w2, t @ t2), \<lparr>mp_tenants = take k tenants\<rparr>, None)"
    "migrated t2 = take k tenants" "refused t2 = []"
    "on_pace (T + 100 * millisecond * int k + 4 * second) (pause (4 * second) w2)"
    "schema_row w2 = Some row" "lapsed (pause (4 * second) w2) row" "row_exit row = ExitNone"
    "Decode codec zero_progress (row_checkpoint row) = Inr \<lparr>mp_tenants = take k tenants\<rparr>"
    "tk_work tok = ''migration:schema-v2''" "tk_token tok = seq (cw_store w2)"
proof -
  let ?cfg = "coordinator (3 * second) h"
  obtain w1 tok r where acq: "l_acquire (client_lease memory ?cfg) CallerCtx w ''migration:schema-v2'' [] = (w1, Inr tok)"
    and w1: "worked_on w ''migration:schema-v2'' T w1 tok r" "T + 2 * second \<le> ns (row_expires r)"
    and tok: "tk_work tok = ''migration:schema-v2''" "tk_token tok = seq (cw_store w) + 1"
    by (rule paced_acquire [OF assms(1), of "''migration:schema-v2''" ?cfg CallerCtx])
       (use assms(2) in \<open>auto simp: worked_on_def\<close>)
  have valid: "list_all valid (mp_tenants zero_progress)" "list_all valid (take k tenants)" "take k tenants \<noteq> []"
    using assms(4,5) tenants_split(2) by (auto simp: zero_progress_def list_all_iff dest: in_set_takeD)
  have len: "length (take k tenants) = k" using assms(6) tenants_split(2) by simp
  have ttl: "2 * second \<le> cf_ttl ?cfg" by simp
  from migrate_some_paced [OF w1 ttl assms(3) valid, of CallerCtx t]
  obtain w2 t2 row where run: "migrate_some codec (logged_lease Save (client_lease memory ?cfg)) (paced_migrate CallerCtx) tok
       (take k tenants) zero_progress (w1, t) = ((w2, t @ t2), \<lparr>mp_tenants = take k tenants\<rparr>, None)"
    and w2: "worked_on w ''migration:schema-v2'' (T + 100 * millisecond * int k) w2 tok row"
      "ns (row_expires row) < T + 100 * millisecond * int k + second + 3 * second"
      "Decode codec zero_progress (row_checkpoint row) = Inr \<lparr>mp_tenants = take k tenants\<rparr>"
    and t2: "migrated t2 = take k tenants" "refused t2 = []"
    unfolding len by (auto simp: zero_progress_def)
  have paced: "on_pace (T + 100 * millisecond * int k + 4 * second) (pause (4 * second) w2)"
    by (rule paced_pause) (use w2(1) in \<open>simp add: worked_on_def\<close>)
  show ?thesis
    by (rule that [OF acq run t2 paced _ lapsed_early [OF paced] _ w2(3) tok(1)])
       (use w2(1,2) tok in \<open>auto simp: worked_on_def holds_def\<close>)
qed

lemma crash_recovery_runs:
  assumes "on_pace T w" and "schema_row w = None" and "json_ok valid codec" and "list_all valid tenants"
  obtains w' t' d where "migration_crash_recovery codec (logged_program Save) paced_migrate (w, t) = ((w', t @ t'), Done None)"
    "migrated t' = tenants" "refused t' = []" "finished_with (T + 4800 * millisecond) w' d"
    "Decode codec zero_progress d = Inr \<lparr>mp_tenants = tenants\<rparr>"
proof -
  obtain w1 tok w2 t2 row where B: "l_acquire (client_lease memory (coordinator (3 * second) ''B'')) CallerCtx w ''migration:schema-v2'' [] =
      (w1, Inr tok)"
    "migrate_some codec (logged_lease Save (client_lease memory (coordinator (3 * second) ''B''))) (paced_migrate CallerCtx) tok
       (take 3 tenants) zero_progress (w1, t) = ((w2, t @ t2), \<lparr>mp_tenants = take 3 tenants\<rparr>, None)"
    "migrated t2 = take 3 tenants" "refused t2 = []"
    and w2: "on_pace (T + 100 * millisecond * int 3 + 4 * second) (pause (4 * second) w2)" "schema_row w2 = Some row"
      "lapsed (pause (4 * second) w2) row" "row_exit row = ExitNone"
      "Decode codec zero_progress (row_checkpoint row) = Inr \<lparr>mp_tenants = take 3 tenants\<rparr>"
    by (rule crashed_coordinator [OF assms, of 3 "''B''" t]) simp_all
  have valid: "list_all valid (mp_tenants \<lparr>mp_tenants = take 3 tenants\<rparr>)"
    using assms(4) by (auto simp: list_all_iff dest: in_set_takeD)
  obtain w3 u t3 d where "run_coordinator codec (logged_lease Save (client_lease memory (coordinator (30 * second) ''C'')))
      (paced_migrate RenewalCtx) None (pause (4 * second) w2, t @ t2) = ((w3, (t @ t2) @ u @ t3), Done None)" "u = []"
    "migrated t3 = drop 3 tenants" "refused t3 = []" "finished_with (T + 4800 * millisecond) w3 (Some d)" "d \<noteq> []"
    "Decode codec zero_progress (Some d) = Inr \<lparr>mp_tenants = take 3 tenants @ drop 3 tenants\<rparr>"
    by (rule coordinator_run [where p = "\<lparr>mp_tenants = take 3 tenants\<rparr>" and onStart = None and R = "\<lambda>u. u = []"
          and t = "t @ t2" and cfg = "coordinator (30 * second) ''C''", OF w2(1) _ _ assms(3,4) valid])
       (use w2 tenants_split(2) in \<open>auto simp: inherited_def tenants_split(3) add.commute\<close>)
  then show ?thesis
    using B by (intro that [of w3 "t2 @ t3" "Some d"]) (simp_all add: migration_crash_recovery_def or_zero_def)
qed

lemma zombie_refused:
  assumes "started_with w cfg ''migration:schema-v2'' T w1 tok row" and "tk_work zombie = ''migration:schema-v2''"
    and "tk_token zombie = seq (cw_store w)" and "json_ok valid codec" and "list_all valid tenants"
  shows "\<exists>w2 u. zombie_check codec (logged_lease Save (client_lease memory cfg')) zombie \<lparr>mp_tenants = take 2 tenants\<rparr> (w1, t) tok =
      (w2, t @ u) \<and> started_with w cfg ''migration:schema-v2'' T w2 tok row \<and>
    (\<exists>d e. u = [Save d (Some e)] \<and> errors_is e ErrFenced \<and> Encode codec \<lparr>mp_tenants = take 3 tenants\<rparr> = Inr d)"
proof -
  have valid: "list_all valid (mp_tenants \<lparr>mp_tenants = take 3 tenants\<rparr>)"
    using assms(5) by (auto simp: list_all_iff dest: in_set_takeD)
  obtain d where d: "Encode codec \<lparr>mp_tenants = take 3 tenants\<rparr> = Inr (Some d)"
    by (rule json_ok_Encode [OF assms(4) valid])
  have take3: "take 2 tenants @ [tenants ! 2] = take 3 tenants" by (simp add: tenants_def)
  have "on_pace T w1" "work_row w1 (tk_work zombie) = Some row" "row_token row \<noteq> tk_token zombie"
    using assms(1-3) by (auto simp: started_with_def holds_def held_by_def toRecord_def)
  then obtain w2 e where "l_checkpoint (client_lease memory cfg') CallerCtx w1 zombie (Some d) = (w2, Some e)"
    "errors_is e ErrFenced" "on_pace T w2" "cw_store w2 = cw_store w1"
    by (rule paced_fenced)
  then show ?thesis
    using assms(1) d
    by (intro exI [of _ w2] exI [of _ "[Save (Some d) (Some e)]"])
       (auto simp: zombie_check_def take3 or_zero_def started_with_def holds_def simp del: client_lease_sel)
qed

lemma zombie_fencing_runs:
  assumes "on_pace T w" and "schema_row w = None" and "json_ok valid codec" and "list_all valid tenants"
  obtains w' t' d d3 e where "migration_zombie_fencing codec (logged_program Save) paced_migrate (w, t) = ((w', t @ t'), Done None)"
    "migrated t' = tenants" "refused t' = [(d3, e)]" "errors_is e ErrFenced" "Encode codec \<lparr>mp_tenants = take 3 tenants\<rparr> = Inr d3"
    "finished_with (T + 4800 * millisecond) w' d" "Decode codec zero_progress d = Inr \<lparr>mp_tenants = tenants\<rparr>"
proof -
  let ?L = "logged_lease Save (client_lease memory (coordinator (3 * second) ''D''))"
  let ?R = "\<lambda>u. \<exists>d e. u = [Save d (Some e)] \<and> errors_is e ErrFenced \<and> Encode codec \<lparr>mp_tenants = take 3 tenants\<rparr> = Inr d"
  obtain w1 zombie w2 t2 row where D: "l_acquire (client_lease memory (coordinator (3 * second) ''D'')) CallerCtx w ''migration:schema-v2'' [] =
      (w1, Inr zombie)"
    "migrate_some codec ?L (paced_migrate CallerCtx) zombie (take 2 tenants) zero_progress (w1, t) =
      ((w2, t @ t2), \<lparr>mp_tenants = take 2 tenants\<rparr>, None)"
    "migrated t2 = take 2 tenants" "refused t2 = []"
    and w2: "on_pace (T + 100 * millisecond * int 2 + 4 * second) (pause (4 * second) w2)" "schema_row w2 = Some row"
      "lapsed (pause (4 * second) w2) row" "row_exit row = ExitNone"
      "Decode codec zero_progress (row_checkpoint row) = Inr \<lparr>mp_tenants = take 2 tenants\<rparr>"
    and zombie: "tk_work zombie = ''migration:schema-v2''" "tk_token zombie = seq (cw_store w2)"
    by (rule crashed_coordinator [OF assms, of 2 "''D''" t]) simp_all
  have valid: "list_all valid (mp_tenants \<lparr>mp_tenants = take 2 tenants\<rparr>)"
    using assms(4) by (auto simp: list_all_iff dest: in_set_takeD)
  have check: "\<exists>w4 u. (case Some (zombie_check codec ?L zombie \<lparr>mp_tenants = take 2 tenants\<rparr>) of None \<Rightarrow> (w3, t @ t2)
        | Some f \<Rightarrow> f (w3, t @ t2) tok) = (w4, (t @ t2) @ u) \<and>
      started_with (pause (4 * second) w2) (coordinator (30 * second) ''E'') ''migration:schema-v2''
        (T + 100 * millisecond * int 2 + 4 * second) w4 tok row \<and> ?R u"
    if "started_with (pause (4 * second) w2) (coordinator (30 * second) ''E'') ''migration:schema-v2''
      (T + 100 * millisecond * int 2 + 4 * second) w3 tok row" for w3 tok row
    using zombie_refused [where cfg' = "coordinator (3 * second) ''D''" and t = "t @ t2", OF that zombie(1) _ assms(3,4)] zombie(2)
    by simp
  obtain w3 u t3 d where "run_coordinator codec (logged_lease Save (client_lease memory (coordinator (30 * second) ''E'')))
      (paced_migrate RenewalCtx) (Some (zombie_check codec ?L zombie \<lparr>mp_tenants = take 2 tenants\<rparr>))
      (pause (4 * second) w2, t @ t2) = ((w3, (t @ t2) @ u @ t3), Done None)" "?R u"
    "migrated t3 = drop 2 tenants" "refused t3 = []" "finished_with (T + 4800 * millisecond) w3 (Some d)" "d \<noteq> []"
    "Decode codec zero_progress (Some d) = Inr \<lparr>mp_tenants = take 2 tenants @ drop 2 tenants\<rparr>"
    by (rule coordinator_run [where p = "\<lparr>mp_tenants = take 2 tenants\<rparr>" and R = ?R and t = "t @ t2"
          and cfg = "coordinator (30 * second) ''E''", OF w2(1) _ _ assms(3,4) valid _ check])
       (use w2 tenants_split(2) in \<open>auto simp: inherited_def tenants_split(3) add.commute\<close>)
  moreover from this(2) obtain d3 e where "u = [Save d3 (Some e)]" "errors_is e ErrFenced"
    "Encode codec \<lparr>mp_tenants = take 3 tenants\<rparr> = Inr d3"
    by blast
  ultimately show ?thesis
    using D by (intro that [of w3 "t2 @ u @ t3" d3 e "Some d"]) (simp_all add: migration_zombie_fencing_def or_zero_def)
qed

lemma migration_main_runs:
  assumes "on_pace T w" and "json_ok valid codec" and "list_all valid tenants"
  shows "\<exists>w' t d e. migration_main codec (logged_program Save) paced_migrate (w, []) =
      ((w', t), [Done None, Done None, Done None]) \<and>
    migrated t = tenants @ tenants @ tenants \<and> refused t = [(d, e)] \<and> errors_is e ErrFenced \<and>
    Encode codec \<lparr>mp_tenants = take 3 tenants\<rparr> = Inr d \<and> on_pace (T + 10400 * millisecond) w' \<and>
    cp_prev_exit (inherited (schema_row w')) = ExitRetired \<and>
    Decode codec zero_progress (cp_state (inherited (schema_row w'))) = Inr \<lparr>mp_tenants = tenants\<rparr>"
proof -
  let ?P = "logged_program Save"
  have fresh: "schema_row (w\<lparr>cw_store := memory_new\<rparr>) = None" for w by (simp add: mem_view_def memory_new_def)
  have "on_pace T (w\<lparr>cw_store := memory_new\<rparr>)" using assms(1) by simp
  then obtain w1 t1 d1 where s1: "migration_happy_path codec ?P paced_migrate (w\<lparr>cw_store := memory_new\<rparr>, []) = ((w1, [] @ t1), Done None)"
    "migrated t1 = tenants" "refused t1 = []" "finished_with (T + 800 * millisecond) w1 d1"
    by (rule happy_path_runs [OF _ fresh assms(2,3)])
  then have "on_pace (T + 800 * millisecond) (w1\<lparr>cw_store := memory_new\<rparr>)" by (simp add: finished_with_def)
  then obtain w2 t2 d2 where s2: "migration_crash_recovery codec ?P paced_migrate (w1\<lparr>cw_store := memory_new\<rparr>, t1) = ((w2, t1 @ t2), Done None)"
    "migrated t2 = tenants" "refused t2 = []" "finished_with (T + 800 * millisecond + 4800 * millisecond) w2 d2"
    by (rule crash_recovery_runs [OF _ fresh assms(2,3)])
  then have "on_pace (T + 800 * millisecond + 4800 * millisecond) (w2\<lparr>cw_store := memory_new\<rparr>)" by (simp add: finished_with_def)
  then obtain w3 t3 d3 d e where s3: "migration_zombie_fencing codec ?P paced_migrate (w2\<lparr>cw_store := memory_new\<rparr>, t1 @ t2) =
      ((w3, (t1 @ t2) @ t3), Done None)"
    "migrated t3 = tenants" "refused t3 = [(d, e)]" "errors_is e ErrFenced" "Encode codec \<lparr>mp_tenants = take 3 tenants\<rparr> = Inr d"
    "finished_with (T + 800 * millisecond + 4800 * millisecond + 4800 * millisecond) w3 d3"
    "Decode codec zero_progress d3 = Inr \<lparr>mp_tenants = tenants\<rparr>"
    by (rule zombie_fencing_runs [OF _ fresh assms(2,3)])
  have "migration_main codec ?P paced_migrate (w, []) = ((w3, t1 @ t2 @ t3), [Done None, Done None, Done None])"
    using s1(1) s2(1) s3(1) by (simp add: migration_main_def)
  then show ?thesis
    using s1(2,3) s2(2,3) s3
    by (intro exI [of _ w3] exI [of _ "t1 @ t2 @ t3"] exI [of _ d] exI [of _ e])
       (auto simp: finished_with_def inherited_def add.commute)
qed

section \<open>Property\<close>

text \<open>
  C19. The program runs to its end. On a host that is quick besides its sleeps, all three scenarios of
  \<open>main\<close> complete: in each one every tenant is migrated exactly once and in order, across the
  retirement, the crash after three tenants and the coordinator that was stuck after two; of all writes
  exactly one is refused, the zombie's cursor with a third tenant, with \<open>ErrFenced\<close>; and the migration
  ends retired, its stored JSON decoding to the full cursor. The sleeps add up to 10.4 seconds.
\<close>

theorem migration_completes:
  assumes "on_pace T w"
  shows "\<exists>w' t d e. migration_main progress_codec (logged_program Save) paced_migrate (w, []) =
      ((w', t), [Done None, Done None, Done None]) \<and>
    migrated t = tenants @ tenants @ tenants \<and> refused t = [(d, e)] \<and> errors_is e ErrFenced \<and>
    Encode progress_codec \<lparr>mp_tenants = take 3 tenants\<rparr> = Inr d \<and> on_pace (T + 10400 * millisecond) w' \<and>
    cp_prev_exit (inherited (schema_row w')) = ExitRetired \<and>
    Decode progress_codec zero_progress (cp_state (inherited (schema_row w'))) = Inr \<lparr>mp_tenants = tenants\<rparr>"
proof (rule migration_main_runs [OF assms progress_json_ok])
  show "list_all valid_utf8 tenants" by (auto simp: list_all_iff tenants_def intro!: ascii_valid simp del: valid_utf8.simps)
qed

theorem migration_completes_witness:
  "\<exists>w' t. migration_main progress_codec (logged_program Save) paced_migrate (ex_on_pace, []) =
     ((w', t), [Done None, Done None, Done None]) \<and> length (migrated t) = 24 \<and> length (refused t) = 1"
  using migration_completes [OF ex_on_pace_ok] by (force simp: tenants_split(2))

end
