(* ===== verification/Cancellation_Program.thy ===== *)
theory Cancellation_Program
  imports Paced Json_Codec
begin

text \<open>
  The whole of \<open>examples/subscription-cancellation/main.go\<close>: its three scenarios and \<open>main\<close>, on the
  runner and the lease client over one memory backend. Outcomes are as in \<open>Migration_Program\<close>.
\<close>

section \<open>The program\<close>

definition cancel_worker :: "duration \<Rightarrow> string \<Rightarrow> client_config" where
  "cancel_worker ttl holder = \<lparr>cf_ttl = ttl, cf_holder = ''worker-'' @ holder\<rparr>"

text \<open>The four effects sleep and log.\<close>

definition timed_effects :: "(duration \<Rightarrow> 'w \<Rightarrow> 'w) \<Rightarrow> 'w effects" where
  "timed_effects sleep k w = sleep (100 * millisecond) w"

definition run_worker :: "'w lease \<Rightarrow> 'w work_fn \<Rightarrow> string \<Rightarrow> 'w \<Rightarrow> 'w \<times> run_result" where
  "run_worker L fn workID w =
     (case newCancelRunner L fn of
        Inl e \<Rightarrow> (w, Propagated)
      | Inr r \<Rightarrow> runner_run r w workID)"

definition cancellation_happy_path :: "cancellation codec \<Rightarrow> 'w program \<Rightarrow> 'w effects \<Rightarrow> 'w \<Rightarrow> 'w \<times> run_result" where
  "cancellation_happy_path codec P eff w =
     (let L = pr_new P (cancel_worker (30 * second) ''A'')
      in run_worker L (cancel_work codec L eff) ''cancel:tenant-alpha'' w)"

definition cancellation_crash_recovery :: "cancellation codec \<Rightarrow> 'w program \<Rightarrow> 'w effects \<Rightarrow> 'w \<Rightarrow> 'w \<times> run_result" where
  "cancellation_crash_recovery codec P eff w =
     (let leaseB = pr_new P (cancel_worker (3 * second) ''B'');
          (w, acq) = l_acquire leaseB CallerCtx w ''cancel:tenant-beta'' [];
          w = eff CancelBilling w;
          data = or_zero None (Encode codec (zero_cancellation\<lparr>BillingCancelled := True\<rparr>));
          (w, err) = l_checkpoint leaseB CallerCtx w (or_zero zero_token acq) data
      in case err of
           Some e \<Rightarrow> (w, Done (Some e))
         | None \<Rightarrow>
             let leaseC = pr_new P (cancel_worker (30 * second) ''C'')
             in run_worker leaseC (resume_work codec leaseC eff) ''cancel:tenant-beta'' (pr_sleep P (4 * second) w))"

definition cancellation_zombie_fencing :: "cancellation codec \<Rightarrow> 'w program \<Rightarrow> 'w effects \<Rightarrow> 'w \<Rightarrow> 'w \<times> run_result" where
  "cancellation_zombie_fencing codec P eff w =
     (let leaseD = pr_new P (cancel_worker (3 * second) ''D'');
          (w, acq) = l_acquire leaseD CallerCtx w ''cancel:tenant-gamma'' [];
          leaseE = pr_new P (cancel_worker (30 * second) ''E'')
      in run_worker leaseE (fencing_work codec leaseE leaseD (or_zero zero_token acq) eff) ''cancel:tenant-gamma''
           (pr_sleep P (4 * second) w))"

definition cancellation_main :: "cancellation codec \<Rightarrow> 'w program \<Rightarrow> 'w effects \<Rightarrow> 'w \<Rightarrow> 'w \<times> run_result list" where
  "cancellation_main codec P eff w =
     (let (w, r1) = cancellation_happy_path codec P eff (pr_fresh P w)
      in if r1 = Propagated then (w, [r1]) else
      let (w, r2) = cancellation_crash_recovery codec P eff w
      in if r2 = Propagated then (w, [r1, r2]) else
      let (w, r3) = cancellation_zombie_fencing codec P eff w in (w, [r1, r2, r3]))"

section \<open>The steps on pace\<close>

definition paced_effects :: "(memory_backend cworld \<times> cevent list) effects" where
  "paced_effects = logged_effects (timed_effects pause)"

fun refusals :: "cevent list \<Rightarrow> (bytes \<times> gerror) list" where
  "refusals [] = []"
| "refusals (Saved d (Some e) # t) = (d, e) # refusals t"
| "refusals (ev # t) = refusals t"

lemma refusals_append [simp]: "refusals (t @ u) = refusals t @ refusals u"
  by (induction t rule: refusals.induct) simp_all

lemma cancel_worker_sel [simp]:
  "cf_ttl (cancel_worker ttl h) = ttl" "cf_holder (cancel_worker ttl h) = ''worker-'' @ h"
  by (simp_all add: cancel_worker_def)

lemma cancel_new_is_valid:
  "millisecond \<le> ttl \<Longrightarrow> lease_new (Some memory) (cancel_worker ttl h) = Inr (memory, cancel_worker ttl h)"
  by (simp add: lease_new_def cancel_worker_def minTTL_def)

lemma paced_effects_app [simp]: "paced_effects k (w, t) = (pause (100 * millisecond) w, t @ [Effect k])"
  by (simp add: paced_effects_def logged_effects_def timed_effects_def)

lemma flags_encoded:
  obtains d where "d \<noteq> []" "Encode cancellation_codec p = Inr (Some d)" "Decode cancellation_codec zero_cancellation (Some d) = Inr p"
  using cancellation_roundtrip [of p zero_cancellation] by (auto simp: Encode_def Decode_def)

text \<open>One effect and its checkpoint.\<close>

lemma step_on_pace:
  assumes "worked_on w0 i T w tok row" and "T + 2 * second \<le> ns (row_expires row)" and "2 * second \<le> cf_ttl cfg"
  obtains d w' row' where "Encode cancellation_codec p = Inr (Some d)"
    "Decode cancellation_codec zero_cancellation (Some d) = Inr p"
    "l_checkpoint (logged_lease Saved (client_lease memory cfg)) c (pause (100 * millisecond) w, t) tok (Some d) =
       ((w', t @ [Saved (Some d) None]), None)"
    "worked_on w0 i (T + 100 * millisecond) w' tok row'" "row_checkpoint row' = Some d"
    "T + 100 * millisecond + cf_ttl cfg \<le> ns (row_expires row')"
    "ns (row_expires row') < T + 100 * millisecond + second + cf_ttl cfg"
proof -
  obtain d where d: "d \<noteq> []" "Encode cancellation_codec p = Inr (Some d)"
    "Decode cancellation_codec zero_cancellation (Some d) = Inr p"
    by (rule flags_encoded)
  have "worked_on w0 i (T + 100 * millisecond) (pause (100 * millisecond) w) tok row"
    by (rule worked_pause [OF assms(1)]) (use assms(2) in simp)
  from worked_checkpoint [OF this d(1), of cfg c] assms(3) obtain w' row' where w':
    "l_checkpoint (client_lease memory cfg) c (pause (100 * millisecond) w) tok (Some d) = (w', None)"
    "worked_on w0 i (T + 100 * millisecond) w' tok row'" "row_checkpoint row' = Some d"
    "T + 100 * millisecond + cf_ttl cfg \<le> ns (row_expires row')"
    "ns (row_expires row') < T + 100 * millisecond + second + cf_ttl cfg"
    by auto
  show ?thesis by (rule that [OF d(2,3) _ w'(2-5)]) (use w'(1) in \<open>simp del: client_lease_sel\<close>)
qed

lemma run_steps_on_pace:
  assumes "worked_on w0 i T w tok row" and "T + 2 * second \<le> ns (row_expires row)" and "2 * second \<le> cf_ttl cfg"
  shows "\<exists>w' t row'. run_steps cancellation_codec (logged_lease Saved (client_lease memory cfg)) tok paced_effects ks p (w, t0) =
      ((w', t0 @ t), Returned None None) \<and>
    worked_on w0 i (T + 100 * millisecond * int (length ks)) w' tok row' \<and> effects_of t = ks \<and> refusals t = [] \<and>
    (ks \<noteq> [] \<longrightarrow> Decode cancellation_codec zero_cancellation (row_checkpoint row') = Inr (fold set_flag ks p))"
  using assms(1,2)
proof (induction ks arbitrary: p w row T t0)
  case Nil
  then show ?case by (intro exI [of _ w] exI [of _ "[]"] exI [of _ row]) simp
next
  case (Cons k ks)
  obtain d w1 row1 where step: "Encode cancellation_codec (set_flag k p) = Inr (Some d)"
    "Decode cancellation_codec zero_cancellation (Some d) = Inr (set_flag k p)"
    "l_checkpoint (logged_lease Saved (client_lease memory cfg)) RenewalCtx
       (pause (100 * millisecond) w, t0 @ [Effect k]) tok (Some d) = ((w1, (t0 @ [Effect k]) @ [Saved (Some d) None]), None)"
    and w1: "worked_on w0 i (T + 100 * millisecond) w1 tok row1" "row_checkpoint row1 = Some d"
      "T + 100 * millisecond + cf_ttl cfg \<le> ns (row_expires row1)"
    by (rule step_on_pace [OF Cons.prems assms(3)])
  have live: "T + 100 * millisecond + 2 * second \<le> ns (row_expires row1)" using w1(3) assms(3) by simp
  from Cons.IH [OF w1(1) live, of "set_flag k p" "(t0 @ [Effect k]) @ [Saved (Some d) None]"]
  obtain w' t row' where IH: "run_steps cancellation_codec (logged_lease Saved (client_lease memory cfg)) tok paced_effects ks
      (set_flag k p) (w1, (t0 @ [Effect k]) @ [Saved (Some d) None]) =
      ((w', ((t0 @ [Effect k]) @ [Saved (Some d) None]) @ t), Returned None None)"
    "worked_on w0 i (T + 100 * millisecond + 100 * millisecond * int (length ks)) w' tok row'"
    "effects_of t = ks" "refusals t = []"
    "ks \<noteq> [] \<longrightarrow> Decode cancellation_codec zero_cancellation (row_checkpoint row') = Inr (fold set_flag ks (set_flag k p))"
    by blast
  have run: "run_steps cancellation_codec (logged_lease Saved (client_lease memory cfg)) tok paced_effects (k # ks) p (w, t0) =
      ((w', t0 @ [Effect k, Saved (Some d) None] @ t), Returned None None)"
    using step(1,3) IH(1) by (simp add: runStep_def del: logged_sel)
  show ?case
  proof (cases "ks = []")
    case True
    then have "w' = w1" "t = []" using IH(1) by simp_all
    then show ?thesis using run True step(2) w1(1,2)
      by (intro exI [of _ w1] exI [of _ "[Effect k, Saved (Some d) None]"] exI [of _ row1]) simp
  next
    case False
    then show ?thesis using run IH
      by (intro exI [of _ w'] exI [of _ "[Effect k, Saved (Some d) None] @ t"] exI [of _ row']) (simp add: algebra_simps)
  qed
qed

section \<open>Runs of a worker\<close>

lemma cancel_runner:
  "newCancelRunner L fn =
     Inr \<lparr>ru_lease = L, ru_fn = fn, ru_acquire = [], ru_renewal = [], ru_cleanup = defaultCleanupTimeout\<rparr>"
  by (simp add: newCancelRunner_def NewRunner_def)

lemma worker_run:
  assumes "on_pace T w" and "i \<noteq> ''''" and "\<And>r. work_row w i = Some r \<Longrightarrow> lapsed w r" and "2 * second \<le> cf_ttl cfg"
    and "ks \<noteq> []"
    and start: "\<And>w1 tok row. started_with w cfg i T w1 tok row \<Longrightarrow>
      \<exists>w2 u. fn (w1, t) tok (inherited (work_row w i)) =
          run_steps cancellation_codec (logged_lease Saved (client_lease memory cfg)) tok paced_effects ks p (w2, t @ u) \<and>
        started_with w cfg i T w2 tok row \<and> R u"
  obtains w' u t2 row' where
    "run_worker (logged_lease Saved (client_lease memory cfg)) fn i (w, t) = ((w', t @ u @ t2), Done None)"
    "R u" "effects_of t2 = ks" "refusals t2 = []" "on_pace (T + 100 * millisecond * int (length ks)) w'"
    "work_row w' i = Some row'" "row_exit row' = ExitFinished"
    "Decode cancellation_codec zero_cancellation (row_checkpoint row') = Inr (fold set_flag ks p)"
    "\<And>j. j \<noteq> i \<Longrightarrow> work_row w' j = work_row w j"
proof -
  let ?L = "logged_lease Saved (client_lease memory cfg)"
  let ?T = "T + 100 * millisecond * int (length ks)"
  let ?r = "\<lparr>ru_lease = ?L, ru_fn = fn, ru_acquire = [], ru_renewal = [], ru_cleanup = defaultCleanupTimeout\<rparr>"
  let ?Q = "\<lambda>t2 st row2 werr. st = None \<and> werr = None \<and> (\<exists>u t3. t2 = t @ u @ t3 \<and> R u \<and> effects_of t3 = ks \<and> refusals t3 = []) \<and>
    Decode cancellation_codec zero_cancellation (row_checkpoint row2) = Inr (fold set_flag ks p)"
  have work: "\<exists>w2 t2 st werr row2. ru_fn ?r (w1, t) tok (inherited (work_row w i)) = ((w2, t2), Returned st werr) \<and>
      (werr = None \<or> werr = Some ErrRetire) \<and> st \<noteq> Some [] \<and> worked_on w i ?T w2 tok row2 \<and> ?Q t2 st row2 werr"
    if started: "started_with w cfg i T w1 tok row" for w1 tok row
  proof -
    obtain w2 u where fn: "fn (w1, t) tok (inherited (work_row w i)) =
        run_steps cancellation_codec ?L tok paced_effects ks p (w2, t @ u)"
      and w2: "started_with w cfg i T w2 tok row" and u: "R u"
      using start [OF started] by blast
    have live: "worked_on w i T w2 tok row" "T + 2 * second \<le> ns (row_expires row)"
      using started_worked [OF w2] w2 assms(4) by (auto simp: started_with_def)
    from run_steps_on_pace [OF live assms(4), of ks p "t @ u"] fn u assms(5) show ?thesis by fastforce
  qed
  have ttl: "second \<le> cf_ttl cfg" using assms(4) by simp
  show ?thesis
  proof (rule paced_run [where r = ?r and ev = Saved and cfg = cfg and t = t and Q = ?Q, OF assms(1-3) _ _ ttl work])
    fix w' t2 st row2 werr row'
    assume run: "runner_run ?r (w, t) i = ((w', t2 @ (case st of None \<Rightarrow> [] | Some d \<Rightarrow> [Saved (Some d) None])), Done None)"
      and Q: "?Q t2 st row2 werr" and w': "on_pace ?T w'" "work_row w' i = Some row'"
        "row_exit row' = (if werr = None then ExitFinished else ExitRetired)"
        "row_checkpoint row' = (case st of None \<Rightarrow> row_checkpoint row2 | Some d \<Rightarrow> Some d)"
      and frame: "\<And>j. j \<noteq> i \<Longrightarrow> work_row w' j = work_row w j"
    from Q obtain u t3 where q: "t2 = t @ u @ t3" "R u" "effects_of t3 = ks" "refusals t3 = []" by blast
    show ?thesis
      by (rule that [of w' u t3 row']) (use run Q q w' frame in \<open>simp_all add: run_worker_def cancel_runner\<close>)
  qed simp_all
qed

text \<open>What a finished cancellation leaves, and what stays of it.\<close>

definition cancelled :: "memory_backend cworld \<Rightarrow> string \<Rightarrow> bool" where
  "cancelled w i \<longleftrightarrow> cp_prev_exit (inherited (work_row w i)) = ExitFinished \<and>
     Decode cancellation_codec zero_cancellation (cp_state (inherited (work_row w i))) =
       Inr \<lparr>BillingCancelled = True, ResourcesScheduled = True, DataArchived = True, EmailSent = True\<rparr>"

lemma cancelledI:
  "work_row w i = Some row \<Longrightarrow> row_exit row = ExitFinished \<Longrightarrow>
   Decode cancellation_codec zero_cancellation (row_checkpoint row) =
     Inr \<lparr>BillingCancelled = True, ResourcesScheduled = True, DataArchived = True, EmailSent = True\<rparr> \<Longrightarrow> cancelled w i"
  by (simp add: cancelled_def inherited_def)

lemma cancel_happy_path_runs:
  assumes "on_pace T w" and "work_row w ''cancel:tenant-alpha'' = None"
  obtains w' t' where "cancellation_happy_path cancellation_codec (logged_program Saved) paced_effects (w, t) = ((w', t @ t'), Done None)"
    "effects_of t' = all_steps" "refusals t' = []" "on_pace (T + 400 * millisecond) w'" "cancelled w' ''cancel:tenant-alpha''"
    "\<And>j. j \<noteq> ''cancel:tenant-alpha'' \<Longrightarrow> work_row w' j = work_row w j"
proof -
  let ?cfg = "cancel_worker (30 * second) ''A''"
  let ?L = "logged_lease Saved (client_lease memory ?cfg)"
  have steps: "all_steps \<noteq> []" "2 * second \<le> cf_ttl ?cfg" by (simp_all add: all_steps_def)
  show ?thesis
  proof (rule worker_run [where fn = "cancel_work cancellation_codec ?L paced_effects" and t = t and p = zero_cancellation
        and R = "\<lambda>u. u = []", OF assms(1) _ _ steps(2,1)])
    fix w' u t2 row'
    assume "run_worker ?L (cancel_work cancellation_codec ?L paced_effects) ''cancel:tenant-alpha'' (w, t) = ((w', t @ u @ t2), Done None)"
      "u = []" "effects_of t2 = all_steps" "refusals t2 = []" "on_pace (T + 100 * millisecond * int (length all_steps)) w'"
      "work_row w' ''cancel:tenant-alpha'' = Some row'" "row_exit row' = ExitFinished"
      "Decode cancellation_codec zero_cancellation (row_checkpoint row') = Inr (fold set_flag all_steps zero_cancellation)"
      "\<And>j. j \<noteq> ''cancel:tenant-alpha'' \<Longrightarrow> work_row w' j = work_row w j"
    then show ?thesis
      by (intro that [of w' t2])
         (auto simp: cancellation_happy_path_def all_steps_def zero_cancellation_def intro: cancelledI)
  next
    fix w1 tok row assume "started_with w ?cfg ''cancel:tenant-alpha'' T w1 tok row"
    then show "\<exists>w2 u. cancel_work cancellation_codec ?L paced_effects (w1, t) tok (inherited (work_row w ''cancel:tenant-alpha'')) =
          run_steps cancellation_codec ?L tok paced_effects all_steps zero_cancellation (w2, t @ u) \<and>
        started_with w ?cfg ''cancel:tenant-alpha'' T w2 tok row \<and> u = []"
      by (intro exI [of _ w1] exI [of _ "[]"]) (simp add: cancel_work_def)
  qed (use assms(2) in simp_all)
qed

abbreviation billed :: cancellation where "billed \<equiv> zero_cancellation\<lparr>BillingCancelled := True\<rparr>"

lemma cancel_crash_recovery_runs:
  assumes "on_pace T w" and "work_row w ''cancel:tenant-beta'' = None"
  obtains w' t' where "cancellation_crash_recovery cancellation_codec (logged_program Saved) paced_effects (w, t) = ((w', t @ t'), Done None)"
    "effects_of t' = all_steps" "refusals t' = []" "on_pace (T + 4400 * millisecond) w'" "cancelled w' ''cancel:tenant-beta''"
    "\<And>j. j \<noteq> ''cancel:tenant-beta'' \<Longrightarrow> work_row w' j = work_row w j"
proof -
  let ?B = "cancel_worker (3 * second) ''B''"
  let ?C = "cancel_worker (30 * second) ''C''"
  let ?L = "logged_lease Saved (client_lease memory ?C)"
  let ?rest = "[ScheduleDeprovisioning, ArchiveData, SendEmail]"
  obtain w1 tok r where acq: "l_acquire (client_lease memory ?B) CallerCtx w ''cancel:tenant-beta'' [] = (w1, Inr tok)"
    and w1: "worked_on w ''cancel:tenant-beta'' T w1 tok r" "T + 2 * second \<le> ns (row_expires r)"
    by (rule paced_acquire [OF assms(1), of "''cancel:tenant-beta''" ?B CallerCtx])
       (use assms(2) in \<open>auto simp: worked_on_def\<close>)
  have ttl: "2 * second \<le> cf_ttl ?B" by simp
  obtain d w2 row where enc: "Encode cancellation_codec billed = Inr (Some d)"
    "Decode cancellation_codec zero_cancellation (Some d) = Inr billed"
    "l_checkpoint (logged_lease Saved (client_lease memory ?B)) CallerCtx (pause (100 * millisecond) w1, t @ [Effect CancelBilling]) tok (Some d) =
       ((w2, (t @ [Effect CancelBilling]) @ [Saved (Some d) None]), None)"
    and w2: "worked_on w ''cancel:tenant-beta'' (T + 100 * millisecond) w2 tok row" "row_checkpoint row = Some d"
      "ns (row_expires row) < T + 100 * millisecond + second + cf_ttl ?B"
    by (rule step_on_pace [OF w1 ttl])
  let ?w3 = "pause (4 * second) w2" let ?T3 = "T + 100 * millisecond + 4 * second"
  let ?t3 = "(t @ [Effect CancelBilling]) @ [Saved (Some d) None]"
  have pace: "on_pace ?T3 ?w3" by (rule paced_pause) (use w2(1) in \<open>simp add: worked_on_def\<close>)
  have row: "work_row ?w3 ''cancel:tenant-beta'' = Some row" "row_exit row = ExitNone" "lapsed ?w3 row"
    using w2(1,3) lapsed_early [OF pace, of row] by (auto simp: worked_on_def holds_def)
  have inh: "cp_state (inherited (work_row ?w3 ''cancel:tenant-beta'')) = Some d" using row w2(2) by (simp add: inherited_def)
  have frame: "work_row ?w3 j = work_row w j" if "j \<noteq> ''cancel:tenant-beta''" for j using w2(1) that by (simp add: worked_on_def)
  have ttlC: "2 * second \<le> cf_ttl ?C" "?rest \<noteq> []" by simp_all
  show ?thesis
  proof (rule worker_run [where fn = "resume_work cancellation_codec ?L paced_effects" and t = ?t3 and p = billed
        and R = "\<lambda>u. u = []", OF pace _ _ ttlC])
    fix w' u t2 row'
    assume run: "run_worker ?L (resume_work cancellation_codec ?L paced_effects) ''cancel:tenant-beta'' (?w3, ?t3) = ((w', ?t3 @ u @ t2), Done None)"
      "u = []" "effects_of t2 = ?rest" "refusals t2 = []" "on_pace (?T3 + 100 * millisecond * int (length ?rest)) w'"
      "work_row w' ''cancel:tenant-beta'' = Some row'" "row_exit row' = ExitFinished"
      "Decode cancellation_codec zero_cancellation (row_checkpoint row') = Inr (fold set_flag ?rest billed)"
      "\<And>j. j \<noteq> ''cancel:tenant-beta'' \<Longrightarrow> work_row w' j = work_row ?w3 j"
    have "cancelled w' ''cancel:tenant-beta''"
      by (rule cancelledI [OF run(6,7)]) (use run(8) in \<open>simp add: zero_cancellation_def\<close>)
    moreover have "on_pace (T + 4400 * millisecond) w'" using run(5) by (simp add: add.commute)
    moreover have "cancellation_crash_recovery cancellation_codec (logged_program Saved) paced_effects (w, t) =
        ((w', t @ [Effect CancelBilling, Saved (Some d) None] @ t2), Done None)"
      using acq enc run(1,2) by (simp add: cancellation_crash_recovery_def or_zero_def del: logged_sel(2-7))
    ultimately show ?thesis
      using run(3,4,9) frame
      by (intro that [of w' "[Effect CancelBilling, Saved (Some d) None] @ t2"]) (auto simp: all_steps_def)
  next
    fix w1' tok' row' assume "started_with ?w3 ?C ''cancel:tenant-beta'' ?T3 w1' tok' row'"
    then show "\<exists>w2 u. resume_work cancellation_codec ?L paced_effects (w1', ?t3) tok' (inherited (work_row ?w3 ''cancel:tenant-beta'')) =
          run_steps cancellation_codec ?L tok' paced_effects ?rest billed (w2, ?t3 @ u) \<and>
        started_with ?w3 ?C ''cancel:tenant-beta'' ?T3 w2 tok' row' \<and> u = []"
      by (intro exI [of _ w1'] exI [of _ "[]"]) (simp add: resume_work_def inh [simplified] enc(2) del: run_steps.simps)
  qed (use row in simp_all)
qed

lemma cancel_zombie_fencing_runs:
  assumes "on_pace T w" and "work_row w ''cancel:tenant-gamma'' = None"
  obtains w' t' d e where "cancellation_zombie_fencing cancellation_codec (logged_program Saved) paced_effects (w, t) = ((w', t @ t'), Done None)"
    "effects_of t' = all_steps" "refusals t' = [(d, e)]" "errors_is e ErrFenced" "Encode cancellation_codec billed = Inr d"
    "on_pace (T + 4400 * millisecond) w'" "cancelled w' ''cancel:tenant-gamma''"
    "\<And>j. j \<noteq> ''cancel:tenant-gamma'' \<Longrightarrow> work_row w' j = work_row w j"
proof -
  let ?D = "cancel_worker (3 * second) ''D''"
  let ?E = "cancel_worker (30 * second) ''E''"
  let ?LD = "logged_lease Saved (client_lease memory ?D)"
  let ?L = "logged_lease Saved (client_lease memory ?E)"
  obtain w1 tok r where acq: "l_acquire (client_lease memory ?D) CallerCtx w ''cancel:tenant-gamma'' [] = (w1, Inr tok)"
    and w1: "on_pace T w1" "work_row w1 ''cancel:tenant-gamma'' = Some r" "row_exit r = ExitNone"
      "ns (row_expires r) < T + 4 * second" "\<And>j. j \<noteq> ''cancel:tenant-gamma'' \<Longrightarrow> work_row w1 j = work_row w j"
    and tok: "tk_work tok = ''cancel:tenant-gamma''" "tk_token tok = seq (cw_store w1)"
    by (rule paced_acquire [OF assms(1), of "''cancel:tenant-gamma''" ?D CallerCtx]) (use assms(2) in auto)
  let ?w2 = "pause (4 * second) w1"
  obtain d where d: "Encode cancellation_codec billed = Inr (Some d)" by (rule flags_encoded)
  have pace: "on_pace (T + 4 * second) ?w2" by (rule paced_pause [OF w1(1)])
  have row: "work_row ?w2 ''cancel:tenant-gamma'' = Some r" "lapsed ?w2 r"
    using w1(2) lapsed_early [OF pace w1(4)] by simp_all
  have ttl: "2 * second \<le> cf_ttl ?E" "all_steps \<noteq> []" by (simp_all add: all_steps_def)
  have stuck: "\<exists>w4 u. fencing_work cancellation_codec ?L ?LD tok paced_effects (w3, t) tok' cp =
        run_steps cancellation_codec ?L tok' paced_effects all_steps zero_cancellation (w4, t @ u) \<and>
      started_with ?w2 ?E ''cancel:tenant-gamma'' (T + 4 * second) w4 tok' row' \<and>
      (\<exists>e. u = [Saved (Some d) (Some e)] \<and> errors_is e ErrFenced)"
    if started: "started_with ?w2 ?E ''cancel:tenant-gamma'' (T + 4 * second) w3 tok' row'" for w3 tok' row' cp
  proof -
    have "on_pace (T + 4 * second) w3" "work_row w3 (tk_work tok) = Some row'" "row_token row' \<noteq> tk_token tok"
      using started tok by (auto simp: started_with_def holds_def held_by_def toRecord_def)
    then obtain w4 e where w4: "l_checkpoint (client_lease memory ?D) CallerCtx w3 tok (Some d) = (w4, Some e)"
      "errors_is e ErrFenced" "on_pace (T + 4 * second) w4" "cw_store w4 = cw_store w3"
      by (rule paced_fenced)
    have "fencing_work cancellation_codec ?L ?LD tok paced_effects (w3, t) tok' cp =
        run_steps cancellation_codec ?L tok' paced_effects all_steps zero_cancellation (w4, t @ [Saved (Some d) (Some e)])"
      using w4(1) d by (simp add: fencing_work_def zombie_step_def del: run_steps.simps client_lease_sel)
    moreover have "started_with ?w2 ?E ''cancel:tenant-gamma'' (T + 4 * second) w4 tok' row'"
      using started w4(3,4) by (auto simp: started_with_def holds_def)
    ultimately show ?thesis using w4(2) by blast
  qed
  show ?thesis
  proof (rule worker_run [where fn = "fencing_work cancellation_codec ?L ?LD tok paced_effects" and t = t and p = zero_cancellation
        and R = "\<lambda>u. \<exists>e. u = [Saved (Some d) (Some e)] \<and> errors_is e ErrFenced", OF pace _ _ ttl stuck])
    fix w' u t2 row'
    assume run: "run_worker ?L (fencing_work cancellation_codec ?L ?LD tok paced_effects) ''cancel:tenant-gamma'' (?w2, t) =
        ((w', t @ u @ t2), Done None)"
      "\<exists>e. u = [Saved (Some d) (Some e)] \<and> errors_is e ErrFenced" "effects_of t2 = all_steps" "refusals t2 = []"
      "on_pace (T + 4 * second + 100 * millisecond * int (length all_steps)) w'"
      "work_row w' ''cancel:tenant-gamma'' = Some row'" "row_exit row' = ExitFinished"
      "Decode cancellation_codec zero_cancellation (row_checkpoint row') = Inr (fold set_flag all_steps zero_cancellation)"
      "\<And>j. j \<noteq> ''cancel:tenant-gamma'' \<Longrightarrow> work_row w' j = work_row ?w2 j"
    obtain e where u: "u = [Saved (Some d) (Some e)]" "errors_is e ErrFenced" using run(2) by blast
    have "cancelled w' ''cancel:tenant-gamma''"
      by (rule cancelledI [OF run(6,7)]) (use run(8) in \<open>simp add: zero_cancellation_def all_steps_def\<close>)
    moreover have "on_pace (T + 4400 * millisecond) w'" using run(5) by (simp add: all_steps_def add.commute)
    moreover have "cancellation_zombie_fencing cancellation_codec (logged_program Saved) paced_effects (w, t) =
        ((w', t @ u @ t2), Done None)"
      using acq run(1) by (simp add: cancellation_zombie_fencing_def or_zero_def)
    ultimately show ?thesis
      using run(3,4,9) u d w1(5)
      by (intro that [of w' "u @ t2" "Some d" e]) simp_all
  qed (use row in simp_all)
qed

section \<open>Property\<close>

text \<open>
  C20. Every cancellation is finished. On a host that is quick besides its sleeps, all three scenarios of
  \<open>main\<close> complete: for each tenant the four effects happen exactly once and in order, also across the
  worker that crashed after the billing and the one that was stuck; of all writes exactly one is refused,
  with \<open>ErrFenced\<close>: that of the stuck worker, under the lease of its successor; and each cancellation is
  released as finished, its stored JSON decoding to four flags that are set.
\<close>

theorem cancellations_complete:
  assumes "on_pace T w"
  shows "\<exists>w' t d e. cancellation_main cancellation_codec (logged_program Saved) paced_effects (w, []) =
      ((w', t), [Done None, Done None, Done None]) \<and>
    effects_of t = all_steps @ all_steps @ all_steps \<and> refusals t = [(d, e)] \<and> errors_is e ErrFenced \<and>
    Encode cancellation_codec (zero_cancellation\<lparr>BillingCancelled := True\<rparr>) = Inr d \<and> on_pace (T + 9200 * millisecond) w' \<and>
    cancelled w' ''cancel:tenant-alpha'' \<and> cancelled w' ''cancel:tenant-beta'' \<and> cancelled w' ''cancel:tenant-gamma''"
proof -
  let ?P = "logged_program Saved"
  let ?w = "w\<lparr>cw_store := memory_new\<rparr>"
  have fresh: "work_row ?w i = None" for i by (simp add: mem_view_def memory_new_def)
  have "on_pace T ?w" using assms by simp
  then obtain w1 t1 where s1: "cancellation_happy_path cancellation_codec ?P paced_effects (?w, []) = ((w1, [] @ t1), Done None)"
    "effects_of t1 = all_steps" "refusals t1 = []" "on_pace (T + 400 * millisecond) w1" "cancelled w1 ''cancel:tenant-alpha''"
    "\<And>j. j \<noteq> ''cancel:tenant-alpha'' \<Longrightarrow> work_row w1 j = work_row ?w j"
    by (rule cancel_happy_path_runs [OF _ fresh]) blast
  obtain w2 t2 where s2: "cancellation_crash_recovery cancellation_codec ?P paced_effects (w1, t1) = ((w2, t1 @ t2), Done None)"
    "effects_of t2 = all_steps" "refusals t2 = []" "on_pace (T + 400 * millisecond + 4400 * millisecond) w2"
    "cancelled w2 ''cancel:tenant-beta''" "\<And>j. j \<noteq> ''cancel:tenant-beta'' \<Longrightarrow> work_row w2 j = work_row w1 j"
    by (rule cancel_crash_recovery_runs [where t = t1, OF s1(4)]) (use s1(6) fresh in auto)
  obtain w3 t3 d e where s3: "cancellation_zombie_fencing cancellation_codec ?P paced_effects (w2, t1 @ t2) = ((w3, (t1 @ t2) @ t3), Done None)"
    "effects_of t3 = all_steps" "refusals t3 = [(d, e)]" "errors_is e ErrFenced" "Encode cancellation_codec billed = Inr d"
    "on_pace (T + 400 * millisecond + 4400 * millisecond + 4400 * millisecond) w3"
    "cancelled w3 ''cancel:tenant-gamma''" "\<And>j. j \<noteq> ''cancel:tenant-gamma'' \<Longrightarrow> work_row w3 j = work_row w2 j"
    by (rule cancel_zombie_fencing_runs [where t = "t1 @ t2", OF s2(4)]) (use s2(6) s1(6) fresh in auto)
  have "cancellation_main cancellation_codec ?P paced_effects (w, []) = ((w3, t1 @ t2 @ t3), [Done None, Done None, Done None])"
    using s1(1) s2(1) s3(1) by (simp add: cancellation_main_def)
  moreover have "cancelled w3 ''cancel:tenant-alpha''" "cancelled w3 ''cancel:tenant-beta''"
    using s1(5) s2(5,6) s3(8) by (simp_all add: cancelled_def)
  ultimately show ?thesis
    using s1(2,3) s2(2,3) s3(2-7)
    by (intro exI [of _ w3] exI [of _ "t1 @ t2 @ t3"] exI [of _ d] exI [of _ e]) (simp add: add.commute)
qed

theorem cancellations_complete_witness:
  "\<exists>w' t. cancellation_main cancellation_codec (logged_program Saved) paced_effects (ex_on_pace, []) =
     ((w', t), [Done None, Done None, Done None]) \<and> length (effects_of t) = 12 \<and> length (refusals t) = 1"
  using cancellations_complete [OF ex_on_pace_ok] by (force simp: all_steps_def)

end
