(* ===== verification/Waiting.thy ===== *)
theory Waiting
  imports Paced Exhaustion
begin

text \<open>
  An \<open>Acquire\<close> with \<open>WithWaitForLease\<close> on the memory backend, attempt by attempt, and scenario 1 of
  \<open>examples/renewal-backoff/main.go\<close>: a wait that a deadline ends while another worker holds the lease.
\<close>

section \<open>Waiting on the memory backend\<close>

text \<open>An attempt by a client that is alone, before the lease \<open>r\<close> lapses, and what it reports.\<close>

definition held_attempt :: "row \<Rightarrow> attempt_env \<Rightarrow> bool" where
  "held_attempt r env \<longleftrightarrow> ae_before env = [] \<and> ce_ctx (ae_call env) = None \<and> ae_wait env = None \<and>
     ce_clk (ae_call env) 0 \<le> row_expires r"

definition held_event :: "string \<Rightarrow> attempt_env \<Rightarrow> event" where
  "held_event i env = OnAcquire i zero_token (call_dur (ae_call env)) (Some ErrLeaseHeld)"

lemma mem_held_attempt:
  assumes "mem_view s i = Some r" and "ce_ctx env = None" and "ce_clk env 0 \<le> row_expires r"
  shows "acquire_attempt memory cfg env s i =
    (s, OnAcquire i zero_token (call_dur env) (Some ErrLeaseHeld), Inl ErrLeaseHeld)"
proof -
  have "\<not> time_after (ce_clk env 0) (row_expires r)" using assms(3) by (simp add: time_simps)
  then show ?thesis using assms(1,2) by (simp add: acquire_attempt_def mem_acquire_def mem_view_def)
qed

lemma mem_wait_state:
  assumes "mem_view s i = Some r" and "\<And>j. j < k \<Longrightarrow> held_attempt r (envs j)"
  shows "wait_state memory cfg envs i s k = s"
  using assms(2)
proof (induction k)
  case (Suc k)
  then have "wait_state memory cfg envs i s k = s" "held_attempt r (envs k)" by simp_all
  then show ?case using mem_held_attempt [OF assms(1)] by (simp add: held_attempt_def)
qed simp

text \<open>A waiting \<open>Acquire\<close> whose \<open>k\<close>-th attempt is the first that is not retried.\<close>

lemma mem_wait_ends:
  assumes "mem_view s i = Some r" and "i \<noteq> ''''" and "ac_wait (apply_options opts default_acquire_config)"
    and "\<And>j. j < k \<Longrightarrow> held_attempt r (envs j)" and "ae_before (envs k) = []"
    and "acquire_attempt memory cfg (ae_call (envs k)) s i = (s', ev, x)"
    and "\<And>e. x = Inl e \<Longrightarrow> errors_is e ErrLeaseHeld \<Longrightarrow> ae_wait (envs k) \<noteq> None"
  shows "client_acquire memory cfg envs s i opts = Some (s', map (\<lambda>j. held_event i (envs j)) [0..<k] @ [ev],
    case x of
      Inr tok \<Rightarrow> Inr tok
    | Inl e \<Rightarrow> if errors_is e ErrLeaseHeld then Inl (Wrap ''worklease: acquire cancelled'' (the (ae_wait (envs k))))
        else Inl (Wrap ''worklease: Acquire'' e))"
proof -
  have state: "wait_state memory cfg envs i s j = s" if "j \<le> k" for j
    by (rule mem_wait_state [OF assms(1)]) (use assms(4) that in simp)
  have att: "wait_attempt memory cfg envs i s j = (s, held_event i (envs j), Inl ErrLeaseHeld)" if "j < k" for j
    using assms(4) [OF that] state [of j] that mem_held_attempt [OF assms(1)]
    by (simp add: wait_attempt_def held_attempt_def held_event_def)
  have last: "wait_attempt memory cfg envs i s k = (s', ev, x)"
    using assms(5,6) state [of k] by (simp add: wait_attempt_def)
  have retry: "\<forall>j<k. wait_retry memory cfg envs i s j" using att assms(4) by (simp add: wait_retry_def held_attempt_def)
  have ends: "\<not> wait_retry memory cfg envs i s k"
    using last assms(7) by (auto simp: wait_retry_def split: sum.splits)
  have "acquire_wait memory cfg envs i 0 s [] =
      Some (wait_state memory cfg envs i s (Suc k), wait_events memory cfg envs i s (Suc k), wait_result memory cfg envs i s k)"
    unfolding acquire_wait_iff using retry ends by blast
  moreover have "wait_events memory cfg envs i s (Suc k) = map (\<lambda>j. held_event i (envs j)) [0..<k] @ [ev]"
    using att last by (simp add: wait_events_def)
  moreover have "wait_state memory cfg envs i s (Suc k) = s'" using last by (simp only: wait_state_Suc fst_conv)
  ultimately show ?thesis
    using assms(2,3) last by (cases x) (simp_all add: client_acquire_def wait_result_def Let_def)
qed

section \<open>A deadline ends the wait\<close>

text \<open>The branches of the \<open>switch\<close> on \<open>Acquire\<close>'s error.\<close>

datatype wait_verdict = DeadlineStopped | ReportedHeld | UnexpectedError "gerror option"

definition wait_report :: "gerror option \<Rightarrow> wait_verdict" where
  "wait_report err =
     (if err_matches err CtxDeadlineExceeded then DeadlineStopped
      else if err_matches err ErrLeaseHeld then ReportedHeld
      else UnexpectedError err)"

definition deadline_worker :: "string \<Rightarrow> client_config" where
  "deadline_worker holder = \<lparr>cf_ttl = 30 * second, cf_holder = ''worker-'' @ holder\<rparr>"

text \<open>\<open>ea\<close> and \<open>er\<close> are the calls of worker A, \<open>envs\<close> the attempts of worker B under \<open>waitCtx\<close>.\<close>

definition scenario1WaitDeadline ::
  "call_env \<Rightarrow> (nat \<Rightarrow> attempt_env) \<Rightarrow> call_env \<Rightarrow> (memory_backend \<times> event list \<times> wait_verdict) option" where
  "scenario1WaitDeadline ea envs er =
     (case client_acquire memory (deadline_worker ''A'') (\<lambda>n. \<lparr>ae_before = [], ae_call = ea, ae_wait = None\<rparr>)
         memory_new ''task:work-item'' [] of
        None \<Rightarrow> None
      | Some (s, evsA, acq) \<Rightarrow>
          (case client_acquire memory (deadline_worker ''B'') envs s ''task:work-item''
               [WithWaitForLease, WithPollInterval (100 * millisecond)] of
             None \<Rightarrow> None
           | Some (s, evsB, res) \<Rightarrow>
               let report = wait_report (case res of Inl e \<Rightarrow> Some e | Inr tok \<Rightarrow> None);
                   (s, evsR, err) = client_release memory (deadline_worker ''A'') er s (or_zero zero_token acq) ExitFinished
               in Some (s, evsA @ evsB @ evsR, report)))"

text \<open>Worker B's deadline passes during its \<open>k\<close>-th attempt or the wait after it.\<close>

definition deadline_at :: "nat \<Rightarrow> (nat \<Rightarrow> attempt_env) \<Rightarrow> bool" where
  "deadline_at k envs \<longleftrightarrow>
     (\<forall>j\<le>k. ae_before (envs j) = [] \<and> ce_ctx (ae_call (envs j)) \<in> {None, Some CtxDeadlineExceeded} \<and>
        ae_wait (envs j) \<in> {None, Some CtxDeadlineExceeded}) \<and>
     (ce_ctx (ae_call (envs k)) \<noteq> None \<or> ae_wait (envs k) \<noteq> None)"

lemma deadline_first:
  assumes "deadline_at n envs"
  obtains k where "k \<le> n" "\<And>j. j < k \<Longrightarrow> ce_ctx (ae_call (envs j)) = None \<and> ae_wait (envs j) = None"
    "ce_ctx (ae_call (envs k)) = Some CtxDeadlineExceeded \<or>
     ce_ctx (ae_call (envs k)) = None \<and> ae_wait (envs k) = Some CtxDeadlineExceeded"
proof -
  let ?P = "\<lambda>k. ce_ctx (ae_call (envs k)) \<noteq> None \<or> ae_wait (envs k) \<noteq> None"
  define k where "k = (LEAST k. ?P k)"
  have n: "?P n" using assms by (simp add: deadline_at_def)
  have k: "k \<le> n" "?P k" unfolding k_def using n by (rule Least_le, rule LeastI)
  show ?thesis
  proof (rule that [OF k(1)])
    fix j assume "j < k"
    then have "\<not> ?P j" unfolding k_def by (rule not_less_Least)
    then show "ce_ctx (ae_call (envs j)) = None \<and> ae_wait (envs j) = None" by simp
  next
    show "ce_ctx (ae_call (envs k)) = Some CtxDeadlineExceeded \<or>
        ce_ctx (ae_call (envs k)) = None \<and> ae_wait (envs k) = Some CtxDeadlineExceeded"
      using assms k by (auto simp: deadline_at_def)
  qed
qed

text \<open>
  C32. A deadline ends a wait. Worker B waits for the lease of worker A, which is alive, until its
  deadline passes, during an attempt or between two: its \<open>Acquire\<close> then returns an error that matches
  \<open>context.DeadlineExceeded\<close> and not \<open>ErrLeaseHeld\<close>, and leaves the store as A's \<open>Acquire\<close> left it; the
  scenario reports that the deadline stopped it. It made at most one attempt per poll and took no
  token: A releases the lease as finished, and the next holder learns so.
\<close>

theorem deadline_ends_wait:
  assumes "deadline_at n envs" and "ce_ctx ea = None" and "ce_ctx er = None"
    and "\<And>j. j \<le> n \<Longrightarrow> ce_clk (ae_call (envs j)) 0 \<le> time_add (ce_clk ea 0) (30 * second)"
    and "ce_clk er 0 < time_add (ce_clk ea 0) (30 * second)"
  shows "\<exists>s0 evsA tokA evsB err s evs.
    client_acquire memory (deadline_worker ''A'') (\<lambda>n. \<lparr>ae_before = [], ae_call = ea, ae_wait = None\<rparr>)
      memory_new ''task:work-item'' [] = Some (s0, evsA, Inr tokA) \<and>
    client_acquire memory (deadline_worker ''B'') envs s0 ''task:work-item''
      [WithWaitForLease, WithPollInterval (100 * millisecond)] = Some (s0, evsB, Inl err) \<and>
    errors_is err CtxDeadlineExceeded \<and> \<not> errors_is err ErrLeaseHeld \<and>
    scenario1WaitDeadline ea envs er = Some (s, evs, DeadlineStopped) \<and> length evs \<le> n + 3 \<and>
    list_all (\<lambda>ev. ev_token ev = zero_token \<or> tk_holder (ev_token ev) = ''worker-A'') evs \<and> seq s = 1 \<and>
    inherited (mem_view s ''task:work-item'') =
      \<lparr>cp_state = None, cp_prev_exit = ExitFinished, cp_prev_holder = ''worker-A''\<rparr>"
proof -
  let ?i = "''task:work-item''"
  define exp where "exp = time_add (ce_clk ea 0) (30 * second)"
  define r where "r = successor_row None ''worker-A'' 1 exp (ce_clk ea 1)"
  define s where "s = \<lparr>records = [(?i, r)], seq = (1 :: u64)\<rparr>"
  define tok where "tok = newToken \<lparr>lr_work = ?i, lr_holder = ''worker-A'', lr_token = 1, lr_expires = exp\<rparr>
    (time_add (ce_start ea) (30 * second))"
  have acq: "client_acquire memory (deadline_worker ''A'') (\<lambda>n. \<lparr>ae_before = [], ae_call = ea, ae_wait = None\<rparr>)
      memory_new ?i [] = Some (s, [OnAcquire ?i tok (call_dur ea) None], Inr tok)"
    using assms(2) by (simp add: client_acquire_def default_acquire_config_def acquire_attempt_def mem_acquire_def memory_new_def
        deadline_worker_def s_def r_def exp_def tok_def successor_row_def Let_def)
  have view: "mem_view s ?i = Some r" by (simp add: s_def mem_view_def)
  have row: "row_expires r = exp" by (simp add: r_def successor_row_def)
  obtain k where k: "k \<le> n" "\<And>j. j < k \<Longrightarrow> ce_ctx (ae_call (envs j)) = None \<and> ae_wait (envs j) = None"
    "ce_ctx (ae_call (envs k)) = Some CtxDeadlineExceeded \<or>
     ce_ctx (ae_call (envs k)) = None \<and> ae_wait (envs k) = Some CtxDeadlineExceeded"
    using deadline_first [OF assms(1)] by blast
  have held: "held_attempt r (envs j)" if "j < k" for j
    using k(1,2) that assms(1,4) row by (simp add: held_attempt_def deadline_at_def exp_def)
  define e where "e = (if ce_ctx (ae_call (envs k)) = None then ErrLeaseHeld else Wrap ''memory: Acquire'' CtxDeadlineExceeded)"
  define ev where "ev = OnAcquire ?i zero_token (call_dur (ae_call (envs k))) (Some e)"
  have att: "acquire_attempt memory (deadline_worker ''B'') (ae_call (envs k)) s ?i = (s, ev, Inl e)"
    using k(1,3) assms(4) row mem_held_attempt [OF view]
    by (auto simp: e_def ev_def exp_def acquire_attempt_def mem_acquire_def)
  have wait: "ac_wait (apply_options [WithWaitForLease, WithPollInterval (100 * millisecond)] default_acquire_config)"
    by (simp add: WithWaitForLease_def WithPollInterval_def)
  have stop: "ae_wait (envs k) \<noteq> None" if "errors_is e ErrLeaseHeld" using that k(3) by (auto simp: e_def)
  have alone: "ae_before (envs k) = []" using assms(1) k(1) by (simp add: deadline_at_def)
  define err where "err = (if errors_is e ErrLeaseHeld then Wrap ''worklease: acquire cancelled'' (the (ae_wait (envs k)))
    else Wrap ''worklease: Acquire'' e)"
  have B: "client_acquire memory (deadline_worker ''B'') envs s ?i [WithWaitForLease, WithPollInterval (100 * millisecond)] =
      Some (s, map (\<lambda>j. held_event ?i (envs j)) [0..<k] @ [ev], Inl err)"
    using mem_wait_ends [where k = k and envs = envs, OF view _ wait held alone att] stop by (simp add: err_def)
  have err: "errors_is err CtxDeadlineExceeded" "\<not> errors_is err ErrLeaseHeld"
    using k(3) by (auto simp: err_def e_def)
  then have report: "wait_report (Some err) = DeadlineStopped" by (simp add: wait_report_def)
  define r' where "r' = r\<lparr>row_exit := ExitFinished, row_expires := time_add (ce_clk er 1) releaseGracePeriod, row_updated := ce_clk er 2\<rparr>"
  have rel: "client_release memory (deadline_worker ''A'') er s tok ExitFinished =
      (s\<lparr>records := [(?i, r')]\<rparr>, [OnRelease tok (call_dur er) ExitFinished None], None)"
    using assms(3,5) by (simp add: client_release_def mem_release_def s_def r'_def tok_def toRecord_def newToken_def held_by_def
        r_def successor_row_def exp_def time_simps fenced_events_def op_error_def)
  have "scenario1WaitDeadline ea envs er = Some (s\<lparr>records := [(?i, r')]\<rparr>,
      OnAcquire ?i tok (call_dur ea) None # (map (\<lambda>j. held_event ?i (envs j)) [0..<k] @ [ev]) @
        [OnRelease tok (call_dur er) ExitFinished None], DeadlineStopped)"
    by (simp add: scenario1WaitDeadline_def acq B [simplified] report rel or_zero_def)
  moreover have "length (OnAcquire ?i tok (call_dur ea) None # (map (\<lambda>j. held_event ?i (envs j)) [0..<k] @ [ev]) @
      [OnRelease tok (call_dur er) ExitFinished None]) \<le> n + 3"
    using k(1) by simp
  moreover have "list_all (\<lambda>ev. ev_token ev = zero_token \<or> tk_holder (ev_token ev) = ''worker-A'')
      (OnAcquire ?i tok (call_dur ea) None # (map (\<lambda>j. held_event ?i (envs j)) [0..<k] @ [ev]) @
        [OnRelease tok (call_dur er) ExitFinished None])"
    by (auto simp: list_all_iff held_event_def ev_def tok_def newToken_def)
  moreover have "seq (s\<lparr>records := [(?i, r')]\<rparr>) = 1" by (simp add: s_def)
  moreover have "inherited (mem_view (s\<lparr>records := [(?i, r')]\<rparr>) ?i) =
      \<lparr>cp_state = None, cp_prev_exit = ExitFinished, cp_prev_holder = ''worker-A''\<rparr>"
    by (simp add: mem_view_def inherited_def r'_def r_def successor_row_def)
  ultimately show ?thesis using acq B err by blast
qed

text \<open>A deadline that passes in the wait after the second attempt.\<close>

definition ex_deadline :: "nat \<Rightarrow> attempt_env" where
  "ex_deadline n = \<lparr>ae_before = [], ae_call = ex_call 7, ae_wait = (if n = 0 then None else Some CtxDeadlineExceeded)\<rparr>"

theorem deadline_ends_wait_witness:
  "\<exists>s evs s0 evsB err. scenario1WaitDeadline (ex_call 5) ex_deadline (ex_call 9) = Some (s, evs, DeadlineStopped) \<and> length evs \<le> 1 + 3 \<and>
     client_acquire memory (deadline_worker ''B'') ex_deadline s0 ''task:work-item''
       [WithWaitForLease, WithPollInterval (100 * millisecond)] = Some (s0, evsB, Inl err) \<and> \<not> errors_is err ErrLeaseHeld"
proof -
  have "deadline_at 1 ex_deadline" by (auto simp: deadline_at_def ex_deadline_def ex_call_def)
  then have "\<exists>s0 evsA tokA evsB err s evs.
    client_acquire memory (deadline_worker ''A'') (\<lambda>n. \<lparr>ae_before = [], ae_call = ex_call 5, ae_wait = None\<rparr>)
      memory_new ''task:work-item'' [] = Some (s0, evsA, Inr tokA) \<and>
    client_acquire memory (deadline_worker ''B'') ex_deadline s0 ''task:work-item''
      [WithWaitForLease, WithPollInterval (100 * millisecond)] = Some (s0, evsB, Inl err) \<and>
    errors_is err CtxDeadlineExceeded \<and> \<not> errors_is err ErrLeaseHeld \<and>
    scenario1WaitDeadline (ex_call 5) ex_deadline (ex_call 9) = Some (s, evs, DeadlineStopped) \<and> length evs \<le> 1 + 3 \<and>
    list_all (\<lambda>ev. ev_token ev = zero_token \<or> tk_holder (ev_token ev) = ''worker-A'') evs \<and> seq s = 1 \<and>
    inherited (mem_view s ''task:work-item'') =
      \<lparr>cp_state = None, cp_prev_exit = ExitFinished, cp_prev_holder = ''worker-A''\<rparr>"
    by (rule deadline_ends_wait) (auto simp: ex_deadline_def ex_call_def time_simps)
  then show ?thesis by blast
qed

section \<open>The exhausted window\<close>

text \<open>What scenario 2 logs of the cause, and that it does when renewal has ended.\<close>

definition exhaustion_report :: "gerror option \<Rightarrow> bool \<times> bool" where
  "exhaustion_report cause =
     (let exhausted = err_matches cause ErrLeaseWindowExhausted
      in (exhausted, exhausted \<and> err_matches cause ErrLeaseExpired))"

lemma exhaustion_reported:
  assumes "(s, tok) = acquired_lease x start" and "list_all (exhausting x) acts"
    and "renew_run memory backoff_worker backoff_options tok acts (exhaustion_start x start now) = Some r"
    and "rn_phase r = Exited" and "rn_now r < rn_window r"
  shows "exhaustion_report (rn_cause r) = (True, True)"
  using lapsed_lease_exhausts_window [OF assms(1-3)] assms(4,5)
  by (auto simp: exhaustion_report_def dest: leD)

end
