(* ===== verification/Failover.thy ===== *)
theory Failover
  imports Waiting Scheduler
begin

text \<open>
  Scenarios 2 and 3 of \<open>examples/cluster-singleton-scheduler/main.go\<close>: a standby that waits for the lease
  of a leader that crashed, or that was stopped because its renewal stalled.

  Time passes from call to call, with less than ten seconds between two; the world is otherwise as in
  \<open>Paced\<close>: nobody else calls the backend, and no context ends but the renewal context of the stalled
  leader.
\<close>

section \<open>The scenarios\<close>

definition scheduler_node :: "duration \<Rightarrow> string \<Rightarrow> client_config" where
  "scheduler_node ttl name = \<lparr>cf_ttl = ttl, cf_holder = ''node-'' @ name\<rparr>"

definition leading :: "('w \<Rightarrow> 'w \<times> ctx_err) \<Rightarrow> nat \<Rightarrow> 'w \<Rightarrow> 'w \<times> fn_outcome" where
  "leading cycle cycles w = (let (w, err) = runScheduler cycle cycles w in (w, FnReturned err))"

definition standby_config :: "'w elect_config" where
  "standby_config = \<lparr>ec_acquire = [WithWaitForLease, WithPollInterval (500 * millisecond)], ec_renewal = [], ec_idle = 0,
     ec_backoff = 0, ec_cleanup = 0, ec_on_elected = None, ec_on_lost = None, ec_on_relinquished = None\<rparr>"

definition scenario2StandbyFailover ::
  "'w program \<Rightarrow> 'w leader_env \<Rightarrow> ('w \<Rightarrow> 'w \<times> ctx_err) \<Rightarrow> 'w \<Rightarrow> 'w \<times> run_result" where
  "scenario2StandbyFailover P env cycle w =
     (let leaseC = pr_new P (scheduler_node (3 * second) ''C'');
          (w, acq) = l_acquire leaseC CallerCtx w ''scheduler:primary'' [];
          w = pr_sleep P (200 * millisecond) w;
          w = pr_sleep P (200 * millisecond) w;
          leaseD = pr_new P (scheduler_node (30 * second) ''D'')
      in elect env w (Some leaseD) ''scheduler:primary'' standby_config (Some (leading cycle 3)))"

text \<open>\<open>OnLost\<close> only logs. \<open>leaseE\<close> is the client on the stalled backend.\<close>

definition stalled_config :: "'w elect_config" where
  "stalled_config = \<lparr>ec_acquire = [], ec_renewal = [], ec_idle = 0,
     ec_backoff = 0, ec_cleanup = 0, ec_on_elected = None, ec_on_lost = Some (\<lambda>w tok. w), ec_on_relinquished = None\<rparr>"

definition scenario3StalledLeader ::
  "'w program \<Rightarrow> 'w lease \<Rightarrow> 'w leader_env \<Rightarrow> ('w \<Rightarrow> 'w \<times> ctx_err) \<Rightarrow> 'w \<Rightarrow>
   'w \<times> run_result \<times> (gerror + token) \<times> checkpoint" where
  "scenario3StalledLeader P leaseE env cycle w =
     (let (w, res) = elect env w (Some leaseE) ''scheduler:primary'' stalled_config (Some (leading cycle 20));
          leaseF = pr_new P (scheduler_node (30 * second) ''F'');
          (w, acq) = l_acquire leaseF CallerCtx w ''scheduler:primary'' [WithWaitForLease, WithPollInterval (100 * millisecond)];
          tokenF = or_zero zero_token acq;
          (w, cp) = l_read_checkpoint leaseF CallerCtx w tokenF;
          (w, err) = l_release leaseF CallerCtx w tokenF ExitFinished
      in (w, res, acq, or_zero zero_checkpoint cp))"

section \<open>A world in which time passes\<close>

definition ticking :: "'s cworld \<Rightarrow> bool" where
  "ticking w \<longleftrightarrow>
     (\<forall>n. ae_before (cw_envs w n) = [] \<and> ce_ctx (ae_call (cw_envs w n)) = None \<and> ae_wait (cw_envs w n) = None) \<and>
     (\<forall>n m j k. n < m \<or> n = m \<and> j \<le> k \<longrightarrow> reading w n j \<le> reading w m k) \<and>
     (\<forall>n j k. reading w (Suc n) k < reading w n j + 10 * second) \<and> (\<forall>x. \<exists>n. x < reading w n 0)"

lemma reading_pause [simp]: "reading (pause d w) n k = reading w n k + d"
  by (simp add: reading_def pause_def delay_def)

lemma pause_sel [simp]:
  "cw_n (pause d w) = cw_n w" "cw_log (pause d w) = cw_log w" "ae_before (cw_envs (pause d w) n) = ae_before (cw_envs w n)"
  "ce_ctx (ae_call (cw_envs (pause d w) n)) = ce_ctx (ae_call (cw_envs w n))" "ae_wait (cw_envs (pause d w) n) = ae_wait (cw_envs w n)"
  by (simp_all add: pause_def delay_def)

lemma reading_same [simp]:
  "reading (w\<lparr>cw_store := s\<rparr>) = reading w" "reading (w\<lparr>cw_n := n\<rparr>) = reading w" "reading (w\<lparr>cw_log := l\<rparr>) = reading w"
  by (simp_all add: reading_def fun_eq_iff)

lemma ticking_pause [simp]: "ticking (pause d w) = ticking w"
proof -
  have "(\<forall>x. \<exists>n. x < reading w n 0 + d) \<longleftrightarrow> (\<forall>x. \<exists>n. x - d < reading w n 0)"
    by (simp add: diff_less_eq)
  also have "\<dots> \<longleftrightarrow> (\<forall>x. \<exists>n. x < reading w n 0)"
    by (metis add_diff_cancel_right')
  finally have "(\<forall>x. \<exists>n. x < reading w n 0 + d) \<longleftrightarrow> (\<forall>x. \<exists>n. x < reading w n 0)" .
  then show ?thesis by (simp add: ticking_def)
qed

lemma ticking_after [simp]:
  "ticking (w\<lparr>cw_store := s\<rparr>) = ticking w" "ticking (w\<lparr>cw_n := n\<rparr>) = ticking w" "ticking (w\<lparr>cw_log := l\<rparr>) = ticking w"
  by (simp_all add: ticking_def)

text \<open>An attempt that finds the lease free.\<close>

lemma mem_free_attempt:
  assumes "ce_ctx env = None" and "\<And>r. mem_view s i = Some r \<Longrightarrow> row_expires r < ce_clk env 0"
  obtains s' tok r k where "acquire_attempt memory cfg env s i = (s', OnAcquire i tok (call_dur env) None, Inr tok)"
    "k = (if mem_view s i = None then 0 else 1)"
    "r = successor_row (mem_view s i) (cf_holder cfg) (seq s + 1) (time_add (ce_clk env k) (cf_ttl cfg)) (ce_clk env (k + 1))"
    "mem_view s' = (mem_view s)(i \<mapsto> r)" "seq s' = seq s + 1" "tk_work tok = i" "tk_token tok = seq s + 1" "held_by r (toRecord tok)"
proof -
  define k :: nat where "k = (if mem_view s i = None then 0 else 1)"
  define r where "r = successor_row (mem_view s i) (cf_holder cfg) (seq s + 1) (time_add (ce_clk env k) (cf_ttl cfg)) (ce_clk env (k + 1))"
  define tok where "tok = newToken \<lparr>lr_work = i, lr_holder = cf_holder cfg, lr_token = seq s + 1,
    lr_expires = row_expires r\<rparr> (time_add (ce_start env) (cf_ttl cfg))"
  define s' where "s' = \<lparr>records = AList.update i r (records s), seq = seq s + 1\<rparr>"
  have free: "time_after (ce_clk env 0) (row_expires r)" if "map_of (records s) i = Some r" for r
    using assms(2) [of r] that by (simp add: time_simps mem_view_def)
  have mem: "mem_acquire None (ce_clk env) s i (cf_holder cfg) (cf_ttl cfg) =
      (s', Inr \<lparr>lr_work = i, lr_holder = cf_holder cfg, lr_token = seq s + 1, lr_expires = row_expires r\<rparr>)"
    using free by (cases "mem_view s i") (auto simp: mem_acquire_def r_def k_def s'_def successor_row_def mem_view_def Let_def)
  show ?thesis
  proof (rule that [OF _ k_def r_def])
    show "acquire_attempt memory cfg env s i = (s', OnAcquire i tok (call_dur env) None, Inr tok)"
      using mem assms(1) by (simp add: acquire_attempt_def tok_def Let_def)
    show "mem_view s' = (mem_view s)(i \<mapsto> r)" by (simp add: s'_def mem_view_def fun_eq_iff)
  qed (simp_all add: s'_def tok_def newToken_def toRecord_def held_by_def r_def successor_row_def)
qed

lemma ticking_call: "ticking w \<Longrightarrow> ae_before (cw_envs w n) = [] \<and> ce_ctx (ae_call (cw_envs w n)) = None \<and> ae_wait (cw_envs w n) = None"
  by (simp add: ticking_def)

lemma ticking_mono: "ticking w \<Longrightarrow> n < m \<or> n = m \<and> j \<le> k \<Longrightarrow> reading w n j \<le> reading w m k"
  unfolding ticking_def by blast

lemma ticking_step: "ticking w \<Longrightarrow> reading w (Suc n) k < reading w n j + 10 * second"
  unfolding ticking_def by blast

text \<open>An \<open>Acquire\<close> of a lease that was never taken, and one that waits until the lease lapses.\<close>

definition acquired_at :: "memory_backend cworld \<Rightarrow> client_config \<Rightarrow> string \<Rightarrow> nat \<Rightarrow> memory_backend cworld \<Rightarrow> token \<Rightarrow> row \<Rightarrow> bool" where
  "acquired_at w cfg i n w' tok r \<longleftrightarrow>
     ticking w' \<and> reading w' = reading w \<and> cw_n w' = Suc n \<and> cw_cause w' = cw_cause w \<and> holds w' tok r \<and>
     mem_view (cw_store w') = (mem_view (cw_store w))(i \<mapsto> r) \<and> seq (cw_store w') = seq (cw_store w) + 1 \<and>
     tk_work tok = i \<and> tk_token tok = seq (cw_store w) + 1 \<and> row_exit r = ExitNone \<and> row_holder r = cf_holder cfg \<and>
     row_prev_exit r = cp_prev_exit (inherited (work_row w i)) \<and> row_prev_holder r = cp_prev_holder (inherited (work_row w i)) \<and>
     row_checkpoint r = cp_state (inherited (work_row w i)) \<and>
     ns (row_expires r) = reading w n (if work_row w i = None then 0 else 1) + cf_ttl cfg"

lemma attempt_at:
  assumes "ticking w" and "\<And>r. work_row w i = Some r \<Longrightarrow> ns (row_expires r) < reading w n 0"
  obtains s' tok r where "acquire_attempt memory cfg (ae_call (cw_envs w n)) (cw_store w) i =
      (s', OnAcquire i tok (call_dur (ae_call (cw_envs w n))) None, Inr tok)"
    "\<And>l. acquired_at w cfg i n (w\<lparr>cw_store := s', cw_n := Suc n, cw_log := l\<rparr>) tok r"
proof -
  have live: "ce_ctx (ae_call (cw_envs w n)) = None" using ticking_call [OF assms(1)] by simp
  have free: "row_expires r < ce_clk (ae_call (cw_envs w n)) 0" if "mem_view (cw_store w) i = Some r" for r
    using assms(2) [OF that] by (simp add: time_simps reading_def)
  show ?thesis
  proof (rule mem_free_attempt [where cfg = cfg, OF live free])
    fix s' tok r k
    assume att: "acquire_attempt memory cfg (ae_call (cw_envs w n)) (cw_store w) i =
        (s', OnAcquire i tok (call_dur (ae_call (cw_envs w n))) None, Inr tok)"
      and k: "k = (if mem_view (cw_store w) i = None then 0 else 1)"
      and r: "r = successor_row (mem_view (cw_store w) i) (cf_holder cfg) (seq (cw_store w) + 1)
        (time_add (ce_clk (ae_call (cw_envs w n)) k) (cf_ttl cfg)) (ce_clk (ae_call (cw_envs w n)) (k + 1))"
      and s': "mem_view s' = (mem_view (cw_store w))(i \<mapsto> r)" "seq s' = seq (cw_store w) + 1" "tk_work tok = i"
        "tk_token tok = seq (cw_store w) + 1" "held_by r (toRecord tok)"
    show ?thesis
      using that [OF att, of r] assms(1) s'
      by (simp add: k acquired_at_def holds_def r successor_row_def inherited_def zero_checkpoint_def reading_def split: option.split)
  qed simp_all
qed

lemma acquired_expires:
  assumes "acquired_at w cfg i n w' tok r" and "ticking w"
  shows "reading w n 0 + cf_ttl cfg \<le> ns (row_expires r)"
  using assms(1) ticking_mono [OF assms(2), of n n 0 1] by (simp add: acquired_at_def)

lemma ticking_first:
  assumes "ticking w" and "i \<noteq> ''''" and "work_row w i = None"
  obtains w' tok r where "l_acquire (client_lease memory cfg) c w i [] = (w', Inr tok)" "acquired_at w cfg i (cw_n w) w' tok r"
    "cw_log w' = cw_log w @ [OnAcquire i tok (call_dur (ae_call (cw_envs w (cw_n w)))) None]"
proof -
  obtain s' tok r where att: "acquire_attempt memory cfg (ae_call (cw_envs w (cw_n w))) (cw_store w) i =
      (s', OnAcquire i tok (call_dur (ae_call (cw_envs w (cw_n w)))) None, Inr tok)"
    and at: "\<And>l. acquired_at w cfg i (cw_n w) (w\<lparr>cw_store := s', cw_n := Suc (cw_n w), cw_log := l\<rparr>) tok r"
    using attempt_at [OF assms(1), of i "cw_n w" cfg] assms(3) by (metis option.distinct(1))
  show ?thesis
    by (rule that [OF _ at])
       (use att assms(2) ticking_call [OF assms(1)] in \<open>simp_all add: client_lease_def client_acquire_def default_acquire_config_def\<close>)
qed

lemma ticking_takeover:
  assumes "ticking w" and "i \<noteq> ''''" and "work_row w i = Some r0" and "ac_wait (apply_options opts default_acquire_config)"
  obtains k w' tok r where "l_acquire (client_lease memory cfg) c w i opts = (w', Inr tok)" "acquired_at w cfg i (cw_n w + k) w' tok r"
    "\<And>j. j < k \<Longrightarrow> reading w (cw_n w + j) 0 \<le> ns (row_expires r0)" "ns (row_expires r0) < reading w (cw_n w + k) 0"
    "cw_log w' = cw_log w @ map (\<lambda>j. held_event i (cw_envs w (cw_n w + j))) [0..<k] @
       [OnAcquire i tok (call_dur (ae_call (cw_envs w (cw_n w + k)))) None]"
proof -
  let ?late = "\<lambda>k. ns (row_expires r0) < reading w (cw_n w + k) 0"
  obtain n where n: "ns (row_expires r0) < reading w n 0" using assms(1) unfolding ticking_def by blast
  have "reading w n 0 \<le> reading w (cw_n w + n) 0" by (rule ticking_mono [OF assms(1)]) auto
  with n have ex: "?late n" by simp
  define k where "k = (LEAST k. ?late k)"
  have late: "?late k" unfolding k_def using ex by (rule LeastI)
  have early: "reading w (cw_n w + j) 0 \<le> ns (row_expires r0)" if "j < k" for j
    using not_less_Least [of j ?late] that by (simp add: k_def)
  obtain s' tok r where att: "acquire_attempt memory cfg (ae_call (cw_envs w (cw_n w + k))) (cw_store w) i =
      (s', OnAcquire i tok (call_dur (ae_call (cw_envs w (cw_n w + k)))) None, Inr tok)"
    and at: "\<And>l. acquired_at w cfg i (cw_n w + k) (w\<lparr>cw_store := s', cw_n := Suc (cw_n w + k), cw_log := l\<rparr>) tok r"
    using attempt_at [OF assms(1), of i "cw_n w + k" cfg] late assms(3) by (metis option.inject)
  have held: "held_attempt r0 (cw_envs w (cw_n w + j))" if "j < k" for j
    using early [OF that] ticking_call [OF assms(1)] by (simp add: held_attempt_def time_simps reading_def)
  have alone: "ae_before (cw_envs w (cw_n w + k)) = []" using ticking_call [OF assms(1)] by simp
  have "client_acquire memory cfg (\<lambda>k. cw_envs w (cw_n w + k)) (cw_store w) i opts =
      Some (s', map (\<lambda>j. held_event i (cw_envs w (cw_n w + j))) [0..<k] @
        [OnAcquire i tok (call_dur (ae_call (cw_envs w (cw_n w + k)))) None], Inr tok)"
    using mem_wait_ends [where k = k and envs = "\<lambda>k. cw_envs w (cw_n w + k)", OF assms(3,2,4) held alone att] by simp
  then show ?thesis
    by (intro that [OF _ at early late]) (simp_all add: client_lease_def)
qed

text \<open>What a holder does afterwards.\<close>

lemma acquired_step: "ticking w \<Longrightarrow> reading w (Suc (Suc n)) k < reading w n j + 20 * second"
  using ticking_step [of w n 0 j] ticking_step [of w "Suc n" k 0] by simp

lemma acquired_holds:
  assumes "acquired_at w cfg i n w1 tok r"
  shows "ticking w1" "cw_n w1 = Suc n" "cw_cause w1 = cw_cause w" "reading w1 = reading w" "tk_work tok = i"
    "mem_view (cw_store w1) i = Some r" "held_by r (toRecord tok)" "row_exit r = ExitNone"
  using assms by (auto simp: acquired_at_def holds_def)

lemma ticking_read:
  assumes "ticking w" and "mem_view (cw_store w) (tk_work tok) = Some r" and "held_by r (toRecord tok)"
  obtains w' where "l_read_checkpoint (client_lease memory cfg) c w tok = (w', Inr \<lparr>cp_state = row_checkpoint r,
      cp_prev_exit = row_prev_exit r, cp_prev_holder = row_prev_holder r\<rparr>)"
    "cw_store w' = cw_store w" "ticking w'" "cw_n w' = Suc (cw_n w)" "reading w' = reading w"
proof -
  define env where "env = ae_call (cw_envs w (cw_n w))"
  let ?cp = "\<lparr>cp_state = row_checkpoint r, cp_prev_exit = row_prev_exit r, cp_prev_holder = row_prev_holder r\<rparr>"
  have env: "ce_ctx env = None" "ae_before (cw_envs w (cw_n w)) = []"
    using ticking_call [OF assms(1)] by (simp_all add: env_def)
  have "mem_read_checkpoint None clk (cw_store w) (toRecord tok) = (cw_store w, Inr ?cp)" for clk
    using assms(2,3) by (auto simp: mem_read_checkpoint_def paced_defs)
  then obtain evs where "client_read_checkpoint memory cfg env (cw_store w) tok = (cw_store w, evs, Inr ?cp)"
    using env(1) by (simp add: client_read_checkpoint_def op_error_def Let_def)
  then have "l_read_checkpoint (client_lease memory cfg) c w tok =
      (w\<lparr>cw_store := cw_store w, cw_n := Suc (cw_n w), cw_log := cw_log w @ evs\<rparr>, Inr ?cp)"
    using env(2) by (simp add: cw_op_def env_def)
  then show ?thesis by (rule that) (use assms(1) in simp_all)
qed

lemma ticking_release:
  assumes "ticking w" and "mem_view (cw_store w) (tk_work tok) = Some r" and "held_by r (toRecord tok)" and "declarable m"
    and "reading w (cw_n w) 0 < ns (row_expires r)"
  obtains w' r' where "l_release (client_lease memory cfg) c w tok m = (w', None)"
    "mem_view (cw_store w') = (mem_view (cw_store w))(tk_work tok \<mapsto> r')" "row_exit r' = m" "row_holder r' = row_holder r"
    "row_prev_exit r' = row_prev_exit r" "row_prev_holder r' = row_prev_holder r"
    "cw_log w' = cw_log w @ [OnRelease tok (call_dur (ae_call (cw_envs w (cw_n w)))) m None]" "cw_n w' = Suc (cw_n w)"
proof -
  define env where "env = ae_call (cw_envs w (cw_n w))"
  have env: "ce_ctx env = None" "ae_before (cw_envs w (cw_n w)) = []" "ns (ce_clk env 0) < ns (row_expires r)"
    using ticking_call [OF assms(1)] assms(5) by (simp_all add: env_def reading_def)
  define r' where "r' = r\<lparr>row_exit := m, row_expires := time_add (ce_clk env 1) releaseGracePeriod, row_updated := ce_clk env 2\<rparr>"
  define s where "s = (cw_store w)\<lparr>records := AList.update (tk_work tok) r' (records (cw_store w))\<rparr>"
  have "client_release memory cfg env (cw_store w) tok m = (s, [OnRelease tok (call_dur env) m None], None)"
    using assms(2-4) env by (auto simp: client_release_def mem_release_def op_error_def paced_defs s_def r'_def declarable_iff fenced_events_def)
  then have "l_release (client_lease memory cfg) c w tok m =
      (w\<lparr>cw_store := s, cw_n := Suc (cw_n w), cw_log := cw_log w @ [OnRelease tok (call_dur env) m None]\<rparr>, None)"
    using env(2) by (simp add: cw_op_def env_def)
  then show ?thesis
    by (rule that [where r' = r']) (auto simp: s_def r'_def env_def mem_view_def fun_eq_iff)
qed

section \<open>Cycles that take time\<close>

lemma pause_0 [simp]: "pause 0 w = w"
proof -
  have "delay 0 env = env" for env :: attempt_env by (simp add: delay_def time_add_def)
  then show ?thesis by (simp add: pause_def)
qed

lemma pause_pause [simp]: "pause d (pause e w) = pause (e + d) w"
  by (simp add: pause_def delay_def time_add_def fun_eq_iff add.assoc)

lemma runScheduler_pauses:
  "runScheduler (\<lambda>w. (pause d w, None)) n w = (pause (int n * d) w, None)"
  by (induction n arbitrary: w) (simp_all add: algebra_simps)

lemma runScheduler_takes_time:
  assumes "\<And>w. \<exists>d. fst (cycle w) = pause d w"
  shows "\<exists>d err. runScheduler cycle n w = (pause d w, err)"
proof (induction n arbitrary: w)
  case 0
  show ?case by (intro exI [of _ 0]) simp
next
  case (Suc n)
  obtain d err where c: "cycle w = (pause d w, err)" using assms [of w] by (cases "cycle w") auto
  show ?case
  proof (cases err)
    case None
    obtain e err' where "runScheduler cycle n (pause d w) = (pause e (pause d w), err')" using Suc.IH by blast
    then show ?thesis using c None by (intro exI [of _ "d + e"]) simp
  qed (use c in auto)
qed

section \<open>Terms of leadership\<close>

lemma elect_client:
  assumes "l_acquire (client_lease b cfg) CallerCtx w i opts = (w1, Inr tok)" and "ec_acquire ec = opts" and "f w1 = (w2, FnReturned err)"
    and "ec_on_elected ec = None" and "callback (ec_on_lost ec) w2 tok = w2"
  shows "elect env w (Some (client_lease b cfg)) i ec (Some f) =
    (let (w3, res) = elect_finish env (client_lease b cfg) ec w2 tok err (cw_cause w2) in (w3, Done res))"
  using assms by (simp add: elect_def callback_def)

lemma elect_finish_relinquishes:
  assumes "l_release L (cleanup_ctx 0) w tok ExitFinished = (w', None)" and "ec_backoff ec = 0"
    and "ec_on_relinquished ec = None" and "ec_cleanup ec = 0"
  shows "elect_finish env L ec w tok None None = (w', None)"
proof -
  have kept: "lease_kept None None" and mode: "exit_due None None = ExitFinished"
    by (simp_all add: lease_kept_def exit_due_def)
  show ?thesis
    using elect_finish_release [OF kept, of L ec w tok w' None env] assms
    by (simp add: mode term_result_def elect_backoff_def callback_def)
qed

definition memory_program :: "memory_backend cworld program" where
  "memory_program = \<lparr>pr_fresh = (\<lambda>w. w\<lparr>cw_store := memory_new\<rparr>), pr_new = client_lease memory, pr_sleep = pause\<rparr>"

lemma memory_program_sel [simp]:
  "pr_fresh memory_program w = w\<lparr>cw_store := memory_new\<rparr>" "pr_new memory_program = client_lease memory"
  "pr_sleep memory_program = pause"
  by (simp_all add: memory_program_def)

lemma scheduler_node_sel [simp]:
  "cf_ttl (scheduler_node ttl name) = ttl" "cf_holder (scheduler_node ttl name) = ''node-'' @ name"
  by (simp_all add: scheduler_node_def)

lemma standby_leads:
  assumes "ticking w" and "cw_cause w = None" and "work_row w i = Some r0" and "i \<noteq> ''''"
  obtains k held w' tok d d' row where
    "elect env w (Some (client_lease memory (scheduler_node (30 * second) name))) i standby_config
       (Some (leading (\<lambda>w. (pause (200 * millisecond) w, None)) 3)) = (w', Done None)"
    "cw_log w' = cw_log w @ held @ [OnAcquire i tok d None, OnRelease tok d' ExitFinished None]"
    "list_all (\<lambda>ev. ev_token ev = zero_token \<and> ev_err ev = Some ErrLeaseHeld) held"
    "tk_token tok = seq (cw_store w) + 1" "work_row w' i = Some row" "row_holder row = ''node-'' @ name"
    "row_exit row = ExitFinished" "row_prev_exit row = cp_prev_exit (inherited (Some r0))"
    "row_prev_holder row = row_holder r0" "length held = k" "cw_n w' = cw_n w + k + 2"
    "\<And>j. j < k \<Longrightarrow> reading w (cw_n w + j) 0 \<le> ns (row_expires r0)" "ns (row_expires r0) < reading w (cw_n w + k) 0"
proof -
  let ?cfg = "scheduler_node (30 * second) name"
  let ?opts = "[WithWaitForLease, WithPollInterval (500 * millisecond)]"
  have opts: "ac_wait (apply_options ?opts default_acquire_config)"
    by (simp add: WithWaitForLease_def WithPollInterval_def)
  obtain k w1 tok r where acq: "l_acquire (client_lease memory ?cfg) CallerCtx w i ?opts = (w1, Inr tok)"
    and w1: "acquired_at w ?cfg i (cw_n w + k) w1 tok r"
    and times: "\<And>j. j < k \<Longrightarrow> reading w (cw_n w + j) 0 \<le> ns (row_expires r0)" "ns (row_expires r0) < reading w (cw_n w + k) 0"
    and log: "cw_log w1 = cw_log w @ map (\<lambda>j. held_event i (cw_envs w (cw_n w + j))) [0..<k] @
       [OnAcquire i tok (call_dur (ae_call (cw_envs w (cw_n w + k)))) None]"
    by (rule ticking_takeover [where cfg = ?cfg and c = CallerCtx, OF assms(1,4,3) opts]) (rule that)
  note w1' = acquired_holds [OF w1]
  let ?w2 = "pause (600 * millisecond) w1"
  have lead: "leading (\<lambda>w. (pause (200 * millisecond) w, None)) 3 w1 = (?w2, FnReturned None)"
    by (simp add: leading_def runScheduler_pauses)
  have n: "cw_n ?w2 = Suc (cw_n w + k)" using w1'(2) by simp
  have "reading ?w2 (cw_n ?w2) 0 < reading w (cw_n w + k) 0 + 10 * second + 600 * millisecond"
    using ticking_step [OF assms(1), of "cw_n w + k" 0 0] w1'(4) unfolding n by simp
  also have "\<dots> < ns (row_expires r)" using acquired_expires [OF w1 assms(1)] by simp
  finally have live: "reading ?w2 (cw_n ?w2) 0 < ns (row_expires r)" .
  have held: "ticking ?w2" "mem_view (cw_store ?w2) (tk_work tok) = Some r" "held_by r (toRecord tok)" "declarable ExitFinished"
    using w1' by (simp_all add: declarable_iff)
  obtain w3 row where
    rel: "l_release (client_lease memory ?cfg) (cleanup_ctx 0) ?w2 tok ExitFinished = (w3, None)"
    and w3: "mem_view (cw_store w3) = (mem_view (cw_store ?w2))(tk_work tok \<mapsto> row)" "row_exit row = ExitFinished"
      "row_holder row = row_holder r" "row_prev_exit row = row_prev_exit r" "row_prev_holder row = row_prev_holder r"
      "cw_log w3 = cw_log ?w2 @ [OnRelease tok (call_dur (ae_call (cw_envs ?w2 (cw_n ?w2)))) ExitFinished None]"
      "cw_n w3 = Suc (cw_n ?w2)"
    by (rule ticking_release [where cfg = ?cfg and c = "cleanup_ctx 0", OF held live])
  have fin: "elect_finish env (client_lease memory ?cfg) standby_config ?w2 tok None None = (w3, None)"
    by (rule elect_finish_relinquishes [OF rel]) (simp_all add: standby_config_def)
  have run: "elect env w (Some (client_lease memory ?cfg)) i standby_config
      (Some (leading (\<lambda>w. (pause (200 * millisecond) w, None)) 3)) = (w3, Done None)"
    using elect_client [where ec = standby_config and env = env and f = "leading (\<lambda>w. (pause (200 * millisecond) w, None)) 3",
      OF acq _ lead] fin w1'(3) assms(2) by (simp add: standby_config_def callback_def)
  have r: "tk_token tok = seq (cw_store w) + 1" "row_holder r = ''node-'' @ name"
    "row_prev_exit r = cp_prev_exit (inherited (Some r0))" "row_prev_holder r = row_holder r0"
    using w1 assms(3) by (simp_all add: acquired_at_def inherited_def)
  show ?thesis
  proof (rule that [OF run, where held = "map (\<lambda>j. held_event i (cw_envs w (cw_n w + j))) [0..<k]" and tok = tok and k = k])
    show "list_all (\<lambda>ev. ev_token ev = zero_token \<and> ev_err ev = Some ErrLeaseHeld) (map (\<lambda>j. held_event i (cw_envs w (cw_n w + j))) [0..<k])"
      by (simp add: list_all_iff held_event_def)
    show "cw_log w3 = cw_log w @ map (\<lambda>j. held_event i (cw_envs w (cw_n w + j))) [0..<k] @
        [OnAcquire i tok (call_dur (ae_call (cw_envs w (cw_n w + k)))) None,
         OnRelease tok (call_dur (ae_call (cw_envs ?w2 (cw_n ?w2)))) ExitFinished None]"
      using w3(6) log by simp
    show "work_row w3 i = Some row" using w3(1) w1'(5) by simp
    show "cw_n w3 = cw_n w + k + 2" using w3(7) n by simp
  qed (use w3(2-5) r times in simp_all)
qed

text \<open>The stalled leader's election, which ends without a release.\<close>

lemma stalled_acquire:
  "ae_before (cw_envs w (cw_n w)) = [] \<Longrightarrow>
   l_acquire (client_lease (stalledRenew fin b) cfg) c w i [] = l_acquire (client_lease b cfg) c w i []"
  by (simp add: client_lease_def client_acquire_def default_acquire_config_def acquire_attempt_def stalledRenew_def)

lemma stalled_term:
  assumes "ticking w" and "cw_cause w = Some ErrLeaseWindowExhausted" and "work_row w i = None" and "i \<noteq> ''''"
    and "\<And>w. \<exists>d. fst (cycle w) = pause d w"
  obtains w' e r where
    "elect env w (Some (client_lease (stalledRenew fin memory) cfg)) i stalled_config (Some (leading cycle 20)) = (w', Done (Some e))"
    "ticking w'" "work_row w' i = Some r" "row_exit r = ExitNone" "row_holder r = cf_holder cfg"
    "seq (cw_store w') = seq (cw_store w) + 1"
proof -
  obtain w1 tok r where acq: "l_acquire (client_lease memory cfg) CallerCtx w i [] = (w1, Inr tok)"
    and w1: "acquired_at w cfg i (cw_n w) w1 tok r"
    by (rule ticking_first [where cfg = cfg and c = CallerCtx, OF assms(1,4,3)]) (rule that)
  have acqE: "l_acquire (client_lease (stalledRenew fin memory) cfg) CallerCtx w i [] = (w1, Inr tok)"
    using acq ticking_call [OF assms(1)] by (simp add: stalled_acquire)
  obtain d err where "runScheduler cycle 20 w1 = (pause d w1, err)" using runScheduler_takes_time [OF assms(5)] by blast
  then have lead: "leading cycle 20 w1 = (pause d w1, FnReturned err)" by (simp add: leading_def)
  have "\<exists>e. elect_finish env (client_lease (stalledRenew fin memory) cfg) stalled_config (pause d w1) tok err
      (Some ErrLeaseWindowExhausted) = (pause d w1, Some e)"
    by (cases err) (simp_all add: elect_finish_def elect_backoff_def stalled_config_def)
  then obtain e where "elect_finish env (client_lease (stalledRenew fin memory) cfg) stalled_config (pause d w1) tok err
      (Some ErrLeaseWindowExhausted) = (pause d w1, Some e)" by blast
  then have "elect env w (Some (client_lease (stalledRenew fin memory) cfg)) i stalled_config (Some (leading cycle 20)) =
      (pause d w1, Done (Some e))"
    using elect_client [where ec = stalled_config and f = "leading cycle 20" and env = env, OF acqE _ lead] acquired_holds(3) [OF w1] assms(2)
    by (simp add: stalled_config_def callback_def)
  then show ?thesis
    by (rule that [where r = r]) (use w1 in \<open>simp_all add: acquired_at_def\<close>)
qed

section \<open>Properties\<close>

text \<open>
  C22. A standby takes over. Node C acquires the lease, which lasts for 3s from the reading of the
  clock at that call, and crashes after two cycles of 200ms; node D waits for it. If time passes and
  nobody else interferes, D's election returns nil: every attempt of D at which the clock has not
  passed the end of C's lease is told that the lease is held, and the first at which it has acquires
  it, with the next token. D leads for its three cycles and releases; the row records D's finished
  term and that C's lease expired. There are no other calls: the \<open>j\<close>-th attempt of D is call \<open>j\<close> after C's.
\<close>

theorem standby_takes_over:
  assumes "ticking w" and "cw_cause w = None"
  defines "lease_end \<equiv> reading w (cw_n w) 0 + 3 * second"
    and "attempt \<equiv> \<lambda>j. reading w (Suc (cw_n w) + j) 0 + 2 * (200 * millisecond)"
  shows "\<exists>w' held tokC tokD c d e row.
    scenario2StandbyFailover memory_program env (\<lambda>w. (pause (200 * millisecond) w, None)) (pr_fresh memory_program w) =
      (w', Done None) \<and>
    cw_log w' = cw_log w @ OnAcquire ''scheduler:primary'' tokC c None # held @
      [OnAcquire ''scheduler:primary'' tokD d None, OnRelease tokD e ExitFinished None] \<and>
    list_all (\<lambda>ev. ev_token ev = zero_token \<and> ev_err ev = Some ErrLeaseHeld) held \<and>
    (\<forall>j < length held. attempt j \<le> lease_end) \<and> lease_end < attempt (length held) \<and>
    cw_n w' = cw_n w + length held + 3 \<and>
    tk_token tokC = 1 \<and> tk_token tokD = 2 \<and> work_row w' ''scheduler:primary'' = Some row \<and>
    row_holder row = ''node-D'' \<and> row_exit row = ExitFinished \<and> row_prev_exit row = ExitExpired \<and> row_prev_holder row = ''node-C''"
proof -
  let ?i = "''scheduler:primary''" and ?w = "w\<lparr>cw_store := memory_new\<rparr>" and ?C = "scheduler_node (3 * second) ''C''"
  have fresh: "ticking ?w" "?i \<noteq> ''''" "work_row ?w ?i = None"
    using assms(1) by (simp_all add: mem_view_def memory_new_def)
  obtain w1 tokC r where C: "l_acquire (client_lease memory ?C) CallerCtx ?w ?i [] = (w1, Inr tokC)"
    and w1: "acquired_at ?w ?C ?i (cw_n ?w) w1 tokC r"
    and logC: "cw_log w1 = cw_log ?w @ [OnAcquire ?i tokC (call_dur (ae_call (cw_envs ?w (cw_n ?w)))) None]"
    by (rule ticking_first [where cfg = ?C and c = CallerCtx, OF fresh])
  let ?w2 = "pause (200 * millisecond) (pause (200 * millisecond) w1)"
  have r: "row_exit r = ExitNone" "row_holder r = ''node-C''" "tk_token tokC = 1" "seq (cw_store w1) = 1"
    using w1 by (simp_all add: acquired_at_def memory_new_def)
  have w2: "ticking ?w2" "cw_cause ?w2 = None" "work_row ?w2 ?i = Some r" "?i \<noteq> ''''"
    using acquired_holds [OF w1] assms(2) by simp_all
  obtain k held w' tokD d e row where
    D: "elect env ?w2 (Some (client_lease memory (scheduler_node (30 * second) ''D''))) ?i standby_config
       (Some (leading (\<lambda>w. (pause (200 * millisecond) w, None)) 3)) = (w', Done None)"
    and w': "cw_log w' = cw_log ?w2 @ held @ [OnAcquire ?i tokD d None, OnRelease tokD e ExitFinished None]"
    "list_all (\<lambda>ev. ev_token ev = zero_token \<and> ev_err ev = Some ErrLeaseHeld) held"
    "tk_token tokD = seq (cw_store ?w2) + 1" "work_row w' ?i = Some row" "row_holder row = ''node-'' @ ''D''"
    "row_exit row = ExitFinished" "row_prev_exit row = cp_prev_exit (inherited (Some r))"
    "row_prev_holder row = row_holder r"
    and times: "length held = k" "cw_n w' = cw_n ?w2 + k + 2"
      "\<And>j. j < k \<Longrightarrow> reading ?w2 (cw_n ?w2 + j) 0 \<le> ns (row_expires r)" "ns (row_expires r) < reading ?w2 (cw_n ?w2 + k) 0"
    by (rule standby_leads [OF w2, of env "''D''"]) (rule that)
  have "scenario2StandbyFailover memory_program env (\<lambda>w. (pause (200 * millisecond) w, None)) (pr_fresh memory_program w) = (w', Done None)"
    using C D by (simp add: scenario2StandbyFailover_def)
  moreover have "row_prev_exit row = ExitExpired" using w'(7) r(1) by (simp add: inherited_def)
  moreover have "cw_log w' = cw_log w @ OnAcquire ?i tokC (call_dur (ae_call (cw_envs ?w (cw_n ?w)))) None # held @
      [OnAcquire ?i tokD d None, OnRelease tokD e ExitFinished None]"
    using w'(1) logC by simp
  moreover have "tk_token tokD = 2" using w'(3) r(4) by simp
  moreover have "lease_end = ns (row_expires r)"
    using w1 fresh(3) by (simp add: acquired_at_def lease_end_def)
  moreover have "attempt j = reading ?w2 (cw_n ?w2 + j) 0" for j
    using acquired_holds(2,4) [OF w1] by (simp add: attempt_def)
  moreover have "cw_n w' = cw_n w + length held + 3"
    using times(1,2) acquired_holds(2) [OF w1] by simp
  ultimately show ?thesis
    using w'(2,4-6,8) r(2,3) times by (intro exI conjI) (assumption | simp)+
qed

text \<open>Every call half a second after the one before.\<close>

definition ex_ticking :: "memory_backend cworld" where
  "ex_ticking = ex_world\<lparr>cw_envs := (\<lambda>n. \<lparr>ae_before = [], ae_call = \<lparr>ce_ctx = None, ce_clk = (\<lambda>k. At (int n * (500 * millisecond))),
     ce_start = At 0, ce_end = At 0\<rparr>, ae_wait = None\<rparr>)\<rparr>"

lemma ex_ticking_ok: "ticking ex_ticking" "cw_cause ex_ticking = None"
proof -
  have "\<exists>n. x < int n * (500 * millisecond)" for x
    by (intro exI [of _ "nat (\<bar>x\<bar> + 1)"]) (simp add: algebra_simps)
  then show "ticking ex_ticking" by (auto simp: ticking_def reading_def ex_ticking_def ex_world_def)
qed (simp add: ex_ticking_def ex_world_def)

theorem standby_takes_over_witness:
  "\<exists>w' c held a b. scenario2StandbyFailover memory_program ex_env (\<lambda>w. (pause (200 * millisecond) w, None))
      (pr_fresh memory_program ex_ticking) = (w', Done None) \<and>
     cw_log w' = c # held @ [a, b] \<and> length held = 5 \<and> list_all (\<lambda>ev. ev_err ev = Some ErrLeaseHeld) held"
proof -
  have read: "reading ex_ticking n k = int n * (500 * millisecond)" for n k
    by (simp add: reading_def ex_ticking_def)
  have w: "cw_n ex_ticking = 0" "cw_log ex_ticking = []" by (simp_all add: ex_ticking_def ex_world_def)
  obtain w' held tokC tokD c d e where run: "scenario2StandbyFailover memory_program ex_env
      (\<lambda>w. (pause (200 * millisecond) w, None)) (pr_fresh memory_program ex_ticking) = (w', Done None)"
    "cw_log w' = OnAcquire ''scheduler:primary'' tokC c None # held @
      [OnAcquire ''scheduler:primary'' tokD d None, OnRelease tokD e ExitFinished None]"
    "list_all (\<lambda>ev. ev_token ev = zero_token \<and> ev_err ev = Some ErrLeaseHeld) held"
    "\<And>j. j < length held \<Longrightarrow> (1 + int j) * (500 * millisecond) + 2 * (200 * millisecond) \<le> 3 * second"
    "3 * second < (1 + int (length held)) * (500 * millisecond) + 2 * (200 * millisecond)"
    using standby_takes_over [OF ex_ticking_ok, of ex_env] unfolding read w by auto
  have "length held = 5"
    using run(4) [of 5] run(5) by (cases "length held" "5 :: nat" rule: linorder_cases) auto
  then show ?thesis using run(1-3) by (auto simp: list_all_iff)
qed

text \<open>
  A stalled leader is replaced. Every \<open>Renew\<close> of node E stalls, so that its renewal ends with an
  exhausted window (as \<open>Scheduler\<close> shows): its election returns an error without a release, and node F,
  waiting, acquires the lease with the next token and reads that the previous leader's lease expired.
\<close>

theorem stalled_leader_replaced:
  assumes "ticking w" and "cw_cause w = Some ErrLeaseWindowExhausted" and "\<And>w. \<exists>d. fst (cycle w) = pause d w"
  shows "\<exists>w' err tokF cp row.
    scenario3StalledLeader memory_program (client_lease (stalledRenew fin memory) (scheduler_node (2 * second) ''E'')) env cycle
      (pr_fresh memory_program w) = (w', Done (Some err), Inr tokF, cp) \<and>
    tk_token tokF = 2 \<and> cp_prev_exit cp = ExitExpired \<and> cp_prev_holder cp = ''node-E'' \<and>
    work_row w' ''scheduler:primary'' = Some row \<and> row_holder row = ''node-F'' \<and> row_exit row = ExitFinished"
proof -
  let ?i = "''scheduler:primary''" and ?w = "w\<lparr>cw_store := memory_new\<rparr>" and ?E = "scheduler_node (2 * second) ''E''"
    and ?F = "scheduler_node (30 * second) ''F''" and ?opts = "[WithWaitForLease, WithPollInterval (100 * millisecond)]"
  have fresh: "ticking ?w" "cw_cause ?w = Some ErrLeaseWindowExhausted" "work_row ?w ?i = None" "?i \<noteq> ''''"
    using assms(1,2) by (simp_all add: mem_view_def memory_new_def)
  obtain w1 err r where E: "elect env ?w (Some (client_lease (stalledRenew fin memory) ?E)) ?i stalled_config
      (Some (leading cycle 20)) = (w1, Done (Some err))"
    and w1: "ticking w1" "work_row w1 ?i = Some r" "row_exit r = ExitNone" "row_holder r = cf_holder ?E"
      "seq (cw_store w1) = seq (cw_store ?w) + 1"
    by (rule stalled_term [OF fresh assms(3), of env fin ?E])
  have opts: "ac_wait (apply_options ?opts default_acquire_config)"
    by (simp add: WithWaitForLease_def WithPollInterval_def)
  obtain k w2 tokF r2 where F: "l_acquire (client_lease memory ?F) CallerCtx w1 ?i ?opts = (w2, Inr tokF)"
    and w2: "acquired_at w1 ?F ?i (cw_n w1 + k) w2 tokF r2"
    by (rule ticking_takeover [where cfg = ?F and c = CallerCtx, OF w1(1) fresh(4) w1(2) opts]) (rule that)
  note w2' = acquired_holds [OF w2]
  have held: "mem_view (cw_store w2) (tk_work tokF) = Some r2" using w2'(5,6) by simp
  obtain w3 where R: "l_read_checkpoint (client_lease memory ?F) CallerCtx w2 tokF = (w3, Inr \<lparr>cp_state = row_checkpoint r2,
      cp_prev_exit = row_prev_exit r2, cp_prev_holder = row_prev_holder r2\<rparr>)"
    and w3: "cw_store w3 = cw_store w2" "ticking w3" "cw_n w3 = Suc (cw_n w2)" "reading w3 = reading w2"
    by (rule ticking_read [where cfg = ?F and c = CallerCtx, OF w2'(1) held w2'(7)])
  have "reading w3 (cw_n w3) 0 < reading w1 (cw_n w1 + k) 0 + 20 * second"
    using acquired_step [OF w1(1), of "cw_n w1 + k" 0 0] w3(3,4) w2'(2,4) by simp
  also have "\<dots> < ns (row_expires r2)" using acquired_expires [OF w2 w1(1)] by simp
  finally have live: "reading w3 (cw_n w3) 0 < ns (row_expires r2)" .
  have held3: "mem_view (cw_store w3) (tk_work tokF) = Some r2" "declarable ExitFinished"
    using held w3(1) by (simp_all add: declarable_iff)
  obtain w4 row where rel: "l_release (client_lease memory ?F) CallerCtx w3 tokF ExitFinished = (w4, None)"
    and w4: "mem_view (cw_store w4) = (mem_view (cw_store w3))(tk_work tokF \<mapsto> row)" "row_exit row = ExitFinished"
      "row_holder row = row_holder r2"
    by (rule ticking_release [where cfg = ?F and c = CallerCtx, OF w3(2) held3(1) w2'(7) held3(2) live]) (rule that)
  have r2: "row_holder r2 = ''node-F''" "row_prev_exit r2 = ExitExpired" "row_prev_holder r2 = ''node-E''" "tk_token tokF = 2"
    using w2 w1 by (simp_all add: acquired_at_def inherited_def memory_new_def)
  have "scenario3StalledLeader memory_program (client_lease (stalledRenew fin memory) ?E) env cycle (pr_fresh memory_program w) =
      (w4, Done (Some err), Inr tokF, \<lparr>cp_state = row_checkpoint r2, cp_prev_exit = row_prev_exit r2, cp_prev_holder = row_prev_holder r2\<rparr>)"
    using E F R rel by (simp add: scenario3StalledLeader_def or_zero_def del: client_lease_sel)
  then show ?thesis
    using r2 w4 w2'(5) by (intro exI conjI) (assumption | simp)+
qed

end
