(* ===== verification/Partition_Pools.thy ===== *)
theory Partition_Pools
  imports Partition Json_Codec
begin

text \<open>
  The scenarios of \<open>examples/partition-processor/main.go\<close> as pools: which states their slots can reach
  and what \<open>Run\<close> returns.

  Nobody but the pool uses its work IDs, so that no slot is ever fenced or finds its lease held:
  \<open>Acquire\<close> fails only once the context is done, and a run returns what \<open>work_mode\<close> makes of the error of
  its work function. \<open>out\<close> lists the errors the work function may return for a work ID; only a pool with
  a deadline (\<open>lim\<close>) is ever cancelled. Slots interleave in every order.
\<close>

section \<open>Undisturbed pools\<close>

fun undisturbed :: "pool_config \<Rightarrow> (string \<Rightarrow> gerror option list) \<Rightarrow> bool \<Rightarrow> pool_state \<Rightarrow> pool_action \<Rightarrow> bool" where
  "undisturbed cfg out lim p (LeaveWork i werr) \<longleftrightarrow> werr \<in> set (out (pc_work_ids cfg ! i))"
| "undisturbed cfg out lim p (RunReturns i runErr draw) \<longleftrightarrow>
     (case pl_slots p ! i of
        Finishing retired \<Rightarrow>
          list_ex (\<lambda>werr. retired = err_matches werr ErrRetire \<and> runErr = snd (work_mode werr)) (out (pc_work_ids cfg ! i))
      | _ \<Rightarrow> pl_ctx p \<noteq> None)"
| "undisturbed cfg out lim p (CancelRun e) \<longleftrightarrow> lim"
| "undisturbed cfg out lim p act \<longleftrightarrow> True"

text \<open>The states after \<open>n\<close> steps.\<close>

inductive pool_runs :: "pool_config \<Rightarrow> (string \<Rightarrow> gerror option list) \<Rightarrow> bool \<Rightarrow> nat \<Rightarrow> pool_state \<Rightarrow> bool" for cfg out lim where
  start: "pool_runs cfg out lim 0 (pool_start cfg None)"
| step: "pool_runs cfg out lim n p \<Longrightarrow> undisturbed cfg out lim p act \<Longrightarrow> pool_step cfg act p = Some p' \<Longrightarrow>
    pool_runs cfg out lim (Suc n) p'"

text \<open>A slot whose work ends it at once: it runs once, and reports so.\<close>

definition one_shot :: "gerror \<Rightarrow> bool" where
  "one_shot e \<longleftrightarrow> e = ErrRetire \<or>
     errors_as_permanent e = Some True \<and> \<not> errors_is e ErrFenced \<and> \<not> errors_is e ErrRetire"

fun stage :: "bool \<Rightarrow> gerror \<Rightarrow> nat \<Rightarrow> slot \<Rightarrow> pool_event list \<Rightarrow> bool" where
  "stage lim e i Running evs \<longleftrightarrow> evs = []"
| "stage lim e i Working evs \<longleftrightarrow> evs = [OnSlotAcquired i]"
| "stage lim e i (Finishing b) evs \<longleftrightarrow> evs = [OnSlotAcquired i] \<and> b = (e = ErrRetire)"
| "stage lim e i (Asleep d) evs \<longleftrightarrow> False"
| "stage lim e i (Gone ExitRetire) evs \<longleftrightarrow> evs = [OnSlotAcquired i, OnSlotRetired i] \<and> e = ErrRetire"
| "stage lim e i (Gone ExitDead) evs \<longleftrightarrow> evs = [OnSlotAcquired i, OnSlotDead i e] \<and> e \<noteq> ErrRetire"
| "stage lim e i (Gone ExitCancel) evs \<longleftrightarrow> lim \<and> (evs = [] \<or> evs = [OnSlotAcquired i])"

text \<open>A slot whose work never ends it.\<close>

definition patient :: "gerror option list \<Rightarrow> bool" where
  "patient errs \<longleftrightarrow> list_all (\<lambda>werr. case werr of None \<Rightarrow> True
     | Some e \<Rightarrow> errors_as_permanent e \<noteq> Some True \<and> \<not> errors_is e ErrRetire) errs"

definition slot_fits :: "bool \<Rightarrow> gerror option list \<Rightarrow> nat \<Rightarrow> slot \<Rightarrow> pool_event list \<Rightarrow> bool" where
  "slot_fits lim errs i s evs \<longleftrightarrow>
     (\<forall>e. errs = [Some e] \<and> one_shot e \<longrightarrow> stage lim e i s evs) \<and>
     (patient errs \<longrightarrow> s \<noteq> Gone ExitDead \<and> s \<noteq> Gone ExitRetire \<and> s \<noteq> Finishing True)"

definition slots_fit :: "pool_config \<Rightarrow> (string \<Rightarrow> gerror option list) \<Rightarrow> bool \<Rightarrow> pool_state \<Rightarrow> bool" where
  "slots_fit cfg out lim p \<longleftrightarrow> count_inv cfg p \<and> (lim \<or> quiet_inv p) \<and>
     (\<forall>i < length (pl_slots p). slot_fits lim (out (pc_work_ids cfg ! i)) i (pl_slots p ! i) (reports i (pl_log p)))"

lemma slots_fit_update:
  assumes "slots_fit cfg out lim p" and "count_inv cfg p'" and "lim \<or> quiet_inv p'"
    and "pl_slots p' = (pl_slots p)[i := s]" and "pl_log p' = pl_log p @ evs" and "list_all (\<lambda>e. slot_of e = i) evs"
    and "i < length (pl_slots p) \<Longrightarrow>
      slot_fits lim (out (pc_work_ids cfg ! i)) i (pl_slots p ! i) (reports i (pl_log p)) \<Longrightarrow>
      slot_fits lim (out (pc_work_ids cfg ! i)) i s (reports i (pl_log p) @ evs)"
  shows "slots_fit cfg out lim p'"
proof -
  have own: "reports i evs = evs" using assms(6) by (simp add: reports_def list_all_iff filter_id_conv)
  have other: "reports j evs = []" if "j \<noteq> i" for j
    using assms(6) that by (auto simp: reports_def list_all_iff filter_empty_conv)
  have "slot_fits lim (out (pc_work_ids cfg ! j)) j (pl_slots p' ! j) (reports j (pl_log p'))"
    if "j < length (pl_slots p')" for j
    using that assms(1,4,5,7) own other [of j] by (cases "j = i") (simp_all add: slots_fit_def)
  then show ?thesis using assms(2,3) by (simp add: slots_fit_def)
qed

lemma decide_one_shot:
  assumes "one_shot e"
  shows "slot_decide (snd (work_mode (Some e))) (errors_is e ErrRetire) ctx =
    (if e = ErrRetire then DoRetire else if ctx \<noteq> None then DoQuit else DoDead)"
    and "e \<noteq> ErrRetire \<Longrightarrow> snd (work_mode (Some e)) = Some e" and "errors_is e ErrRetire \<longleftrightarrow> e = ErrRetire"
  using assms by (auto simp: one_shot_def slot_decide_def work_mode_def)

lemma decide_patient:
  assumes "patient errs" and "werr \<in> set errs"
  shows "slot_decide (snd (work_mode werr)) (err_matches werr ErrRetire) ctx \<notin> {DoRetire, DoDead}"
  using assms by (cases werr) (auto simp: patient_def list_all_iff slot_decide_def work_mode_def)

text \<open>What a slot becomes after a run, and reports.\<close>

definition after_run :: "pool_config \<Rightarrow> nat \<Rightarrow> gerror option \<Rightarrow> int \<Rightarrow> slot_action \<Rightarrow> slot \<times> pool_event list" where
  "after_run cfg i runErr draw act =
     (case act of
        DoRetire \<Rightarrow> (Gone ExitRetire, [OnSlotRetired i])
      | DoQuit \<Rightarrow> (Gone ExitCancel, [])
      | DoRerun \<Rightarrow> (Asleep (pool_jitterWait draw (pc_rerun cfg)), [])
      | DoLost \<Rightarrow> (Running, [OnSlotLost i])
      | DoDead \<Rightarrow> (Gone ExitDead, [OnSlotDead i (the runErr)])
      | DoIdle \<Rightarrow> (Asleep (pool_jitterWait draw (pc_idle cfg)), [])
      | DoBackoff \<Rightarrow> (Asleep (pc_backoff cfg), [OnSlotBackoff i (the runErr) (pc_backoff cfg)]))"

lemma run_returned_after:
  assumes "after_run cfg i err draw (slot_decide err retired (pl_ctx p)) = (s, evs)"
  shows "pl_slots (run_returned cfg i err retired draw p) = (pl_slots p)[i := s]"
    and "pl_log (run_returned cfg i err retired draw p) = pl_log p @ evs" and "list_all (\<lambda>e. slot_of e = i) evs"
  using assms by (cases "slot_decide err retired (pl_ctx p)"; force simp: run_returned_def after_run_def)+

lemma slots_fit_step:
  assumes "slots_fit cfg out lim p" and "undisturbed cfg out lim p act" and "pool_step cfg act p = Some p'"
  shows "slots_fit cfg out lim p'"
proof -
  have count: "count_inv cfg p'" using count_inv_step [OF _ assms(3)] assms(1) by (simp add: slots_fit_def)
  have cancel: "lim" if "is_cancel act" using that assms(2) by (cases act) auto
  have quiet: "lim \<or> quiet_inv p'"
    using quiet_inv_step [OF _ _ assms(3)] assms(1) cancel by (auto simp: slots_fit_def)
  note update = slots_fit_update [OF assms(1) count quiet]
  show ?thesis
    using assms(3)
  proof (cases rule: pool_stepE)
    case (enter i)
    then show ?thesis
      by (intro update [of i Working "[OnSlotAcquired i]"]) (auto simp: slot_fits_def)
  next
    case (leave i err)
    then have out: "err \<in> set (out (pc_work_ids cfg ! i))" using assms(2) by simp
    have retire: "errors_is e ErrRetire \<longleftrightarrow> e = ErrRetire" if "one_shot e" for e
      using that by (auto simp: one_shot_def)
    have "err_matches err ErrRetire = False" if "patient (out (pc_work_ids cfg ! i))"
      using that out by (cases err) (auto simp: patient_def list_all_iff)
    then show ?thesis
      using leave out retire
      by (intro update [of i "Finishing (err_matches err ErrRetire)" "[]"]) (auto simp: slot_fits_def)
  next
    case (returns i err draw retired)
    have live: "lim \<or> pl_ctx p = None"
      using assms(1) returns(2,3) by (auto simp: slots_fit_def quiet_inv_def all_dead_def list_all_length)
    obtain s evs where after: "after_run cfg i err draw (slot_decide err retired (pl_ctx p)) = (s, evs)"
      by (cases "after_run cfg i err draw (slot_decide err retired (pl_ctx p))")
    let ?errs = "out (pc_work_ids cfg ! i)"
    have fits: "slot_fits lim ?errs i s (reports i (pl_log p) @ evs)"
      if was: "slot_fits lim ?errs i (pl_slots p ! i) (reports i (pl_log p))"
    proof (cases "pl_slots p ! i = Running")
      case True
      then have "pl_ctx p \<noteq> None" "\<not> retired" using assms(2) returns(1,3) by auto
      then have "s = Gone ExitCancel" "evs = []" "lim" using after live by (auto simp: slot_decide_def after_run_def)
      then show ?thesis using was True by (auto simp: slot_fits_def)
    next
      case False
      then have fin: "pl_slots p ! i = Finishing retired" using returns(3) by simp
      then obtain werr where werr: "werr \<in> set ?errs" "retired = err_matches werr ErrRetire" "err = snd (work_mode werr)"
        using assms(2) returns(1) by (auto simp: list_ex_iff)
      have "stage lim e i s (reports i (pl_log p) @ evs)" if e: "?errs = [Some e]" "one_shot e" for e
        using was fin werr e after decide_one_shot [OF e(2)] live
        by (cases "pl_ctx p") (auto simp: slot_fits_def after_run_def split: if_splits)
      moreover have "s \<noteq> Gone ExitDead \<and> s \<noteq> Gone ExitRetire \<and> s \<noteq> Finishing True" if "patient ?errs"
        using decide_patient [OF that werr(1), of "pl_ctx p"] after werr
        by (auto simp: after_run_def split: slot_action.splits)
      ultimately show ?thesis by (auto simp: slot_fits_def)
    qed
    show ?thesis
      using run_returned_after [OF after] returns(4) fits by (intro update [of i s evs]) simp_all
  next
    case (wake i d)
    then show ?thesis
      by (intro update [of i Running "[]"]) (auto simp: slot_fits_def)
  next
    case (cut i d)
    then show ?thesis
      by (intro update [of i "Gone ExitCancel" "[]"]) (auto simp: slot_fits_def)
  next
    case (cancelled e)
    then show ?thesis using assms(1) count quiet by (simp add: slots_fit_def)
  qed
qed

lemma pool_runs_fit: "pool_runs cfg out lim n p \<Longrightarrow> slots_fit cfg out lim p"
proof (induction rule: pool_runs.induct)
  case start
  have "slot_fits lim (out w) i Running []" for w i by (simp add: slot_fits_def)
  then show ?case
    using count_inv_start [of cfg None] quiet_inv_start [of cfg] by (simp add: slots_fit_def pool_start_def reports_def)
qed (rule slots_fit_step)

section \<open>Pools that finish\<close>

text \<open>Every work ID ends its slot, with the error \<open>err\<close>; the steps a slot has still to take.\<close>

abbreviation one_shots :: "pool_config \<Rightarrow> (string \<Rightarrow> gerror) \<Rightarrow> (string \<Rightarrow> gerror option list) \<Rightarrow> bool" where
  "one_shots cfg err out \<equiv> (\<forall>w\<in>set (pc_work_ids cfg). out w = [Some (err w)] \<and> one_shot (err w))"

fun to_go :: "slot \<Rightarrow> nat" where
  "to_go Running = 3"
| "to_go Working = 2"
| "to_go (Finishing b) = 1"
| "to_go s = 0"

definition steps_to_go :: "pool_state \<Rightarrow> nat" where
  "steps_to_go p = sum_list (map to_go (pl_slots p))"

lemma steps_to_go_update:
  "pl_slots p' = (pl_slots p)[i := s] \<Longrightarrow> i < length (pl_slots p) \<Longrightarrow> to_go (pl_slots p ! i) = Suc (to_go s) \<Longrightarrow>
   steps_to_go p = Suc (steps_to_go p')"
  using elem_le_sum_list [of i "map to_go (pl_slots p)"]
  by (simp add: steps_to_go_def map_update sum_list_update)

lemma fit_stage:
  assumes "slots_fit cfg out lim p" and "one_shots cfg err out" and "i < length (pl_slots p)"
  shows "stage lim (err (pc_work_ids cfg ! i)) i (pl_slots p ! i) (reports i (pl_log p))"
    and "length (pl_slots p) = length (pc_work_ids cfg)" and "one_shot (err (pc_work_ids cfg ! i))"
    and "out (pc_work_ids cfg ! i) = [Some (err (pc_work_ids cfg ! i))]"
proof -
  show len: "length (pl_slots p) = length (pc_work_ids cfg)" using assms(1) by (simp add: slots_fit_def counts_def)
  then have "pc_work_ids cfg ! i \<in> set (pc_work_ids cfg)" using assms(3) by simp
  then show "one_shot (err (pc_work_ids cfg ! i))" "out (pc_work_ids cfg ! i) = [Some (err (pc_work_ids cfg ! i))]"
    using assms(2) by blast+
  then show "stage lim (err (pc_work_ids cfg ! i)) i (pl_slots p ! i) (reports i (pl_log p))"
    using assms(1,3) by (simp add: slots_fit_def slot_fits_def)
qed

lemma fit_live:
  "slots_fit cfg out False p \<Longrightarrow> i < length (pl_slots p) \<Longrightarrow> pl_slots p ! i \<noteq> Gone ExitDead \<Longrightarrow> pl_ctx p = None"
  by (auto simp: slots_fit_def quiet_inv_def all_dead_def list_all_length)

lemma one_shot_step:
  assumes "slots_fit cfg out False p" and "one_shots cfg err out" and "undisturbed cfg out False p act"
    and "pool_step cfg act p = Some p'"
  shows "steps_to_go p = Suc (steps_to_go p')"
  using assms(4)
proof (cases rule: pool_stepE)
  case (enter i)
  then show ?thesis by (intro steps_to_go_update [of p' p i Working]) simp_all
next
  case (leave i werr)
  then show ?thesis by (intro steps_to_go_update [of p' p i "Finishing (err_matches werr ErrRetire)"]) simp_all
next
  case (returns i e draw retired)
  let ?e = "err (pc_work_ids cfg ! i)"
  have ctx: "pl_ctx p = None" using fit_live [OF assms(1) returns(2)] returns(3) by auto
  then have fin: "pl_slots p ! i = Finishing retired" using assms(3) returns(1,3) by auto
  note fit = fit_stage [OF assms(1,2) returns(2)]
  have e: "retired = errors_is ?e ErrRetire" "e = snd (work_mode (Some ?e))"
    using assms(3) returns(1) fin fit(4) by auto
  obtain s evs where after: "after_run cfg i e draw (slot_decide e retired (pl_ctx p)) = (s, evs)" by force
  have "to_go s = 0"
    using after decide_one_shot(1) [OF fit(3), of None] unfolding e ctx by (auto simp: after_run_def split: if_splits)
  then show ?thesis
    using run_returned_after(1) [OF after] returns(2,4) fin by (intro steps_to_go_update [of p' p i s]) simp_all
next
  case (wake i d)
  then show ?thesis using fit_stage(1) [OF assms(1,2) wake(2)] by simp
next
  case (cut i d)
  then show ?thesis using fit_stage(1) [OF assms(1,2) cut(2)] by simp
next
  case (cancelled e)
  then show ?thesis using assms(3) by simp
qed

lemma one_shot_steps:
  assumes "pool_runs cfg out False n p" and "one_shots cfg err out"
  shows "n + steps_to_go p = 3 * length (pc_work_ids cfg)"
  using assms(1)
proof (induction rule: pool_runs.induct)
  case start
  show ?case by (simp add: steps_to_go_def pool_start_def comp_def sum_list_triv)
next
  case (step n p act p')
  then show ?case using one_shot_step [OF pool_runs_fit [OF step(1)] assms(2) step(2,3)] by simp
qed

text \<open>Until every slot has exited, some slot can go on.\<close>

lemma one_shot_goes_on:
  assumes "slots_fit cfg out False p" and "one_shots cfg err out" and "\<not> list_all gone (pl_slots p)"
  shows "\<exists>act p'. undisturbed cfg out False p act \<and> pool_step cfg act p = Some p'"
proof -
  obtain i where i: "i < length (pl_slots p)" "\<not> gone (pl_slots p ! i)" using assms(3) by (auto simp: list_all_length)
  note fit = fit_stage [OF assms(1,2) i(1)]
  let ?e = "err (pc_work_ids cfg ! i)"
  show ?thesis
  proof (cases "pl_slots p ! i")
    case Running
    then show ?thesis using i by (intro exI [of _ "EnterWork i"]) simp
  next
    case Working
    then show ?thesis using i fit(4) by (intro exI [of _ "LeaveWork i (Some ?e)"]) simp
  next
    case (Finishing b)
    then show ?thesis
      using i fit decide_one_shot(3) [OF fit(3)] by (intro exI [of _ "RunReturns i (snd (work_mode (Some ?e))) 0"]) simp
  qed (use i fit(1) in auto)
qed

lemma one_shot_result:
  assumes "pool_runs cfg out False n p" and "one_shots cfg err out" and "pool_result cfg p = Some r"
  shows "r = (if \<forall>w\<in>set (pc_work_ids cfg). err w \<noteq> ErrRetire then Some ErrAllSlotsDead else None)"
    and "i < length (pc_work_ids cfg) \<Longrightarrow> reports i (pl_log p) = [OnSlotAcquired i,
      if err (pc_work_ids cfg ! i) = ErrRetire then OnSlotRetired i else OnSlotDead i (err (pc_work_ids cfg ! i))]"
proof -
  note fit = pool_runs_fit [OF assms(1)]
  have all: "list_all gone (pl_slots p)" using assms(3) by (auto simp: pool_result_def split: if_splits)
  have len: "length (pl_slots p) = length (pc_work_ids cfg)" using fit by (simp add: slots_fit_def counts_def)
  have slot: "pl_slots p ! i = Gone (if err (pc_work_ids cfg ! i) = ErrRetire then ExitRetire else ExitDead) \<and>
      reports i (pl_log p) = [OnSlotAcquired i,
        if err (pc_work_ids cfg ! i) = ErrRetire then OnSlotRetired i else OnSlotDead i (err (pc_work_ids cfg ! i))]"
    if i: "i < length (pl_slots p)" for i
  proof -
    obtain why where why: "pl_slots p ! i = Gone why"
      using all i by (cases "pl_slots p ! i") (auto simp: list_all_length dest!: spec [of _ i])
    then show ?thesis using fit_stage(1) [OF fit assms(2) i] by (cases why) auto
  qed
  then show "i < length (pc_work_ids cfg) \<Longrightarrow> reports i (pl_log p) = [OnSlotAcquired i,
      if err (pc_work_ids cfg ! i) = ErrRetire then OnSlotRetired i else OnSlotDead i (err (pc_work_ids cfg ! i))]"
    using len by simp
  have "all_dead p \<longleftrightarrow> (\<forall>w\<in>set (pc_work_ids cfg). err w \<noteq> ErrRetire)"
    using slot len by (auto simp: all_dead_def list_all_length all_set_conv_all_nth)
  moreover have "pl_dead p = length (pc_work_ids cfg) \<longleftrightarrow> all_dead p"
    using counts_all_dead fit by (auto simp: slots_fit_def all_dead_def)
  ultimately show "r = (if \<forall>w\<in>set (pc_work_ids cfg). err w \<noteq> ErrRetire then Some ErrAllSlotsDead else None)"
    using assms(3) all by (simp add: pool_result_def split: if_splits)
qed

text \<open>A pool with a slot that never ends by itself.\<close>

lemma patient_result:
  assumes "pool_runs cfg out lim n p" and "w \<in> set (pc_work_ids cfg)" and "patient (out w)" and "pool_result cfg p = Some r"
  shows "r = None"
proof -
  note fit = pool_runs_fit [OF assms(1)]
  obtain i where i: "i < length (pl_slots p)" "pc_work_ids cfg ! i = w"
    using assms(2) fit by (auto simp: in_set_conv_nth slots_fit_def counts_def)
  have "pl_slots p ! i \<noteq> Gone ExitDead" using fit i assms(3) by (auto simp: slots_fit_def slot_fits_def)
  then have "\<not> all_dead p" using i(1) by (auto simp: all_dead_def list_all_length)
  moreover have "pl_dead p = length (pc_work_ids cfg) \<longleftrightarrow> all_dead p"
    using counts_all_dead fit by (auto simp: slots_fit_def all_dead_def)
  ultimately show ?thesis using assms(4) by (simp add: pool_result_def split: if_splits)
qed

section \<open>The scenarios\<close>

text \<open>
  The pool of \<open>New\<close> and the states of its \<open>Run\<close> after \<open>n\<close> steps. The error of a work function is evaluated
  on the empty world and the zero checkpoint where it depends on neither.
\<close>

definition run_pool :: "pool_config \<Rightarrow> (string \<Rightarrow> gerror option list) \<Rightarrow> bool \<Rightarrow> nat \<Rightarrow> pool_state \<Rightarrow> bool" where
  "run_pool cfg out lim n p \<longleftrightarrow>
     (case pool_new (Some ()) cfg (Some ()) of
        Inl e \<Rightarrow> False
      | Inr (lease, cfg, fn) \<Rightarrow> pool_runs cfg out lim n p)"

definition work_error :: "'w \<times> work_outcome \<Rightarrow> gerror option" where
  "work_error r = (case snd r of Returned st e \<Rightarrow> e | Panicked \<Rightarrow> None)"

definition parts :: "string list" where
  "parts = [''part-0'', ''part-1'', ''part-2'', ''part-3'', ''part-4'', ''part-5'']"

definition scenario1Distribution :: "nat \<Rightarrow> pool_state \<Rightarrow> bool" where
  "scenario1Distribution = run_pool (partition_pool parts 0) (\<lambda>w. [work_error (distribution_work () zero_token zero_checkpoint)]) False"

text \<open>\<open>cps\<close> are the checkpoints that the slots of pool B read.\<close>

definition shards :: "string list" where
  "shards = [''shard-0'', ''shard-1'', ''shard-2'']"

definition scenario2CheckpointResume ::
  "partition_progress codec \<Rightarrow> (string \<Rightarrow> checkpoint) \<Rightarrow> nat \<Rightarrow> pool_state \<Rightarrow> nat \<Rightarrow> pool_state \<Rightarrow> bool" where
  "scenario2CheckpointResume codec cps n pA m pB \<longleftrightarrow>
     run_pool (partition_pool shards 0) (\<lambda>w. [work_error (batch_work codec () zero_token zero_checkpoint)]) False n pA \<and>
     pool_result (partition_pool shards 0) pA \<noteq> None \<and>
     run_pool (partition_pool shards (50 * millisecond)) (\<lambda>w. [work_error (resume_batch codec () zero_token (cps w))]) False m pB"

definition queues :: "string list" where
  "queues = [''queue-0'', ''queue-1'', ''queue-2'']"

definition initial_offsets :: "string \<Rightarrow> int option" where
  "initial_offsets = [''queue-0'' \<mapsto> 0, ''queue-1'' \<mapsto> 0]"

definition queue_errors :: "partition_progress codec \<Rightarrow> string \<Rightarrow> gerror option list" where
  "queue_errors codec w = remdups (map (\<lambda>sel. work_error (queue_work codec (\<lambda>u. (u, sel)) w ((), initial_offsets) zero_token zero_checkpoint))
     [None, Some CtxDeadlineExceeded])"

definition scenario3PermanentError :: "partition_progress codec \<Rightarrow> nat \<Rightarrow> pool_state \<Rightarrow> bool" where
  "scenario3PermanentError codec = run_pool (partition_pool queues (50 * millisecond)) (queue_errors codec) True"

definition topics :: "string list" where
  "topics = [''topic-0'', ''topic-1'', ''topic-legacy'']"

definition scenario4Retire :: "nat \<Rightarrow> pool_state \<Rightarrow> bool" where
  "scenario4Retire = run_pool (partition_pool topics 0) (\<lambda>w. [work_error (topic_work w () zero_token zero_checkpoint)]) False"

text \<open>The error does not depend on the offsets reached, since every one of them can be encoded.\<close>

lemma queue_work_error:
  "work_error (queue_work partition_codec (\<lambda>u. (u, sel)) w (u, offsets) tok cp) = (if w = ''queue-2'' then Some slotDone else sel)"
proof -
  have "\<exists>d. Encode partition_codec \<lparr>last_offset = wrap64 k\<rparr> = Inr (Some d)" for k
    using json_offset [OF partition_json_ok, of "\<lparr>last_offset = wrap64 k\<rparr>"] wrap64_range [of k] by (auto simp: is_int64_def)
  then show ?thesis
    by (cases sel) (auto simp: queue_work_def work_error_def Let_def split: sum.split, metis sum.distinct(1))
qed

lemma run_pool_partition:
  assumes "ids \<noteq> []" and "distinct ids" and "'''' \<notin> set ids"
  shows "run_pool (partition_pool ids bo) out lim n p \<longleftrightarrow> pool_runs (partition_pool ids (default_interval bo)) out lim n p"
proof -
  have "check_work_ids 0 [] ids = None" using assms by (simp add: check_work_ids_None)
  then show ?thesis
    using assms(1)
    by (simp add: run_pool_def pool_new_def partition_pool_def HasWaitForLease_def idleInterval_def rerunInterval_def default_interval_def)
qed

lemma partition_ids [simp]: "pc_work_ids (partition_pool ids bo) = ids"
  by (simp add: partition_pool_def)

lemma work_ids_ok:
  "parts \<noteq> [] \<and> distinct parts \<and> '''' \<notin> set parts" "shards \<noteq> [] \<and> distinct shards \<and> '''' \<notin> set shards"
  "queues \<noteq> [] \<and> distinct queues \<and> '''' \<notin> set queues" "topics \<noteq> [] \<and> distinct topics \<and> '''' \<notin> set topics"
  by (simp_all add: parts_def shards_def queues_def topics_def)

lemma pool_result_partition: "pool_result (partition_pool ids bo) = pool_result (partition_pool ids bo')"
  by (simp add: pool_result_def fun_eq_iff)

text \<open>A pool of one-shot slots takes three steps per slot, and until then it can go on.\<close>

lemma one_shot_ends:
  assumes "pool_runs cfg out False n p" and "one_shots cfg err out"
  shows "if n = 3 * length (pc_work_ids cfg) then pool_result cfg p \<noteq> None
    else n < 3 * length (pc_work_ids cfg) \<and> pool_result cfg p = None \<and>
      (\<exists>act p'. pool_step cfg act p = Some p' \<and> pool_runs cfg out False (Suc n) p')"
proof -
  note fit = pool_runs_fit [OF assms(1)]
  have done_iff: "list_all gone (pl_slots p) \<longleftrightarrow> steps_to_go p = 0"
  proof -
    have "gone (pl_slots p ! i) \<longleftrightarrow> to_go (pl_slots p ! i) = 0" if "i < length (pl_slots p)" for i
      using fit_stage(1) [OF fit assms(2) that] by (cases "pl_slots p ! i") auto
    then show ?thesis by (auto simp: steps_to_go_def list_all_length all_set_conv_all_nth)
  qed
  have on: "\<exists>act p'. pool_step cfg act p = Some p' \<and> pool_runs cfg out False (Suc n) p'" if "\<not> list_all gone (pl_slots p)"
    using one_shot_goes_on [OF fit assms(2) that] pool_runs.step [OF assms(1)] by blast
  show ?thesis
    using one_shot_steps [OF assms] done_iff on by (auto simp: pool_result_def)
qed

section \<open>Properties\<close>

text \<open>
  Scenario 1. Every run of the pool takes 18 steps, in any order of the slots; then every partition was
  processed exactly once, its slot is dead with \<open>slotDone\<close>, and \<open>Run\<close> returns \<open>ErrAllSlotsDead\<close>.
\<close>

theorem every_partition_processed:
  assumes "scenario1Distribution n p"
  shows "if n = 18 then pool_result (partition_pool parts 0) p = Some (Some ErrAllSlotsDead) \<and>
      (\<forall>i<6. reports i (pl_log p) = [OnSlotAcquired i, OnSlotDead i slotDone])
    else n < 18 \<and> pool_result (partition_pool parts 0) p = None \<and>
      (\<exists>act p'. pool_step (partition_pool parts second) act p = Some p' \<and> scenario1Distribution (Suc n) p')"
proof -
  let ?cfg = "partition_pool parts second" and ?out = "\<lambda>w. [work_error (distribution_work () zero_token zero_checkpoint)]"
  have runs: "scenario1Distribution n p \<longleftrightarrow> pool_runs ?cfg ?out False n p" for n p
    using run_pool_partition [of parts 0] work_ids_ok(1) by (simp add: scenario1Distribution_def default_interval_def)
  have shot: "one_shots ?cfg (\<lambda>w. slotDone) ?out" by (simp add: work_error_def distribution_work_def one_shot_def)
  have run: "pool_runs ?cfg ?out False n p" using assms runs by simp
  have len: "length parts = 6" by (simp add: parts_def)
  have result: "pool_result (partition_pool parts 0) p = pool_result ?cfg p" by (rule fun_cong [OF pool_result_partition])
  have "pool_result ?cfg p = Some r \<Longrightarrow> r = Some ErrAllSlotsDead \<and>
      (\<forall>i<6. reports i (pl_log p) = [OnSlotAcquired i, OnSlotDead i slotDone])" for r
    using one_shot_result [OF run shot] len by (simp add: slotDone_def)
  then show ?thesis using one_shot_ends [OF run shot] len runs unfolding result by auto
qed

text \<open>
  A retired partition stops its slot for good. In scenario 4 every run of the pool takes nine steps, in any
  order of the slots, and until then some slot can go on. Then each work function has run exactly once: the
  legacy topic was reported retired and the two other slots dead; and since a slot retired, \<open>Run\<close> returns
  nil and not \<open>ErrAllSlotsDead\<close>.
\<close>

theorem retired_partition_ends_pool:
  assumes "scenario4Retire n p"
  shows "if n = 9 then pool_result (partition_pool topics 0) p = Some None \<and>
      reports 0 (pl_log p) = [OnSlotAcquired 0, OnSlotDead 0 slotDone] \<and>
      reports 1 (pl_log p) = [OnSlotAcquired 1, OnSlotDead 1 slotDone] \<and>
      reports 2 (pl_log p) = [OnSlotAcquired 2, OnSlotRetired 2]
    else n < 9 \<and> pool_result (partition_pool topics 0) p = None \<and>
      (\<exists>act p'. pool_step (partition_pool topics second) act p = Some p' \<and> scenario4Retire (Suc n) p')"
proof -
  let ?cfg = "partition_pool topics second" and ?out = "\<lambda>w. [work_error (topic_work w () zero_token zero_checkpoint)]"
  let ?err = "\<lambda>w. if w = ''topic-legacy'' then ErrRetire else slotDone"
  have runs: "scenario4Retire n p \<longleftrightarrow> pool_runs ?cfg ?out False n p" for n p
    using run_pool_partition [of topics 0] work_ids_ok(4) by (simp add: scenario4Retire_def default_interval_def)
  have shot: "one_shots ?cfg ?err ?out" by (simp add: work_error_def topic_work_def one_shot_def)
  have run: "pool_runs ?cfg ?out False n p" using assms runs by simp
  have len: "length topics = 3" by (simp add: topics_def)
  have result: "pool_result (partition_pool topics 0) p = pool_result ?cfg p" by (rule fun_cong [OF pool_result_partition])
  have "pool_result ?cfg p = Some r \<Longrightarrow> r = None \<and> reports 0 (pl_log p) = [OnSlotAcquired 0, OnSlotDead 0 slotDone] \<and>
      reports 1 (pl_log p) = [OnSlotAcquired 1, OnSlotDead 1 slotDone] \<and>
      reports 2 (pl_log p) = [OnSlotAcquired 2, OnSlotRetired 2]" for r
    using one_shot_result(1) [OF run shot] one_shot_result(2) [OF run shot, of r 0] one_shot_result(2) [OF run shot, of r 1]
      one_shot_result(2) [OF run shot, of r 2] by (simp add: topics_def slotDone_def)
  then show ?thesis using one_shot_ends [OF run shot] len runs unfolding result by auto
qed

text \<open>A run of scenario 4 in which the slots take turns.\<close>

definition ex_turns :: "pool_action list" where
  "ex_turns = [EnterWork 0, EnterWork 1, EnterWork 2, LeaveWork 2 (Some ErrRetire), LeaveWork 0 (Some slotDone), RunReturns 2 None 0,
     LeaveWork 1 (Some slotDone), RunReturns 1 (Some slotDone) 0, RunReturns 0 (Some slotDone) 0]"

fun undisturbed_run ::
  "pool_config \<Rightarrow> (string \<Rightarrow> gerror option list) \<Rightarrow> bool \<Rightarrow> pool_action list \<Rightarrow> pool_state \<Rightarrow> pool_state option" where
  "undisturbed_run cfg out lim [] p = Some p"
| "undisturbed_run cfg out lim (act # acts) p =
     (if undisturbed cfg out lim p act
      then (case pool_step cfg act p of None \<Rightarrow> None | Some p' \<Rightarrow> undisturbed_run cfg out lim acts p')
      else None)"

lemma pool_runs_exec:
  "undisturbed_run cfg out lim acts p = Some p' \<Longrightarrow> pool_runs cfg out lim n p \<Longrightarrow> pool_runs cfg out lim (n + length acts) p'"
proof (induction acts arbitrary: n p)
  case (Cons act acts)
  then obtain p1 where "undisturbed cfg out lim p act" "pool_step cfg act p = Some p1" "undisturbed_run cfg out lim acts p1 = Some p'"
    by (auto split: if_splits option.splits)
  then show ?case using Cons.IH [of p1 "Suc n"] pool_runs.step [OF Cons.prems(2)] by simp
qed simp

lemma ex_scenario4: obtains p where "scenario4Retire 9 p"
proof -
  let ?out = "\<lambda>w. [work_error (topic_work w () zero_token zero_checkpoint)]"
  obtain p where "undisturbed_run (partition_pool topics second) ?out False ex_turns (pool_start (partition_pool topics second) None) = Some p"
    by (simp add: ex_turns_def pool_start_def topics_def work_error_def topic_work_def run_returned_def slot_decide_def work_mode_def slotDone_def Let_def)
  from pool_runs_exec [OF this pool_runs.start] have "pool_runs (partition_pool topics second) ?out False 9 p"
    by (simp add: ex_turns_def eval_nat_numeral)
  then show ?thesis
    using that run_pool_partition [of topics 0] work_ids_ok(4) by (simp add: scenario4Retire_def default_interval_def)
qed

theorem retired_partition_ends_pool_witness:
  "\<exists>p. scenario4Retire 9 p \<and> pool_result (partition_pool topics 0) p = Some None \<and>
     reports 2 (pl_log p) = [OnSlotAcquired 2, OnSlotRetired 2]"
proof -
  obtain p where p: "scenario4Retire 9 p" by (rule ex_scenario4)
  show ?thesis using retired_partition_ends_pool [OF p] p by auto
qed

text \<open>
  Scenario 2. Both pools end with \<open>ErrAllSlotsDead\<close> after one run per slot, whatever offsets the slots of
  pool B decode.
\<close>

theorem batches_end_pools:
  assumes "scenario2CheckpointResume partition_codec cps n pA m pB"
    and "\<And>w. w \<in> set shards \<Longrightarrow> \<exists>q. Decode partition_codec zero_partition (cp_state (cps w)) = Inr q"
    and "pool_result (partition_pool shards 0) pB = Some r"
  shows "n = 9 \<and> pool_result (partition_pool shards 0) pA = Some (Some ErrAllSlotsDead) \<and> m = 9 \<and> r = Some ErrAllSlotsDead"
proof -
  let ?A = "partition_pool shards second" and ?B = "partition_pool shards (50 * millisecond)"
  let ?outA = "\<lambda>w. [work_error (batch_work partition_codec () zero_token zero_checkpoint)]"
  let ?outB = "\<lambda>w. [work_error (resume_batch partition_codec () zero_token (cps w))]"
  have enc: "\<exists>d. Encode partition_codec \<lparr>last_offset = wrap64 k\<rparr> = Inr (Some d)" for k
    using json_offset [OF partition_json_ok, of "\<lparr>last_offset = wrap64 k\<rparr>"] wrap64_range [of k] by (auto simp: is_int64_def)
  have hundred: "wrap64 100 = 100" by (rule wrap64_id) (simp add: is_int64_def)
  have A: "one_shots ?A (\<lambda>w. slotDone) ?outA"
    using enc [of 100] hundred by (auto simp: work_error_def batch_work_def encode_done_def one_shot_def)
  have B: "one_shots ?B (\<lambda>w. slotDone) ?outB"
  proof
    fix w assume "w \<in> set (pc_work_ids ?B)"
    then obtain q where q: "Decode partition_codec zero_partition (cp_state (cps w)) = Inr q" using assms(2) by auto
    have set: "q\<lparr>last_offset := wrap64 (last_offset q + 100)\<rparr> = \<lparr>last_offset = wrap64 (last_offset q + 100)\<rparr>" by (cases q) simp
    then show "?outB w = [Some slotDone] \<and> one_shot slotDone"
      using q enc [of "last_offset q + 100"] by (auto simp: work_error_def resume_batch_def encode_done_def one_shot_def set)
  qed
  have runA: "pool_runs ?A ?outA False n pA" and runB: "pool_runs ?B ?outB False m pB"
    using assms(1) run_pool_partition [of shards 0] run_pool_partition [of shards "50 * millisecond"] work_ids_ok(2)
    by (simp_all add: scenario2CheckpointResume_def default_interval_def)
  have result: "pool_result (partition_pool shards 0) = pool_result ?A" "pool_result (partition_pool shards 0) = pool_result ?B"
    by (rule pool_result_partition)+
  obtain rA where rA: "pool_result (partition_pool shards 0) pA = Some rA"
    using assms(1) by (auto simp: scenario2CheckpointResume_def)
  have len: "length shards = 3" by (simp add: shards_def)
  have "n = 9" using one_shot_ends [OF runA A] rA len unfolding result(1) by (auto split: if_splits)
  moreover have "m = 9" using one_shot_ends [OF runB B] assms(3) len unfolding result(2) by (auto split: if_splits)
  moreover have "rA = Some ErrAllSlotsDead"
    using one_shot_result(1) [OF runA A] rA unfolding result(1) by (simp add: slotDone_def)
  moreover have "r = Some ErrAllSlotsDead"
    using one_shot_result(1) [OF runB B] assms(3) unfolding result(2) by (simp add: slotDone_def)
  ultimately show ?thesis using rA by simp
qed

text \<open>
  Scenario 3. At any time before or after the deadline, once the decommissioned queue's slot was reported
  dead it is not among the active slots; it works at most once; and \<open>Run\<close> returns nil, since the two other
  slots only stop when the deadline passes.
\<close>

theorem decommissioned_slot_dropped:
  assumes "scenario3PermanentError partition_codec n p"
  shows "(OnSlotDead 2 slotDone \<in> set (pl_log p) \<longrightarrow> ''queue-2'' \<notin> active_slots (partition_pool queues (50 * millisecond)) p) \<and>
    reports 2 (pl_log p) \<in> {[], [OnSlotAcquired 2], [OnSlotAcquired 2, OnSlotDead 2 slotDone]} \<and>
    (\<forall>r. pool_result (partition_pool queues (50 * millisecond)) p = Some r \<longrightarrow> r = None)"
proof -
  let ?cfg = "partition_pool queues (50 * millisecond)"
  have run: "pool_runs ?cfg (queue_errors partition_codec) True n p"
    using assms run_pool_partition [of queues "50 * millisecond"] work_ids_ok(3)
    by (simp add: scenario3PermanentError_def default_interval_def)
  note fit = pool_runs_fit [OF run]
  have fifty: "wrap64 50 = 50" by (rule wrap64_id) (simp add: is_int64_def)
  obtain d where "Encode partition_codec \<lparr>last_offset = 50\<rparr> = Inr (Some d)"
    using json_offset [OF partition_json_ok, of "\<lparr>last_offset = 50\<rparr>"] by (auto simp: is_int64_def)
  then have patient: "patient (queue_errors partition_codec ''queue-0'')"
    using fifty by (simp add: queue_errors_def queue_work_def work_error_def initial_offsets_def patient_def)
  have len: "length (pl_slots p) = 3" using fit by (simp add: slots_fit_def counts_def queues_def)
  have once: "queue_errors partition_codec ''queue-2'' = [Some slotDone]"
    by (simp add: queue_errors_def queue_work_def work_error_def)
  have "slot_fits True (queue_errors partition_codec (pc_work_ids ?cfg ! 2)) 2 (pl_slots p ! 2) (reports 2 (pl_log p))"
    using fit len by (simp add: slots_fit_def)
  then have stage: "stage True slotDone 2 (pl_slots p ! 2) (reports 2 (pl_log p))"
    using once by (simp add: slot_fits_def queues_def one_shot_def)
  have "''queue-2'' \<notin> active_slots ?cfg p" if "OnSlotDead 2 slotDone \<in> set (pl_log p)"
  proof
    assume "''queue-2'' \<in> active_slots ?cfg p"
    then obtain i where "i < 3" "pl_slots p ! i = Working" "queues ! i = ''queue-2''"
      using fit len by (auto simp: active_slots_def slots_fit_def counts_def)
    moreover from this have "i = 2" by (auto simp: queues_def less_Suc_eq numeral_3_eq_3)
    moreover have "OnSlotDead 2 slotDone \<in> set (reports 2 (pl_log p))" using that by (simp add: reports_def)
    ultimately show False using stage by simp
  qed
  moreover have "reports 2 (pl_log p) \<in> {[], [OnSlotAcquired 2], [OnSlotAcquired 2, OnSlotDead 2 slotDone]}"
    using stage by (cases "pl_slots p ! 2" rule: gone.cases) (auto simp: slotDone_def elim!: stage.elims)
  moreover have "r = None" if "pool_result ?cfg p = Some r" for r
    by (rule patient_result [OF run _ patient that]) (simp add: queues_def)
  ultimately show ?thesis by blast
qed

end
