(* ===== verification/Spec2Isabelle.thy ===== *)
theory Spec2Isabelle
  imports
    Prelude Backend_Spec Backend_Laws Memory Floats Postgres Row_Types Conformance Slices
    Lease Client Renewal Runner Leader Pool Vacuum Codec Cluster
    Migration Cancellation Observability Scheduler Partition Exhaustion
    Json Json_Codec Paced Migration_Program Cancellation_Program Waiting Failover Partition_Pools
begin

text \<open>
  Verification of worklease: leases with fencing tokens that hand work from one holder to the next.

  \<^bold>\<open>The program.\<close> A \<open>Backend\<close> (\<open>backend/backend.go\<close>) stores one row per work ID: its holder, a
  fencing token, an expiry, a checkpoint, and how the holder and the one before it left. There are
  two, in memory and on PostgreSQL. The lease client (\<open>worklease.go\<close>, \<open>acquire.go\<close>) adds token
  deadlines on the local clock, observer events and waiting; \<open>StartRenewal\<close> (\<open>renewal.go\<close>) keeps a
  lease alive from a goroutine until it is stopped, fenced or its window closes. \<open>worker.Runner\<close> runs
  a function once under a lease, \<open>leader.Elect\<close> for one term, and \<open>pool.Pool\<close> runs a runner in a
  loop for every work ID of a list. \<open>Vacuum\<close> deletes old rows; \<open>checkpoint\<close> encodes typed states;
  \<open>backend/conformance\<close> is the test suite every backend must pass. The programs under \<open>examples\<close> use all
  of it: handlers that resume after a crash, a metrics observer, a scheduler that leads in terms.

  \<^bold>\<open>Theories and sources.\<close> Functions keep their Go names, with a prefix where two packages share one.

  \<^item> \<open>Prelude\<close>: Go's integers, durations, instants, byte slices as values, error values with
    \<open>errors.Is\<close> and \<open>errors.As\<close>; facts on association lists.
  \<^item> \<open>Backend_Spec\<close>, \<open>backend/backend.go\<close> and \<open>errors.go\<close>: the \<open>Backend\<close> interface as a record of
    its methods over a state, and its documented contract as the locale \<open>lease_backend\<close>.
  \<^item> \<open>Backend_Laws\<close>: the life cycle of a row as a step relation \<open>row_step\<close>, the abstract
    specification; every call of a backend that meets the contract is one of its steps. Fencing,
    exclusion, handoff and the finality of an exit follow for any schedule of calls.
  \<^item> \<open>Memory\<close>, \<open>backend/memory/memory.go\<close>: the methods, and the interpretation \<open>mem\<close> of the contract.
  \<^item> \<open>Slices\<close>: the same backend with its slices and the arrays they point to, among callers that
    write to every array they can reach; it behaves as the backend of values.
  \<^item> \<open>Floats\<close>: the \<open>float64\<close> arithmetic of retention and jitter.
  \<^item> \<open>Postgres\<close>, \<open>backend/postgres/postgres.go\<close> and \<open>schema.sql\<close>: one function per SQL statement,
    the methods over them with driver faults and other sessions between two statements, and the
    interpretation \<open>pg\<close>. As a \<open>Backend\<close> they are \<open>postgres_in E\<close>, with any faults and commits \<open>E\<close>, and
    \<open>postgres\<close>, whose statements fail only when the context is done before they start; \<open>pg_view\<close> reads a
    row as \<open>ReadCheckpoint\<close> does, an empty checkpoint as none and an unknown text as \<open>ExitExpired\<close>.
  \<^item> \<open>Conformance\<close>, \<open>backend/conformance/conformance.go\<close>: the suite, block by block; the contract
    implies every block, so both backends pass.
  \<^item> \<open>Lease\<close>, \<open>lease.go\<close>: tokens, options, events. \<open>Client\<close>, \<open>worklease.go\<close> and \<open>acquire.go\<close>.
    \<open>Renewal\<close>, \<open>renewal.go\<close>: goroutine, call in flight, caller, clock and other clients as actions of a
    step function.
  \<^item> \<open>Runner\<close>, \<open>worker/runner.go\<close>, and \<open>Leader\<close>, \<open>leader/leader.go\<close>: \<open>Run\<close> and \<open>Elect\<close> over an
    arbitrary \<open>Lease\<close>, whose calls are recorded as a trace with what they return, the end of the work
    function and the cause of the renewal context included; \<open>lifecycle\<close> and \<open>term_calls\<close> say which traces
    and results there are. Then \<open>Run\<close> over the lease client.
  \<^item> \<open>Pool\<close>, \<open>pool/pool.go\<close>: \<open>New\<close>, and the slots of \<open>Run\<close> as a step function over interleavings.
  \<^item> \<open>Vacuum\<close>, \<open>vacuum.go\<close>. \<open>Codec\<close>, \<open>checkpoint/codec.go\<close>, over an arbitrary codec.
  \<^item> \<open>Json\<close>: what \<open>encoding/json\<close> prints and accepts, bytes and UTF-8 included. \<open>Json_Codec\<close>: \<open>JSONCodec\<close> on
    the checkpoints of the examples.
  \<^item> \<open>Row_Types\<close>: the values that the rows of the memory backend and the columns of the table can hold, as
    invariants; for the table under any driver faults.
  \<^item> \<open>Cluster\<close>: any number of renewal sessions of \<open>Renewal\<close>, on hosts of their own, against one
    backend.
  \<^item> The programs \<open>examples/*/main.go\<close>: \<open>Migration\<close> (\<open>cross-tenant-migration\<close>), \<open>Cancellation\<close>
    (\<open>subscription-cancellation\<close>), \<open>Observability\<close>, \<open>Scheduler\<close> (\<open>cluster-singleton-scheduler\<close>),
    \<open>Partition\<close> (\<open>partition-processor\<close>) and \<open>Exhaustion\<close> (\<open>renewal-backoff\<close>): their handlers as work
    functions of \<open>Runner\<close>, \<open>Pool\<close> or \<open>Leader\<close>, over the modelled library.
  \<^item> Whole programs of the same directory: \<open>Migration_Program\<close> and \<open>Cancellation_Program\<close> run every scenario
    and \<open>main\<close>, on \<open>Paced\<close>, a sequential program that sleeps and calls the lease client on a memory backend;
    \<open>Waiting\<close> is the scenario of \<open>renewal-backoff\<close> with a deadline, and \<open>Failover\<close> the two of the scheduler
    in which a standby waits for the lease. \<open>Partition_Pools\<close> has the pools of \<open>partition-processor\<close>, in every
    interleaving of their slots.
  \<^item> This theory: what a run in a slot of a pool makes of the error of its work function.

  \<^bold>\<open>What the lemmas show.\<close> Backends: the contract, refinement of the row life cycle, fencing of stale
  records in every schedule, exclusion, handoff of exit and checkpoint, exactness of sweeps, errors and
  partial failures of PostgreSQL statements, no aliasing of slices. Client and renewal: a fenced client
  stays fenced, token deadlines and the published lease window stay within the stored lease, every
  renewal ends with a cause and every attempt is reported once, waits are bounded. Runner, leader, pool:
  the order of lease calls and callbacks with their outcomes, no write and no release of a lease known to be lost,
  the exit and the result each outcome calls for, what a nil result guarantees, slot accounting and results,
  drainage. Cluster: among all sessions on one work ID at most one believes it holds a live lease.
  Examples: a handler that crashes at any point resumes from the last state it wrote and does
  the rest, a counter holds exactly the events that were reported, and a stalled leader loses its
  window. Programs: on a host that is quick besides its sleeps, \<open>main\<close> of the migration and of the
  cancellation reaches its end, with every step done once and the one zombie refused; a wait ends with
  its deadline or with the lapse of the lease it waits for, and not before; a pool of slots that stop after one run takes three steps per slot. JSON: what is printed is parsed to the same value, so the codec hypotheses
  of the handlers hold of \<open>JSONCodec\<close>. Most laws of backends are proved once in \<open>context lease_backend\<close> and stated on \<open>memory\<close> or \<open>postgres\<close>
  through the interpretations.

  \<^bold>\<open>Time, concurrency, contexts.\<close> A call takes its clock readings as a function \<open>clk\<close>, monotone where a
  theorem needs it. A memory call holds the mutex throughout and is one step; a PostgreSQL statement is
  one step. A context is the error it has at the points the code reads it. A Go map is an association
  list whose order is arbitrary. An error message keeps its constant prefix only.
  In a whole program, \<open>time.Sleep\<close> and the timers of the simulated work shift the clock readings of all later
  calls (\<open>pause\<close>); the rest of the program takes less than a second in all (\<open>on_pace\<close>), or less than ten
  seconds between two calls (\<open>ticking\<close>), and nobody else calls the backend.

  \<^bold>\<open>Bounds.\<close> Tokens are 64-bit words. Theorems that need fresh tokens assume fewer than
  \<open>token_limit = 2 ^ 63 - 2\<close> were issued: PostgreSQL's \<open>BIGINT\<close> sequence ends there, and one call of
  \<open>Acquire\<close> takes up to two values of it (\<open>nextval\<close> runs once for the row proposed and once for the
  update, and once when the lease is held). Retentions are 64-bit; those within a microsecond or
  a float rounding of the age of a row may fall either way (\<open>sweep_slack\<close>). Backoff is bounded for
  maxima up to \<open>2 ^ 50\<close> ns, jittered waits for intervals up to \<open>2 ^ 49\<close> ns: floating-point rounding stays
  within the stated factors there. Deadlines and windows are compared with the stored expiry under a
  constant offset between the two clocks, since the code promises nothing under drift. A run of
  the conformance suite has its calls at least 5 microseconds apart, so that a retention of a
  nanosecond has passed between them, and takes less than 20 seconds per block, within its 30 second
  leases. No definition needs fuel: \<open>Acquire\<close> with \<open>WithWaitForLease\<close> and
  \<open>runNode\<close> of the scheduler are partial functions with theorems that they return; in the instance of \<open>Lease\<close> that \<open>Runner\<close> and \<open>Leader\<close> use, an \<open>Acquire\<close>
  that never returns is cut short as cancelled.

  \<^bold>\<open>Simplifications.\<close> While a work function runs, renewal is represented in \<open>Runner\<close> and \<open>Leader\<close> by the
  cause its context ends with, any that \<open>Renewal\<close> allows; the last slot of a pool to die counts
  itself and cancels the pool in one step; a successful renewal moves the window of the goroutine and the
  published one in one step, and the clock is read once for the check of the window and the start of the
  attempt. The actions of the two step functions are the scheduler's and stand for no code of
  their own. The float model is exact integer arithmetic on units of
  \<open>2 ^ -100\<close>, correctly rounded.

  \<^bold>\<open>Not modelled.\<close> The no-op observers, \<open>Token.String\<close>, the clock option of the memory
  backend (every clock is allowed), the PostgreSQL driver (that it copies the bytes it is given and
  gives out is its contract), \<open>internal/testutil\<close> (mocks generated by MockGen) and the tests. JSON is
  modelled for structs of strings, booleans and 64-bit integers, not for all of \<open>encoding/json\<close>; an empty
  list stands for a nil slice, so that one decoded from \<open>[]\<close> is printed as \<open>null\<close>, and a decoded array
  keeps nothing of the spare capacity of the slice it replaces. Log lines are left out throughout. Two
  scenarios of the scheduler start two nodes at once: the loop of a node is modelled, and \<open>Cluster\<close> has any
  number of sessions, but not the two nodes as one program. In \<open>Partition_Pools\<close> a run is represented by the
  error of its work function; \<open>Partition\<close> has the run itself, on the lease client and a memory backend. What
  else a handler does outside the library is a parameter.
\<close>

section \<open>Runs in a pool\<close>

text \<open>What a run returns, from what its work function returned.\<close>

lemma run_release_result:
  assumes "run_release r w tok m result = (w', res)"
  shows "res = result \<or> res = Some ErrFenced \<or> result = None \<and> (\<exists>e. res = Some (Wrap ''worker: release'' e))"
  using assms by (auto simp: run_release_def Let_def split: prod.splits option.splits if_splits)

lemma run_finish_result:
  assumes "run_finish r w tok st (Some e) cause = (w', res)" and "\<not> errors_is e ErrRetire"
  shows "res = Some ErrFenced \<or> res = Some e \<and> \<not> errors_is e ErrFenced"
proof (cases "errors_is e ErrFenced \<or> err_matches cause ErrFenced \<or> err_matches cause ErrLeaseWindowExhausted")
  case True
  then show ?thesis using assms(1) by (cases cause) (auto simp: run_finish_def split: if_splits)
next
  case False
  note live = False
  have mode: "work_mode (Some e) = (ExitAbandoned, Some e)" using assms(2) by (simp add: work_mode_def)
  show ?thesis
  proof (cases st)
    case None
    then show ?thesis
      using live assms(1) mode run_release_result [of r w tok ExitAbandoned "Some e" w' res]
      by (auto simp: run_finish_def)
  next
    case (Some s)
    obtain w1 x where cp: "l_checkpoint (ru_lease r) (CleanupCtx (ru_cleanup r)) w tok (Some s) = (w1, x)"
      by (cases "l_checkpoint (ru_lease r) (CleanupCtx (ru_cleanup r)) w tok (Some s)")
    then show ?thesis
      using live assms(1) mode Some run_release_result [of r w1 tok ExitAbandoned "Some e" w' res]
      by (cases x) (auto simp: run_finish_def split: if_splits)
  qed
qed

text \<open>
  C27. A work function's error decides its slot. When the work function of a run returned an error
  that is not \<open>ErrRetire\<close>, and the context is not done, then whatever the lease client did the slot
  reacquires at once if the run was fenced, and otherwise does what this very error says: it dies
  of a permanent error, waits the idle interval after \<open>ErrLeaseHeld\<close>, and backs off after any other.
  When the run returned nil, the slot retires if the work function asked for it, and reruns if not.
\<close>

theorem slot_follows_work:
  assumes "l_acquire (ru_lease r) CallerCtx w workID (ru_acquire r) = (w1, Inr tok)"
    and "l_read_checkpoint (ru_lease r) CallerCtx w1 tok = (w2, Inr cp)"
    and "ru_fn r (l_start_renewal (ru_lease r) CallerCtx w2 tok (ru_renewal r)) tok cp = (w4, Returned st werr)"
    and "runner_run r w workID = (w', Done res)"
  shows "(\<forall>e. werr = Some e \<and> \<not> errors_is e ErrRetire \<longrightarrow>
      (res = Some ErrFenced \<and> slot_decide res (err_matches werr ErrRetire) None = DoLost) \<or>
      (res = Some e \<and> slot_decide res (err_matches werr ErrRetire) None =
        (if errors_as_permanent e = Some True then DoDead
         else if errors_is e ErrLeaseHeld then DoIdle else DoBackoff))) \<and>
    (res = None \<longrightarrow> slot_decide res (err_matches werr ErrRetire) None =
       (if err_matches werr ErrRetire then DoRetire else DoRerun))"
proof -
  obtain w6 where fin: "run_finish r (l_stop_renewal (ru_lease r) w4) tok st werr
      (l_cause (ru_lease r) (l_stop_renewal (ru_lease r) w4)) = (w6, res)"
    using assms by (auto simp: runner_run_def Let_def split: prod.splits)
  show ?thesis
  proof (cases werr)
    case None
    then show ?thesis by (simp add: slot_decide_def)
  next
    case (Some e)
    then show ?thesis
      using run_finish_result [OF fin [unfolded Some]] by (auto simp: slot_decide_def)
  qed
qed

text \<open>A run whose work function fails permanently.\<close>

definition ex_perm_runner :: "memory_backend cworld runner" where
  "ex_perm_runner = ex_runner\<lparr>ru_fn := (\<lambda>w tok cp. (w, Returned None (Some (Permanent None))))\<rparr>"

theorem slot_follows_work_witness:
  "\<exists>w' res. runner_run ex_perm_runner ex_world ''w'' = (w', Done res) \<and> slot_decide res False None \<in> {DoDead, DoLost}"
proof -
  obtain w1 tok w2 cp w' res where
    "l_acquire (ru_lease ex_perm_runner) CallerCtx ex_world ''w'' (ru_acquire ex_perm_runner) = (w1, Inr tok)"
    "l_read_checkpoint (ru_lease ex_perm_runner) CallerCtx w1 tok = (w2, Inr cp)"
    "ru_fn ex_perm_runner (l_start_renewal (ru_lease ex_perm_runner) CallerCtx w2 tok (ru_renewal ex_perm_runner)) tok cp =
       (w2, Returned None (Some (Permanent None)))"
    and run: "runner_run ex_perm_runner ex_world ''w'' = (w', Done res)"
    by (simp add: ex_perm_runner_def Permanent_def ex_run_simps)
  from slot_follows_work [OF this] show ?thesis using run by (auto simp: Permanent_def)
qed

end
